(* ===== verification/Prelude.thy ===== *)
theory Prelude
  imports Main "HOL-Library.Word" "HOL-Library.AList"
begin

text \<open>
  Types and generic facts shared by every component of the development.

  \<^item> Rust's machine integers: \<open>u8\<close> is an 8-bit word; \<open>u16\<close>, \<open>u32\<close>, \<open>u64\<close> and \<open>usize\<close>
    values whose width does not matter are natural numbers, and \<open>i64\<close> values are integers
    with their range written out.
  \<^item> A byte slice, a \<open>Vec\<close> of bytes and a fixed-size byte array are byte lists.
  \<^item> A function that returns \<open>Result\<close> with a static string error returns a sum, the error text on
    the left. Code that can also panic returns an \<open>outcome\<close>, so that the panic is a value.
  \<^item> A \<open>HashMap\<close> is an association list with distinct keys. Code that iterates over one takes the
    iteration order, which Rust leaves open, as an argument.
\<close>

unbundle bit_operations_syntax

section \<open>Types\<close>

type_synonym u8 = "8 word"
type_synonym u16 = "16 word"
type_synonym u32 = "32 word"
type_synonym u64 = "64 word"
type_synonym bytes = "u8 list"
type_synonym 'a result = "string + 'a"

text \<open>The result of code that can return an error, panic, or run out of the model's fuel.\<close>

datatype 'a outcome = Ok 'a | Err string | Panic | OutOfFuel

fun obind :: "'a outcome \<Rightarrow> ('a \<Rightarrow> 'b outcome) \<Rightarrow> 'b outcome" where
  "obind (Ok x) f = f x"
| "obind (Err e) f = Err e"
| "obind Panic f = Panic"
| "obind OutOfFuel f = OutOfFuel"

named_theorems codec \<open>equations that evaluate an encoder or a decoder\<close>
named_theorems lens \<open>lengths of encodings and of fixed-size arrays\<close>

lemma obind_eq_Ok:
  "obind m f = Ok y \<longleftrightarrow> (\<exists>x. m = Ok x \<and> f x = Ok y)"
  by (cases m) auto

lemma obind_cong [fundef_cong]:
  "m = m' \<Longrightarrow> (\<And>x. m' = Ok x \<Longrightarrow> f x = g x) \<Longrightarrow> obind m f = obind m' g"
  by (cases m') auto

text \<open>
  What an outcome may be: a value satisfying \<open>Q\<close>, an error, and a panic or exhausted fuel only where
  \<open>pn\<close> or \<open>fu\<close> allows it.
\<close>

definition outcome_sat :: "bool \<Rightarrow> bool \<Rightarrow> ('a \<Rightarrow> bool) \<Rightarrow> 'a outcome \<Rightarrow> bool" where
  "outcome_sat pn fu Q m = (case m of Ok x \<Rightarrow> Q x | Err _ \<Rightarrow> True | Panic \<Rightarrow> pn | OutOfFuel \<Rightarrow> fu)"

lemma outcome_sat_simps [simp]:
  "outcome_sat pn fu Q (Ok x) = Q x" "outcome_sat pn fu Q (Err e)"
  "outcome_sat pn fu Q Panic = pn" "outcome_sat pn fu Q OutOfFuel = fu"
  by (simp_all add: outcome_sat_def)

lemma outcome_sat_bind:
  "outcome_sat pn fu Q m \<Longrightarrow> (\<And>x. Q x \<Longrightarrow> outcome_sat pn fu R (f x)) \<Longrightarrow>
     outcome_sat pn fu R (obind m f)"
  by (cases m) simp_all

lemma outcome_sat_mono:
  "outcome_sat pn fu Q m \<Longrightarrow> (pn \<Longrightarrow> pn') \<Longrightarrow> (fu \<Longrightarrow> fu') \<Longrightarrow> (\<And>x. Q x \<Longrightarrow> Q' x) \<Longrightarrow>
     outcome_sat pn' fu' Q' m"
  by (cases m) simp_all

lemma outcome_sat_if:
  "(c \<Longrightarrow> outcome_sat pn fu Q a) \<Longrightarrow> (\<not> c \<Longrightarrow> outcome_sat pn fu Q b) \<Longrightarrow>
     outcome_sat pn fu Q (if c then a else b)"
  by simp

section \<open>Lists\<close>

text \<open>The slice \<open>xs[a..b]\<close>, for bounds the code has checked.\<close>

definition slice :: "nat \<Rightarrow> nat \<Rightarrow> 'a list \<Rightarrow> 'a list" where
  "slice a b xs = take (b - a) (drop a xs)"

lemma length_slice [simp, lens]: "length (slice a b xs) = min (b - a) (length xs - a)"
  by (simp add: slice_def)

lemma slice_append_mid:
  "length xs = a \<Longrightarrow> b = a + length ys \<Longrightarrow> slice a b (xs @ ys @ zs) = ys"
  by (simp add: slice_def)

text \<open>\<open>chunks(n)\<close> and \<open>chunks_exact(n)\<close> of a slice.\<close>

function chunks :: "nat \<Rightarrow> 'a list \<Rightarrow> 'a list list" where
  "chunks n xs = (if n = 0 \<or> xs = [] then [] else take n xs # chunks n (drop n xs))"
  by pat_completeness auto
termination
  by (relation "measure (\<lambda>(n, xs). length xs)") auto

function chunks_exact :: "nat \<Rightarrow> 'a list \<Rightarrow> 'a list list" where
  "chunks_exact n xs =
     (if n = 0 \<or> length xs < n then [] else take n xs # chunks_exact n (drop n xs))"
  by pat_completeness auto
termination
  by (relation "measure (\<lambda>(n, xs). length xs)") auto

declare chunks.simps [simp del] chunks_exact.simps [simp del]

lemma chunks_Nil [simp]: "chunks n [] = []"
  by (simp add: chunks.simps)

lemma concat_chunks: "0 < n \<Longrightarrow> concat (chunks n xs) = xs"
proof (induction n xs rule: chunks.induct)
  case (1 n xs)
  then show ?case by (cases "xs = []") (simp_all add: chunks.simps [of n xs])
qed

lemma chunks_lengths:
  "c \<in> set (chunks n xs) \<Longrightarrow> 0 < length c \<and> length c \<le> n"
proof (induction n xs rule: chunks.induct)
  case (1 n xs)
  then show ?case by (cases "n = 0 \<or> xs = []") (auto simp: chunks.simps [of n xs])
qed

lemma length_chunks: "0 < n \<Longrightarrow> length (chunks n xs) = (length xs + n - 1) div n"
proof (induction n xs rule: chunks.induct)
  case (1 n xs)
  consider "xs = []" | "xs \<noteq> []" "length xs \<le> n" | "n < length xs" by fastforce
  then show ?case
  proof cases
    case 1
    then show ?thesis using "1.prems" by simp
  next
    case 2
    then have "(length xs + n - 1) div n = 1"
      by (intro div_nat_eqI) (cases xs; simp)+
    with 2 "1.prems" show ?thesis by (simp add: chunks.simps [of n xs])
  next
    case 3
    then have ne: "xs \<noteq> []" by auto
    with "1.prems" 3 have IH: "length (chunks n (drop n xs)) = (length xs - 1) div n"
      using "1.IH" by simp
    have "(length xs + n - 1) div n = (length xs - 1 + n) div n" using 3 by simp
    also have "\<dots> = Suc ((length xs - 1) div n)"
      using "1.prems" by (simp add: div_add_self2)
    finally show ?thesis using IH ne "1.prems" by (simp add: chunks.simps [of n xs])
  qed
qed

lemma chunks_exact_append:
  "length c = n \<Longrightarrow> 0 < n \<Longrightarrow> chunks_exact n (c @ xs) = c # chunks_exact n xs"
  by (subst chunks_exact.simps) simp

lemma chunks_exact_short: "length xs < n \<Longrightarrow> chunks_exact n xs = []"
  by (subst chunks_exact.simps) simp

lemma chunks_exact_concat:
  assumes "0 < n" and "\<And>c. c \<in> set cs \<Longrightarrow> length c = n"
  shows "chunks_exact n (concat cs) = cs"
  using assms(2) by (induction cs) (auto simp: chunks_exact_append chunks_exact_short assms(1))

section \<open>Big-endian byte strings\<close>

text \<open>The low \<open>k\<close> bytes of \<open>n\<close>, most significant first: \<open>(n as uK).to_be_bytes()\<close>.\<close>

primrec be_bytes :: "nat \<Rightarrow> nat \<Rightarrow> bytes" where
  "be_bytes 0 n = []"
| "be_bytes (Suc k) n = of_nat (n div 256 ^ k) # be_bytes k n"

text \<open>The accumulating read \<open>v = (v << 8) | b\<close>, over a value wide enough not to lose bits.\<close>

definition of_be :: "bytes \<Rightarrow> nat" where
  "of_be bs = foldl (\<lambda>v b. v * 256 + unat b) 0 bs"

lemma length_be_bytes [simp, lens]: "length (be_bytes k n) = k"
  by (induction k) auto

lemma foldl_be:
  "foldl (\<lambda>v b. v * 256 + unat b) a (be_bytes k n) = a * 256 ^ k + n mod 256 ^ k"
proof (induction k arbitrary: a)
  case 0
  then show ?case by simp
next
  case (Suc k)
  have b: "unat (of_nat (n div 256 ^ k) :: u8) = n div 256 ^ k mod 256"
    by (simp add: unat_of_nat)
  have "n mod 256 ^ Suc k = 256 ^ k * (n div 256 ^ k mod 256) + n mod 256 ^ k"
    by (metis mod_mult2_eq power_Suc mult.commute)
  moreover have "(a * 256 + n div 256 ^ k mod 256) * 256 ^ k + n mod 256 ^ k =
      a * 256 ^ Suc k + (256 ^ k * (n div 256 ^ k mod 256) + n mod 256 ^ k)"
    by (simp add: distrib_right)
  ultimately show ?case by (simp add: Suc.IH b)
qed

lemma of_be_be_bytes: "of_be (be_bytes k n) = n mod 256 ^ k"
  by (simp add: of_be_def foldl_be)

lemma of_be_be_bytes_id [codec]: "n < 256 ^ k \<Longrightarrow> of_be (be_bytes k n) = n"
  by (simp add: of_be_be_bytes)

lemma small_fields:
  "unat (c AND 0x0f :: u8) < 2 ^ 32" "unat (c AND 0x1f :: u8) < 2 ^ 32"
  by (rule less_trans [OF unsigned_less], simp)+

lemma of_be_bound: "of_be bs < 256 ^ length bs"
proof -
  have "foldl (\<lambda>v b. v * 256 + unat b) a bs < (a + 1) * 256 ^ length bs" for a
  proof (induction bs arbitrary: a)
    case Nil
    then show ?case by simp
  next
    case (Cons b bs)
    have "unat b < 256" using unsigned_less [of b] by simp
    then have "a * 256 + unat b + 1 \<le> (a + 1) * 256" by simp
    then have "(a * 256 + unat b + 1) * 256 ^ length bs \<le> (a + 1) * 256 * 256 ^ length bs"
      by (rule mult_right_mono) simp
    moreover have "(a + 1) * 256 * 256 ^ length bs = (a + 1) * 256 ^ length (b # bs)"
      by (simp only: length_Cons power_Suc mult.assoc)
    ultimately show ?case using Cons.IH [of "a * 256 + unat b"] by simp
  qed
  from this [of 0] show ?thesis by (simp add: of_be_def)
qed

section \<open>String literals\<close>

text \<open>The bytes of an ASCII string literal.\<close>

definition ascii :: "string \<Rightarrow> bytes" where
  "ascii s = map of_char s"

lemma length_ascii [simp]: "length (ascii s) = length s"
  by (simp add: ascii_def)

section \<open>Hash maps as association lists\<close>

type_synonym ('k, 'v) hmap = "('k \<times> 'v) list"

abbreviation hm_get :: "('k, 'v) hmap \<Rightarrow> 'k \<Rightarrow> 'v option" where
  "hm_get m k \<equiv> map_of m k"

abbreviation hm_insert :: "'k \<Rightarrow> 'v \<Rightarrow> ('k, 'v) hmap \<Rightarrow> ('k, 'v) hmap" where
  "hm_insert \<equiv> AList.update"

abbreviation hm_remove :: "'k \<Rightarrow> ('k, 'v) hmap \<Rightarrow> ('k, 'v) hmap" where
  "hm_remove \<equiv> AList.delete"

abbreviation hm_keys :: "('k, 'v) hmap \<Rightarrow> 'k set" where
  "hm_keys m \<equiv> fst ` set m"

definition hm_wf :: "('k, 'v) hmap \<Rightarrow> bool" where
  "hm_wf m \<longleftrightarrow> distinct (map fst m)"

lemma hm_wf_Nil [simp]: "hm_wf []"
  by (simp add: hm_wf_def)

lemma hm_wf_insert [simp]: "hm_wf m \<Longrightarrow> hm_wf (hm_insert k v m)"
  by (simp add: hm_wf_def distinct_update)

lemma hm_wf_remove [simp]: "hm_wf m \<Longrightarrow> hm_wf (hm_remove k m)"
  by (simp add: hm_wf_def distinct_delete)

lemma hm_wf_filter [simp]: "hm_wf m \<Longrightarrow> hm_wf (filter P m)"
  by (simp add: hm_wf_def distinct_map_filter)

lemma hm_size: "hm_wf m \<Longrightarrow> length m = card (hm_keys m)"
  unfolding hm_wf_def by (metis distinct_card length_map set_map)

lemma hm_get_insert [simp]: "hm_get (hm_insert k v m) = (hm_get m)(k \<mapsto> v)"
  by (rule update_conv')

lemma hm_get_remove [simp]: "hm_get (hm_remove k m) = (hm_get m)(k := None)"
  by (rule delete_conv')

lemma hm_get_None: "hm_get m k = None \<longleftrightarrow> k \<notin> hm_keys m"
  by (rule map_of_eq_None_iff)

lemma hm_get_Some_key: "hm_get m k = Some v \<Longrightarrow> k \<in> hm_keys m"
  by (metis hm_get_None option.distinct(1))

lemma hm_get_filter:
  "hm_wf m \<Longrightarrow> hm_get (filter P m) k =
     (case hm_get m k of None \<Rightarrow> None | Some v \<Rightarrow> if P (k, v) then Some v else None)"
proof (induction m)
  case Nil
  then show ?case by simp
next
  case (Cons x m)
  obtain a b where x: "x = (a, b)" by fastforce
  with Cons.prems have nk: "a \<notin> hm_keys m" and wf: "hm_wf m" by (auto simp: hm_wf_def)
  from nk have "hm_get m a = None" by (simp add: hm_get_None)
  then show ?case using Cons.IH [OF wf] x by (auto split: option.splits)
qed

lemma hm_keys_insert [simp]: "hm_keys (hm_insert k v m) = insert k (hm_keys m)"
  by (simp only: dom_update insert_is_Un [symmetric])

lemma hm_keys_remove [simp]: "hm_keys (hm_remove k m) = hm_keys m - {k}"
  by (simp only: set_map [symmetric] delete_keys set_removeAll)

end
