(* ===== verification/Hdlc.thy ===== *)
theory Hdlc
  imports Prelude
begin

text \<open>
  The HDLC framing of \<open>libs/reticulum-core/src/hdlc.rs\<close>: \<open>frame\<close> escapes one packet between two
  flag bytes, and the incremental \<open>Deframer\<close> recovers packets from the bytes of a socket in
  whatever pieces the reads deliver them.

  The interface of an incremental scanner is the locale \<open>stream_scanner\<close>: its laws say that a push
  consumes its bytes one at a time, and its lemmas say that the pieces do not matter. The
  \<open>Deframer\<close> is its interpretation \<open>deframer\<close>.
\<close>

section \<open>The code\<close>

definition FLAG :: u8 where "FLAG = 0x7E"
definition ESC :: u8 where "ESC = 0x7D"
definition ESC_MASK :: u8 where "ESC_MASK = 0x20"

text \<open>The loop of \<open>frame\<close> over the packet's bytes.\<close>

fun escape :: "bytes \<Rightarrow> bytes" where
  "escape [] = []"
| "escape (b # bs) =
     (if b = FLAG \<or> b = ESC then ESC # (b XOR ESC_MASK) # escape bs else b # escape bs)"

definition frame :: "bytes \<Rightarrow> bytes" where
  "frame data = FLAG # escape data @ [FLAG]"

record Deframer =
  buf :: bytes
  in_frame :: bool
  escaped :: bool

definition Deframer_new :: Deframer where
  "Deframer_new = \<lparr>buf = [], in_frame = False, escaped = False\<rparr>"

text \<open>One iteration of the loop of \<open>Deframer::push\<close>: the new state and the frame it finished.\<close>

definition push_byte :: "Deframer \<Rightarrow> u8 \<Rightarrow> Deframer \<times> bytes list" where
  "push_byte d b =
     (if b = FLAG then
        (if in_frame d then
           (if buf d \<noteq> [] then (d\<lparr>buf := [], in_frame := True, escaped := False\<rparr>, [buf d])
            else (d\<lparr>buf := [], in_frame := True, escaped := False\<rparr>, []))
         else (d\<lparr>in_frame := True, escaped := False, buf := []\<rparr>, []))
      else if b = ESC \<and> in_frame d then (d\<lparr>escaped := True\<rparr>, [])
      else if in_frame d then
        (if escaped d then (d\<lparr>buf := buf d @ [b XOR ESC_MASK], escaped := False\<rparr>, [])
         else (d\<lparr>buf := buf d @ [b]\<rparr>, []))
      else (d, []))"

fun push :: "Deframer \<Rightarrow> bytes \<Rightarrow> Deframer \<times> bytes list" where
  "push d [] = (d, [])"
| "push d (b # bs) =
     (case push_byte d b of (d1, fs1) \<Rightarrow>
        case push d1 bs of (d2, fs2) \<Rightarrow> (d2, fs1 @ fs2))"

text \<open>Successive reads of the socket, each one call of \<open>push\<close>.\<close>

fun push_reads :: "Deframer \<Rightarrow> bytes list \<Rightarrow> Deframer \<times> bytes list" where
  "push_reads d [] = (d, [])"
| "push_reads d (r # rs) =
     (case push d r of (d1, fs1) \<Rightarrow>
        case push_reads d1 rs of (d2, fs2) \<Rightarrow> (d2, fs1 @ fs2))"

section \<open>Incremental scanners\<close>

locale stream_scanner =
  fixes step :: "'s \<Rightarrow> 'b \<Rightarrow> 's \<times> 'o list"
    and scan :: "'s \<Rightarrow> 'b list \<Rightarrow> 's \<times> 'o list"
    and scan_pieces :: "'s \<Rightarrow> 'b list list \<Rightarrow> 's \<times> 'o list"
  assumes scan_Nil: "scan s [] = (s, [])"
    and scan_Cons: "scan s (b # bs) =
      (fst (scan (fst (step s b)) bs), snd (step s b) @ snd (scan (fst (step s b)) bs))"
    and pieces_Nil: "scan_pieces s [] = (s, [])"
    and pieces_Cons: "scan_pieces s (p # ps) =
      (fst (scan_pieces (fst (scan s p)) ps), snd (scan s p) @ snd (scan_pieces (fst (scan s p)) ps))"
begin

lemma scan_append:
  "scan s (xs @ ys) = (fst (scan (fst (scan s xs)) ys), snd (scan s xs) @ snd (scan (fst (scan s xs)) ys))"
  by (induction xs arbitrary: s) (simp_all add: scan_Nil scan_Cons)

lemma scan_pieces_concat: "scan_pieces s ps = scan s (concat ps)"
  by (induction ps arbitrary: s) (simp_all add: pieces_Nil pieces_Cons scan_Nil scan_append)

end

interpretation deframer: stream_scanner push_byte push push_reads
  by unfold_locales (simp_all split: prod.splits)

section \<open>Escaping\<close>

lemma escape_no_flag: "FLAG \<notin> set (escape data)"
  by (induction data rule: escape.induct) (auto simp: FLAG_def ESC_def ESC_MASK_def)

lemma length_escape: "length data \<le> length (escape data) \<and> length (escape data) \<le> 2 * length data"
  by (induction data rule: escape.induct) auto

lemma unescape_flag: "(FLAG XOR ESC_MASK) XOR ESC_MASK = FLAG"
  "(ESC XOR ESC_MASK) XOR ESC_MASK = ESC"
  by (simp_all add: FLAG_def ESC_def ESC_MASK_def)

lemma escape_codes: "ESC \<noteq> FLAG" "FLAG XOR ESC_MASK \<noteq> FLAG" "FLAG XOR ESC_MASK \<noteq> ESC"
  "ESC XOR ESC_MASK \<noteq> FLAG" "ESC XOR ESC_MASK \<noteq> ESC"
  by (simp_all add: FLAG_def ESC_def ESC_MASK_def)

text \<open>Inside a frame, the escaped bytes of a packet append exactly that packet to the buffer.\<close>

lemma push_escape:
  "push \<lparr>buf = p, in_frame = True, escaped = False\<rparr> (escape data) =
     (\<lparr>buf = p @ data, in_frame = True, escaped = False\<rparr>, [])"
  by (induction data arbitrary: p rule: escape.induct)
    (auto simp: push_byte_def escape_codes unescape_flag)

lemma push_flag:
  "push d [FLAG] = (\<lparr>buf = [], in_frame = True, escaped = False\<rparr>,
     if in_frame d \<and> buf d \<noteq> [] then [buf d] else [])"
  by (cases d) (auto simp: push_byte_def)

text \<open>
  What a framed packet does to a deframer in any state at all: it finishes whatever was open, then
  yields the packet, and leaves the deframer ready for the next frame.
\<close>

lemma push_frame:
  "push d (frame data) = (\<lparr>buf = [], in_frame = True, escaped = False\<rparr>,
     (if in_frame d \<and> buf d \<noteq> [] then [buf d] else []) @ (if data = [] then [] else [data]))"
  unfolding frame_def
  by (rule trans [OF arg_cong [of _ "[FLAG] @ escape data @ [FLAG]"]], simp)
    (simp only: deframer.scan_append push_flag push_escape fst_conv snd_conv, simp)

lemma push_frames:
  "buf d = [] \<or> \<not> in_frame d \<Longrightarrow>
     snd (push d (concat (map frame ps))) = filter (\<lambda>p. p \<noteq> []) ps"
proof (induction ps arbitrary: d)
  case Nil
  then show ?case by simp
next
  case (Cons p ps)
  then show ?case by (auto simp: deframer.scan_append push_frame)
qed

section \<open>Properties\<close>

text \<open>
  C29. However the reads of the socket split the bytes of a sequence of framed packets, a new
  deframer returns exactly the non-empty packets, in order and unchanged.
\<close>

theorem deframe_reads_roundtrip:
  "concat reads = concat (map frame packets) \<Longrightarrow>
     snd (push_reads Deframer_new reads) = filter (\<lambda>p. p \<noteq> []) packets"
  by (simp add: deframer.scan_pieces_concat push_frames Deframer_new_def)

theorem deframe_reads_roundtrip_witness:
  "snd (push_reads Deframer_new [[0x7E, 0x00, 0x7D], [0x5E, 0x7E, 0x7E], [0x10, 0x7E]]) =
     [[0x00, 0x7E], [0x10]]"
  using deframe_reads_roundtrip
    [of "[[0x7E, 0x00, 0x7D], [0x5E, 0x7E, 0x7E], [0x10, 0x7E]]" "[[0x00, 0x7E], [0x10]]"]
  by (simp add: frame_def FLAG_def ESC_def ESC_MASK_def)

text \<open>
  C30. Resynchronisation: whatever state noise on the stream has left a deframer in, the next framed
  packet is returned unchanged, preceded by at most one frame of the noise.
\<close>

theorem deframer_resync:
  "p \<noteq> [] \<Longrightarrow>
     \<exists>noise. length noise \<le> 1 \<and> snd (push d (frame p)) = noise @ [p]
       \<and> fst (push d (frame p)) = \<lparr>buf = [], in_frame = True, escaped = False\<rparr>"
  by (auto simp: push_frame)

theorem deframer_resync_witness:
  "\<exists>noise. length noise \<le> 1 \<and>
     snd (push \<lparr>buf = [1, 2], in_frame = True, escaped = True\<rparr> (frame [0x7D])) = noise @ [[0x7D]]"
  using deframer_resync [of "[0x7D]" "\<lparr>buf = [1, 2], in_frame = True, escaped = True\<rparr>"]
  by blast

end
