(* ===== verification/Crypto.thy ===== *)
theory Crypto
  imports Prelude
begin

text \<open>
  The wire constants of \<open>libs/reticulum-core/src/constants.rs\<close> and the cryptographic helpers of
  \<open>crypto.rs\<close>: hashes, HKDF and the \<open>Token\<close> (AES-256-CBC with an HMAC-SHA256 tag).

  The primitives come from crates that are not part of the repository (\<open>sha2\<close>, \<open>hmac\<close>,
  \<open>hkdf\<close>, \<open>aes\<close>/\<open>cbc\<close>, \<open>ed25519-dalek\<close>). They are the fields of the record \<open>crypto\<close>, an argument
  of every definition that uses them. The record also has a field for each of the
  vendored curve routines \<open>x25519.rs\<close> and \<open>ed25519.rs\<close>, so that the protocol layers can be
  stated over any implementation of them; the theories X25519 and Ed25519 model those
  routines themselves.

  What the protocol relies on is stated by four predicates: \<open>sized\<close> (array sizes, which the Rust
  types fix), \<open>aes_inverts\<close>, \<open>signs\<close> and \<open>dh_agrees\<close>. The suite \<open>demo\<close> satisfies all of
  them and is used to evaluate witnesses. \<open>hkdf\<close> panics above 8160 bytes, the limit of HKDF-SHA256;
  the code asks for 64 and 256.
\<close>

section \<open>constants.rs\<close>

definition MTU :: nat where [simp]: "MTU = 500"
definition TRUNCATED_HASHLENGTH_BITS :: nat where [simp]: "TRUNCATED_HASHLENGTH_BITS = 128"
definition TRUNCATED_HASHLENGTH :: nat where
  [simp]: "TRUNCATED_HASHLENGTH = TRUNCATED_HASHLENGTH_BITS div 8"
definition NAME_HASH_LENGTH :: nat where [simp]: "NAME_HASH_LENGTH = 10"
definition KEYSIZE :: nat where [simp]: "KEYSIZE = 64"
definition KEY_HALF :: nat where [simp]: "KEY_HALF = 32"
definition SIG_LENGTH :: nat where [simp]: "SIG_LENGTH = 64"
definition RATCHET_SIZE :: nat where [simp]: "RATCHET_SIZE = 32"
definition DERIVED_KEY_LENGTH :: nat where [simp]: "DERIVED_KEY_LENGTH = 64"
definition TOKEN_OVERHEAD :: nat where [simp]: "TOKEN_OVERHEAD = 48"
definition IV_LENGTH :: nat where [simp]: "IV_LENGTH = 16"
definition HMAC_LENGTH :: nat where [simp]: "HMAC_LENGTH = 32"

definition HEADER_1 :: u8 where [simp]: "HEADER_1 = 0"
definition HEADER_2 :: u8 where [simp]: "HEADER_2 = 1"
definition FLAG_UNSET :: u8 where [simp]: "FLAG_UNSET = 0"
definition FLAG_SET :: u8 where [simp]: "FLAG_SET = 1"
definition TRANSPORT_BROADCAST :: u8 where [simp]: "TRANSPORT_BROADCAST = 0"
definition TRANSPORT_TRANSPORT :: u8 where [simp]: "TRANSPORT_TRANSPORT = 1"
definition DEST_SINGLE :: u8 where [simp]: "DEST_SINGLE = 0"
definition DEST_GROUP :: u8 where [simp]: "DEST_GROUP = 1"
definition DEST_PLAIN :: u8 where [simp]: "DEST_PLAIN = 2"
definition DEST_LINK :: u8 where [simp]: "DEST_LINK = 3"
definition PACKET_DATA :: u8 where [simp]: "PACKET_DATA = 0"
definition PACKET_ANNOUNCE :: u8 where [simp]: "PACKET_ANNOUNCE = 1"
definition PACKET_LINKREQUEST :: u8 where [simp]: "PACKET_LINKREQUEST = 2"
definition PACKET_PROOF :: u8 where [simp]: "PACKET_PROOF = 3"

definition CONTEXT_NONE :: u8 where [simp]: "CONTEXT_NONE = 0x00"
definition CONTEXT_RESOURCE :: u8 where [simp]: "CONTEXT_RESOURCE = 0x01"
definition CONTEXT_RESOURCE_ADV :: u8 where [simp]: "CONTEXT_RESOURCE_ADV = 0x02"
definition CONTEXT_RESOURCE_REQ :: u8 where [simp]: "CONTEXT_RESOURCE_REQ = 0x03"
definition CONTEXT_RESOURCE_HMU :: u8 where [simp]: "CONTEXT_RESOURCE_HMU = 0x04"
definition CONTEXT_RESOURCE_PRF :: u8 where [simp]: "CONTEXT_RESOURCE_PRF = 0x05"
definition CONTEXT_REQUEST :: u8 where [simp]: "CONTEXT_REQUEST = 0x09"
definition CONTEXT_RESPONSE :: u8 where [simp]: "CONTEXT_RESPONSE = 0x0A"
definition CONTEXT_PATH_RESPONSE :: u8 where [simp]: "CONTEXT_PATH_RESPONSE = 0x0B"
definition CONTEXT_KEEPALIVE :: u8 where [simp]: "CONTEXT_KEEPALIVE = 0xFA"
definition CONTEXT_LINKIDENTIFY :: u8 where [simp]: "CONTEXT_LINKIDENTIFY = 0xFB"
definition CONTEXT_LINKCLOSE :: u8 where [simp]: "CONTEXT_LINKCLOSE = 0xFC"
definition CONTEXT_LRRTT :: u8 where [simp]: "CONTEXT_LRRTT = 0xFE"
definition CONTEXT_LRPROOF :: u8 where [simp]: "CONTEXT_LRPROOF = 0xFF"

section \<open>The primitives\<close>

record crypto =
  sha256 :: "bytes \<Rightarrow> bytes"
  sha2_512 :: "bytes \<Rightarrow> bytes"
  hmac :: "bytes \<Rightarrow> bytes \<Rightarrow> bytes" \<comment> \<open>key, data\<close>
  hkdf_sha256 :: "nat \<Rightarrow> bytes \<Rightarrow> bytes \<Rightarrow> bytes \<Rightarrow> bytes" \<comment> \<open>length, input key, salt, info\<close>
  aes256_cbc_enc :: "bytes \<Rightarrow> bytes \<Rightarrow> bytes \<Rightarrow> bytes" \<comment> \<open>key, IV, plaintext (PKCS7 padded)\<close>
  aes256_cbc_dec :: "bytes \<Rightarrow> bytes \<Rightarrow> bytes \<Rightarrow> bytes option"
  dalek_pub :: "bytes \<Rightarrow> bytes" \<comment> \<open>Ed25519 public key of a seed\<close>
  ed_sign :: "bytes \<Rightarrow> bytes \<Rightarrow> bytes \<Rightarrow> bytes" \<comment> \<open>seed, public key, message\<close>
  ed_verify :: "bytes \<Rightarrow> bytes \<Rightarrow> bytes \<Rightarrow> bool" \<comment> \<open>public key, message, signature\<close>
  x25519 :: "bytes \<Rightarrow> bytes \<Rightarrow> bytes" \<comment> \<open>scalar, point\<close>

definition basepoint :: bytes where
  "basepoint = 9 # replicate 31 0"

definition x25519_base :: "crypto \<Rightarrow> bytes \<Rightarrow> bytes" where
  "x25519_base C scalar = x25519 C scalar basepoint"

definition sized :: "crypto \<Rightarrow> bool" where
  "sized C \<longleftrightarrow>
     (\<forall>d. length (sha256 C d) = 32) \<and> (\<forall>k d. length (hmac C k d) = 32) \<and>
     (\<forall>n k s i. n \<le> 8160 \<longrightarrow> length (hkdf_sha256 C n k s i) = n) \<and> (\<forall>s. length (dalek_pub C s) = 32) \<and>
     (\<forall>s p m. length (ed_sign C s p m) = 64) \<and> (\<forall>s p. length (x25519 C s p) = 32)"

definition aes_inverts :: "crypto \<Rightarrow> bool" where
  "aes_inverts C \<longleftrightarrow>
     (\<forall>k iv p. length k = 32 \<longrightarrow> length iv = 16 \<longrightarrow>
        aes256_cbc_dec C k iv (aes256_cbc_enc C k iv p) = Some p)"

definition signs :: "crypto \<Rightarrow> bool" where
  "signs C \<longleftrightarrow>
     (\<forall>s m. length s = 32 \<longrightarrow> ed_verify C (dalek_pub C s) m (ed_sign C s (dalek_pub C s) m))"

definition dh_agrees :: "crypto \<Rightarrow> bool" where
  "dh_agrees C \<longleftrightarrow>
     (\<forall>a b. length a = 32 \<longrightarrow> length b = 32 \<longrightarrow>
        x25519 C a (x25519_base C b) = x25519 C b (x25519_base C a))"

section \<open>crypto.rs\<close>

definition full_hash :: "crypto \<Rightarrow> bytes \<Rightarrow> bytes" where
  "full_hash C data = sha256 C data"

definition truncated_hash :: "crypto \<Rightarrow> bytes \<Rightarrow> bytes" where
  "truncated_hash C data = take TRUNCATED_HASHLENGTH (full_hash C data)"

definition crypto_sha512 :: "crypto \<Rightarrow> bytes \<Rightarrow> bytes" where
  "crypto_sha512 C data = sha2_512 C data"

definition hkdf :: "crypto \<Rightarrow> nat \<Rightarrow> bytes \<Rightarrow> bytes option \<Rightarrow> bytes option \<Rightarrow> bytes" where
  "hkdf C len derive_from salt context =
     (let salt = (case salt of Some s \<Rightarrow> s | None \<Rightarrow> []) in
      hkdf_sha256 C len derive_from salt (case context of Some c \<Rightarrow> c | None \<Rightarrow> []))"

record Token =
  signing_key :: bytes
  encryption_key :: bytes

definition Token_new :: "bytes \<Rightarrow> Token result" where
  "Token_new key =
     (if length key \<noteq> 64 then Inl ''Token requires a 64-byte key (AES-256 mode)''
      else Inr \<lparr>signing_key = take 32 key, encryption_key = drop 32 key\<rparr>)"

definition encrypt_with_iv :: "crypto \<Rightarrow> Token \<Rightarrow> bytes \<Rightarrow> bytes \<Rightarrow> bytes" where
  "encrypt_with_iv C t plaintext iv =
     (let ct = aes256_cbc_enc C (encryption_key t) iv plaintext;
          signed = iv @ ct;
          tag = hmac C (signing_key t) signed
      in signed @ tag)"

definition token_decrypt :: "crypto \<Rightarrow> Token \<Rightarrow> bytes \<Rightarrow> bytes result" where
  "token_decrypt C t token =
     (if length token < IV_LENGTH + HMAC_LENGTH then Inl ''token too short''
      else
        let signed = take (length token - HMAC_LENGTH) token;
            recv_mac = drop (length token - HMAC_LENGTH) token;
            expected = hmac C (signing_key t) signed
        in if expected \<noteq> recv_mac then Inl ''token HMAC verification failed''
           else (case aes256_cbc_dec C (encryption_key t) (take IV_LENGTH signed)
                        (drop IV_LENGTH signed) of
                   Some p \<Rightarrow> Inr p
                 | None \<Rightarrow> Inl ''token padding error''))"

definition hmac_sha256 :: "crypto \<Rightarrow> bytes \<Rightarrow> bytes \<Rightarrow> bytes" where
  "hmac_sha256 C key data = hmac C key data"

text \<open>\<open>hex\<close> of \<open>lib.rs\<close>: two lower-case digits per byte.\<close>

definition hex_digit :: "nat \<Rightarrow> char" where
  "hex_digit n = (if n < 10 then char_of (48 + n) else char_of (87 + n))"

definition hex :: "bytes \<Rightarrow> string" where
  "hex bs = concat (map (\<lambda>b. [hex_digit (unat b div 16), hex_digit (unat b mod 16)]) bs)"

section \<open>A suite for evaluation\<close>

definition pad_to :: "nat \<Rightarrow> bytes \<Rightarrow> bytes" where
  "pad_to n bs = take n (bs @ replicate n 0)"

definition demo :: crypto where
  "demo = \<lparr>sha256 = pad_to 32, sha2_512 = pad_to 64, hmac = (\<lambda>k d. pad_to 32 (rev (k @ d))),
     hkdf_sha256 = (\<lambda>n k s i. pad_to n (k @ s @ i)),
     aes256_cbc_enc = (\<lambda>k iv p. map (\<lambda>b. b + 1) p),
     aes256_cbc_dec = (\<lambda>k iv c. Some (map (\<lambda>b. b - 1) c)),
     dalek_pub = pad_to 32,
     ed_sign = (\<lambda>s p m. pad_to 64 (p @ rev m)),
     ed_verify = (\<lambda>p m sg. sg = pad_to 64 (p @ rev m)),
     x25519 = (\<lambda>s p. map2 (+) (pad_to 32 s) (pad_to 32 p))\<rparr>"

section \<open>Facts\<close>

lemma length_pad_to [simp, lens]: "length (pad_to n bs) = n"
  by (simp add: pad_to_def)

lemma pad_to_id [simp]: "length bs = n \<Longrightarrow> pad_to n bs = bs"
  by (simp add: pad_to_def)

lemma demo_sized: "sized demo"
  by (simp add: sized_def demo_def)

lemma demo_aes: "aes_inverts demo"
  by (simp add: aes_inverts_def demo_def o_def)

lemma demo_signs: "signs demo"
  by (simp add: signs_def demo_def)

lemma map2_add_left_commute:
  "length xs = length zs \<Longrightarrow> length ys = length zs \<Longrightarrow>
     map2 (+) (xs :: bytes) (map2 (+) ys zs) = map2 (+) ys (map2 (+) xs zs)"
  by (rule nth_equalityI) (auto simp: algebra_simps)

lemma demo_dh: "dh_agrees demo"
  by (simp add: dh_agrees_def demo_def x25519_base_def basepoint_def map2_add_left_commute)

lemmas demo_ok = demo_sized demo_aes demo_signs demo_dh

lemma length_full_hash [lens]: "sized C \<Longrightarrow> length (full_hash C d) = 32"
  by (simp add: sized_def full_hash_def)

lemma length_truncated_hash [lens]: "sized C \<Longrightarrow> length (truncated_hash C d) = 16"
  by (simp add: truncated_hash_def lens)

lemma length_hkdf [lens]: "sized C \<Longrightarrow> n \<le> 8160 \<Longrightarrow> length (hkdf C n k s c) = n"
  by (simp add: sized_def hkdf_def Let_def)

lemma length_hmac [lens]: "sized C \<Longrightarrow> length (hmac C k d) = 32"
  by (simp add: sized_def)

lemma length_ed_sign [lens]: "sized C \<Longrightarrow> length (ed_sign C s p m) = 64"
  by (simp add: sized_def)

lemma length_dalek_pub [lens]: "sized C \<Longrightarrow> length (dalek_pub C s) = 32"
  by (simp add: sized_def)

lemma length_x25519 [lens]: "sized C \<Longrightarrow> length (x25519 C s p) = 32"
  by (simp add: sized_def)

lemma length_x25519_base [lens]: "sized C \<Longrightarrow> length (x25519_base C s) = 32"
  by (simp add: x25519_base_def lens)

lemma signs_verify:
  "signs C \<Longrightarrow> length s = 32 \<Longrightarrow> ed_verify C (dalek_pub C s) m (ed_sign C s (dalek_pub C s) m)"
  by (simp add: signs_def)

text \<open>Every key the code derives has the length the token asks for, so \<open>expect\<close> never panics.\<close>

lemma Token_new_hkdf:
  "sized C \<Longrightarrow> Token_new (hkdf C DERIVED_KEY_LENGTH k s c) =
     Inr \<lparr>signing_key = take 32 (hkdf C DERIVED_KEY_LENGTH k s c),
          encryption_key = drop 32 (hkdf C DERIVED_KEY_LENGTH k s c)\<rparr>"
  by (simp add: Token_new_def lens)

lemma Token_new_64: "length k = 64 \<Longrightarrow> \<exists>t. Token_new k = Inr t"
  by (simp add: Token_new_def)

lemma token_roundtrip:
  assumes "sized C" and "aes_inverts C" and "length iv = 16" and "length (encryption_key t) = 32"
  shows "token_decrypt C t (encrypt_with_iv C t p iv) = Inr p"
  using assms by (simp add: token_decrypt_def encrypt_with_iv_def Let_def lens aes_inverts_def)

lemma length_encrypt_with_iv:
  "sized C \<Longrightarrow> length iv = 16 \<Longrightarrow>
     length (encrypt_with_iv C t p iv) = 48 + length (aes256_cbc_enc C (encryption_key t) iv p)"
  by (simp add: encrypt_with_iv_def Let_def lens)

text \<open>A token is accepted only with the tag of its own contents under the signing key.\<close>

lemma token_decrypt_Inr:
  assumes "token_decrypt C t token = Inr p"
  shows "48 \<le> length token \<and>
    drop (length token - 32) token = hmac C (signing_key t) (take (length token - 32) token)"
  using assms by (auto simp: token_decrypt_def Let_def split: if_splits)

end
