(* ===== verification/Packet.thy ===== *)
theory Packet
  imports Crypto
begin

text \<open>
  The packet header codec of \<open>libs/reticulum-core/src/packet.rs\<close>: packing and unpacking of the
  flag byte, the two header layouts, and the hashable part, from which packet hashes and link ids
  are made.

  \<open>encode\<close> panics on a packet with the two-address header and no transport id; \<open>packet_encode\<close>
  returns \<open>None\<close> there. The bytes it returns otherwise are \<open>wire\<close>, which the
  callers use for packets that cannot panic: those built by \<open>header1\<close> and those
  \<open>decode\<close> returned.
\<close>

section \<open>The code\<close>

datatype HeaderType = One | Two

record Packet =
  header_type :: HeaderType
  context_flag :: bool
  transport_type :: u8
  destination_type :: u8
  packet_type :: u8
  hops :: u8
  pkt_context :: u8
  transport_id :: "bytes option"
  destination_hash :: bytes
  pkt_data :: bytes

definition header1 :: "u8 \<Rightarrow> u8 \<Rightarrow> u8 \<Rightarrow> bytes \<Rightarrow> bytes \<Rightarrow> Packet" where
  "header1 dt pt ctx dest d =
     \<lparr>header_type = One, context_flag = False, transport_type = TRANSPORT_BROADCAST,
      destination_type = dt, packet_type = pt, hops = 0, pkt_context = ctx,
      transport_id = None, destination_hash = dest, pkt_data = d\<rparr>"

definition packed_flags :: "Packet \<Rightarrow> u8" where
  "packed_flags p =
     (let ht = (case header_type p of One \<Rightarrow> HEADER_1 | Two \<Rightarrow> HEADER_2);
          cf = (if context_flag p then FLAG_SET else FLAG_UNSET)
      in push_bit 6 ht OR push_bit 5 cf OR push_bit 4 (transport_type p)
         OR push_bit 2 (destination_type p) OR packet_type p)"

definition wire :: "Packet \<Rightarrow> bytes" where
  "wire p =
     [packed_flags p, hops p]
     @ (if header_type p = Two then (case transport_id p of Some t \<Rightarrow> t | None \<Rightarrow> []) else [])
     @ destination_hash p @ [pkt_context p] @ pkt_data p"

definition packet_encode :: "Packet \<Rightarrow> bytes option" where
  "packet_encode p = (if header_type p = Two \<and> transport_id p = None then None else Some (wire p))"

definition packet_decode :: "bytes \<Rightarrow> Packet result" where
  "packet_decode raw =
     (if length raw < 2 + TRUNCATED_HASHLENGTH + 1 then Inl ''packet too short''
      else
        let flags = raw ! 0;
            hops = raw ! 1;
            header_type = (if drop_bit 6 (flags AND 0b01000000) = HEADER_2 then Two else One);
            context_flag = (drop_bit 5 (flags AND 0b00100000) = FLAG_SET);
            transport_type = drop_bit 4 (flags AND 0b00010000);
            destination_type = drop_bit 2 (flags AND 0b00001100);
            packet_type = flags AND 0b00000011;
            dl = TRUNCATED_HASHLENGTH
        in if header_type = Two \<and> length raw < 2 + 2 * dl + 1
           then Inl ''HEADER_2 packet too short''
           else
             let (tid, dest, ctx_off) =
                   (if header_type = Two
                    then (Some (slice 2 (2 + dl) raw), slice (2 + dl) (2 + 2 * dl) raw, 2 + 2 * dl)
                    else (None, slice 2 (2 + dl) raw, 2 + dl))
             in Inr \<lparr>header_type = header_type, context_flag = context_flag,
                     transport_type = transport_type, destination_type = destination_type,
                     packet_type = packet_type, hops = hops, pkt_context = raw ! ctx_off,
                     transport_id = tid, destination_hash = dest,
                     pkt_data = drop (ctx_off + 1) raw\<rparr>)"

definition hashable_part :: "Packet \<Rightarrow> bytes" where
  "hashable_part p =
     (let raw = wire p;
          skip = (case header_type p of One \<Rightarrow> 2 | Two \<Rightarrow> TRUNCATED_HASHLENGTH + 2)
      in (raw ! 0 AND 0x0F) # drop skip raw)"

definition packet_hash :: "crypto \<Rightarrow> Packet \<Rightarrow> bytes" where
  "packet_hash C p = full_hash C (hashable_part p)"

definition packet_truncated_hash :: "crypto \<Rightarrow> Packet \<Rightarrow> bytes" where
  "packet_truncated_hash C p = take TRUNCATED_HASHLENGTH (packet_hash C p)"

definition HEADER_MAXSIZE :: nat where
  "HEADER_MAXSIZE = 2 + 1 + TRUNCATED_HASHLENGTH * 2"

text \<open>
  The packets the Rust types and the header's bit fields describe: fields within their bits,
  16-byte addresses, and a transport id exactly on the two-address header.
\<close>

definition packet_ok :: "Packet \<Rightarrow> bool" where
  "packet_ok p \<longleftrightarrow> transport_type p < 2 \<and> destination_type p < 4 \<and> packet_type p < 4 \<and>
     length (destination_hash p) = 16 \<and>
     (case header_type p of One \<Rightarrow> transport_id p = None
      | Two \<Rightarrow> \<exists>t. transport_id p = Some t \<and> length t = 16)"

section \<open>The flag byte\<close>

lemma word8_less_2: "(x :: u8) < 2 \<longleftrightarrow> x = 0 \<or> x = 1"
  by (auto simp: word_less_nat_alt less_2_cases_iff unat_eq_0 intro: word_unat_eq_iff [THEN iffD2])

lemma word8_less_4: "(x :: u8) < 4 \<longleftrightarrow> x = 0 \<or> x = 1 \<or> x = 2 \<or> x = 3"
proof -
  have "unat x < 4 \<longleftrightarrow> unat x = 0 \<or> unat x = 1 \<or> unat x = 2 \<or> unat x = 3" by arith
  then show ?thesis by (simp add: word_less_nat_alt word_unat_eq_iff)
qed

text \<open>Unpacking undoes packing, field by field.\<close>

lemma flags_unpack:
  assumes "packet_ok p"
  shows "drop_bit 6 (packed_flags p AND 0b01000000) = (case header_type p of One \<Rightarrow> 0 | Two \<Rightarrow> 1)"
    and "drop_bit 5 (packed_flags p AND 0b00100000) = (if context_flag p then 1 else 0)"
    and "drop_bit 4 (packed_flags p AND 0b00010000) = transport_type p"
    and "drop_bit 2 (packed_flags p AND 0b00001100) = destination_type p"
    and "packed_flags p AND 0b00000011 = packet_type p"
  using assms
  by (auto simp: packet_ok_def packed_flags_def word8_less_2 word8_less_4 split: HeaderType.splits)

text \<open>Packing undoes unpacking, up to the unused top bit.\<close>

lemma push_drop_masked:
  "take_bit n m = 0 \<Longrightarrow> push_bit n (drop_bit n (w AND m)) = w AND (m :: u8)"
  using bits_ident [of n "w AND m"] by (simp add: take_bit_and)

lemma take_bit_zero_masks:
  "take_bit 6 (0b01000000 :: u8) = 0" "take_bit 5 (0b00100000 :: u8) = 0"
  "take_bit 4 (0b00010000 :: u8) = 0" "take_bit 2 (0b00001100 :: u8) = 0"
  by simp_all

lemma flags_pack:
  fixes w :: u8
  shows "push_bit 6 (drop_bit 6 (w AND 0b01000000)) OR push_bit 5 (drop_bit 5 (w AND 0b00100000))
    OR push_bit 4 (drop_bit 4 (w AND 0b00010000)) OR push_bit 2 (drop_bit 2 (w AND 0b00001100))
    OR (w AND 0b00000011) = w AND 0x7F"
proof -
  have "w AND 0x7F = w AND (0b01000000 OR 0b00100000 OR 0b00010000 OR 0b00001100 OR 0b00000011)"
    by simp
  also have "\<dots> = (w AND 0b01000000) OR (w AND 0b00100000) OR (w AND 0b00010000)
      OR (w AND 0b00001100) OR (w AND 0b00000011)"
    by (simp only: word_ao_dist2)
  finally show ?thesis by (simp only: push_drop_masked [OF take_bit_zero_masks(1)]
    push_drop_masked [OF take_bit_zero_masks(2)] push_drop_masked [OF take_bit_zero_masks(3)]
    push_drop_masked [OF take_bit_zero_masks(4)])
qed

lemma one_bit_field: "drop_bit n (w AND 2 ^ n) = 0 \<or> drop_bit n (w AND 2 ^ n) = (1 :: u8)"
proof (cases "n < 8")
  case True
  have "drop_bit n (w AND 2 ^ n) = (if bit w n then 1 else 0)"
    using True by (intro bit_word_eqI) (auto simp: bit_simps bit_1_iff intro: gr0I)
  then show ?thesis by simp
next
  case False
  then show ?thesis by simp
qed

lemma field_bounds:
  fixes w :: u8
  shows "drop_bit 4 (w AND 0b00010000) < 2" "drop_bit 2 (w AND 0b00001100) < 4"
    "w AND 0b00000011 < 4"
proof -
  show "drop_bit 4 (w AND 0b00010000) < 2"
    using one_bit_field [of 4 w] by (auto simp: word8_less_2)
  have "drop_bit 2 (w AND 0b00001100) = drop_bit 2 w AND 3"
    by (simp add: drop_bit_and)
  moreover have "x AND 3 < 4" for x :: u8
    using word_and_le1 [of x 3] by (rule le_less_trans) simp
  ultimately show "drop_bit 2 (w AND 0b00001100) < 4" "w AND 0b00000011 < 4" by simp_all
qed


section \<open>Round trips\<close>

lemma packet_ok_header1 [simp]:
  "dt < 4 \<Longrightarrow> pt < 4 \<Longrightarrow> length dest = 16 \<Longrightarrow> packet_ok (header1 dt pt ctx dest d)"
  by (simp add: packet_ok_def header1_def)

lemma header1_sel [simp]:
  "header_type (header1 dt pt ctx dest d) = One" "packet_type (header1 dt pt ctx dest d) = pt"
  "pkt_context (header1 dt pt ctx dest d) = ctx" "destination_hash (header1 dt pt ctx dest d) = dest"
  "pkt_data (header1 dt pt ctx dest d) = d" "context_flag (header1 dt pt ctx dest d) = False"
  "transport_id (header1 dt pt ctx dest d) = None" "hops (header1 dt pt ctx dest d) = 0"
  "destination_type (header1 dt pt ctx dest d) = dt" "transport_type (header1 dt pt ctx dest d) = 0"
  by (simp_all add: header1_def)

lemma packet_encode_wire: "packet_ok p \<Longrightarrow> packet_encode p = Some (wire p)"
  by (auto simp: packet_encode_def packet_ok_def split: HeaderType.splits)

lemma packet_decode_wire:
  assumes ok: "packet_ok p"
  shows "packet_decode (wire p) = Inr p"
proof (cases "header_type p")
  case One
  with ok flags_unpack [OF ok] show ?thesis
    by (cases p) (auto simp: packet_decode_def wire_def slice_def packet_ok_def nth_append)
next
  case Two
  with ok flags_unpack [OF ok] show ?thesis
    by (cases p) (auto simp: packet_decode_def wire_def slice_def packet_ok_def nth_append)
qed

lemma packet_decode_ok:
  assumes "packet_decode raw = Inr p"
  shows "packet_ok p"
  using assms field_bounds [of "raw ! 0"]
  by (auto simp: packet_decode_def packet_ok_def Let_def split: if_splits)


lemma packed_flags_decoded:
  assumes "packet_decode raw = Inr p"
  shows "packed_flags p = raw ! 0 AND 0x7F"
  using assms flags_pack [of "raw ! 0"] one_bit_field [of 6 "raw ! 0"] one_bit_field [of 5 "raw ! 0"]
  by (auto simp: packet_decode_def Let_def packed_flags_def simp del: drop_bit_and split: if_splits)

lemma packet_decode_cases:
  assumes "packet_decode raw = Inr p"
  obtains (one) "header_type p = One" "19 \<le> length raw" "hops p = raw ! 1"
      "transport_id p = None" "destination_hash p = slice 2 18 raw" "pkt_context p = raw ! 18"
      "pkt_data p = drop 19 raw"
  | (two) "header_type p = Two" "35 \<le> length raw" "hops p = raw ! 1"
      "transport_id p = Some (slice 2 18 raw)" "destination_hash p = slice 18 34 raw"
      "pkt_context p = raw ! 34" "pkt_data p = drop 35 raw"
  using assms by (auto simp: packet_decode_def Let_def simp del: drop_bit_and split: if_splits)

lemma slice_Cons_drop:
  "a \<le> b \<Longrightarrow> b < length xs \<Longrightarrow> slice a b xs @ xs ! b # drop (Suc b) xs = drop a xs"
  unfolding slice_def
  by (metis Cons_nth_drop_Suc append_take_drop_id drop_drop le_add_diff_inverse2)

lemma slice_append_drop:
  "a \<le> b \<Longrightarrow> slice a b xs @ drop b xs = drop a xs"
  unfolding slice_def by (metis append_take_drop_id drop_drop le_add_diff_inverse2)

lemma wire_decoded:
  assumes "packet_decode raw = Inr p"
  shows "wire p = (raw ! 0 AND 0x7F) # tl raw"
proof -
  note fl = packed_flags_decoded [OF assms]
  have tl: "raw ! 1 # drop 2 raw = tl raw" if "19 \<le> length raw"
    using that by (cases raw; cases "tl raw") auto
  from assms show ?thesis
  proof (cases rule: packet_decode_cases)
    case one
    have "slice 2 18 raw @ raw ! 18 # drop 19 raw = drop 2 raw"
      using slice_Cons_drop [of 2 18 raw] one by simp
    with one fl tl show ?thesis by (simp add: wire_def)
  next
    case two
    have "slice 18 34 raw @ raw ! 34 # drop 35 raw = drop 18 raw"
      using slice_Cons_drop [of 18 34 raw] two by simp
    moreover have "slice 2 18 raw @ drop 18 raw = drop 2 raw"
      by (rule slice_append_drop) simp
    ultimately show ?thesis using two fl tl by (simp add: wire_def)
  qed
qed

lemma hashable_part_eq:
  "packet_ok p \<Longrightarrow> hashable_part p =
     (packed_flags p AND 0x0F) # destination_hash p @ [pkt_context p] @ pkt_data p"
  by (auto simp: hashable_part_def wire_def packet_ok_def split: HeaderType.splits)

lemma length_packet_hash [lens]: "sized C \<Longrightarrow> length (packet_hash C p) = 32"
  by (simp add: packet_hash_def lens)

section \<open>Properties\<close>

text \<open>
  Encoding and then decoding a well-formed packet gives it back, and decoding and then encoding
  gives back the bytes with only the unused top bit of the flag byte cleared. The packets that
  decoding returns are well formed, so encoding them does not panic.
\<close>

theorem packet_codec_roundtrip:
  "(packet_ok p \<longrightarrow> (\<exists>raw. packet_encode p = Some raw \<and> packet_decode raw = Inr p)) \<and>
   (packet_decode raw = Inr q \<longrightarrow>
      packet_ok q \<and> packet_encode q = Some ((raw ! 0 AND 0x7F) # tl raw))"
  by (auto simp: packet_encode_wire packet_decode_wire packet_decode_ok wire_decoded)

theorem packet_codec_roundtrip_witness:
  "packet_decode (0x91 # 7 # replicate 16 0x11 @ [0xFF, 1, 2]) =
     Inr (header1 0 1 0xFF (replicate 16 0x11) [1, 2]\<lparr>hops := 7, transport_type := 1\<rparr>) \<and>
   packet_encode (header1 0 1 0xFF (replicate 16 0x11) [1, 2]\<lparr>hops := 7, transport_type := 1\<rparr>) =
     Some (0x11 # 7 # replicate 16 0x11 @ [0xFF, 1, 2])"
proof -
  have d: "packet_decode (0x91 # 7 # replicate 16 0x11 @ [0xFF, 1, 2]) =
     Inr (header1 0 1 0xFF (replicate 16 0x11) [1, 2]\<lparr>hops := 7, transport_type := 1\<rparr>)"
    by code_simp
  then show ?thesis
    using packet_codec_roundtrip
        [of "header1 0 1 0xFF (replicate 16 0x11) [1, 2]\<lparr>hops := 7, transport_type := 1\<rparr>"
          "0x91 # 7 # replicate 16 0x11 @ [0xFF, 1, 2]"] by auto
qed

text \<open>
  The decoder is total and rejects exactly the packets too short for the header their flag byte
  announces.
\<close>

theorem packet_decode_errors:
  "(\<exists>e. packet_decode raw = Inl e) \<longleftrightarrow>
     length raw < 19 \<or> (drop_bit 6 (raw ! 0 AND 0x40) = 1 \<and> length raw < 35)"
  by (auto simp: packet_decode_def Let_def simp del: drop_bit_and)

end
