(* ===== verification/Identity.thy ===== *)
theory Identity
  imports Packet
begin

text \<open>
  Destination naming (\<open>libs/reticulum-core/src/destination.rs\<close>), identities (\<open>identity.rs\<close>) and
  announces (\<open>announce.rs\<close>). A signing key of \<open>ed25519-dalek\<close> is represented by its seed, which
  is what its \<open>to_bytes\<close> returns; strings are their UTF-8 bytes.
\<close>

section \<open>destination.rs\<close>

definition expand_name :: "bytes \<Rightarrow> bytes list \<Rightarrow> bytes" where
  "expand_name app_name aspects = foldl (\<lambda>s a. s @ [0x2E] @ a) app_name aspects"

definition name_hash :: "crypto \<Rightarrow> bytes \<Rightarrow> bytes list \<Rightarrow> bytes" where
  "name_hash C app_name aspects =
     take NAME_HASH_LENGTH (full_hash C (expand_name app_name aspects))"

definition single_destination_hash :: "crypto \<Rightarrow> bytes \<Rightarrow> bytes list \<Rightarrow> bytes \<Rightarrow> bytes" where
  "single_destination_hash C app_name aspects identity_hash =
     (let nh = name_hash C app_name aspects
      in take TRUNCATED_HASHLENGTH (full_hash C (nh @ identity_hash)))"

definition plain_destination_hash :: "crypto \<Rightarrow> bytes \<Rightarrow> bytes list \<Rightarrow> bytes" where
  "plain_destination_hash C app_name aspects =
     (let nh = name_hash C app_name aspects in take TRUNCATED_HASHLENGTH (full_hash C nh))"

section \<open>identity.rs\<close>

record PublicIdentity =
  enc_pub :: bytes
  sig_pub :: bytes
  id_hash :: bytes

record PrivateIdentity =
  x25519_seed :: bytes
  ed25519 :: bytes
  public :: PublicIdentity

definition public_key :: "PublicIdentity \<Rightarrow> bytes" where
  "public_key i = enc_pub i @ sig_pub i"

definition from_public_key :: "crypto \<Rightarrow> bytes \<Rightarrow> PublicIdentity result" where
  "from_public_key C bs =
     (if length bs \<noteq> KEYSIZE then Inl ''public key must be 64 bytes''
      else Inr \<lparr>enc_pub = take KEY_HALF bs, sig_pub = drop KEY_HALF bs,
                id_hash = truncated_hash C bs\<rparr>)"

definition validate :: "crypto \<Rightarrow> PublicIdentity \<Rightarrow> bytes \<Rightarrow> bytes \<Rightarrow> bool" where
  "validate C i signature message =
     (if length signature \<noteq> SIG_LENGTH then False
      else ed_verify C (sig_pub i) message signature)"

text \<open>The \<open>expect\<close> on the token cannot fail: see \<open>Token_new_hkdf\<close>.\<close>

definition identity_encrypt ::
  "crypto \<Rightarrow> PublicIdentity \<Rightarrow> bytes \<Rightarrow> bytes \<Rightarrow> bytes \<Rightarrow> bytes option \<Rightarrow> bytes" where
  "identity_encrypt C i plaintext ephemeral_secret iv ratchet_pub =
     (let eph_pub = x25519_base C ephemeral_secret;
          target_pub = (case ratchet_pub of Some r \<Rightarrow> r | None \<Rightarrow> enc_pub i);
          shared = x25519 C ephemeral_secret target_pub;
          derived = hkdf C DERIVED_KEY_LENGTH shared (Some (id_hash i)) None
      in case Token_new derived of
           Inr token \<Rightarrow> eph_pub @ encrypt_with_iv C token plaintext iv
         | Inl _ \<Rightarrow> [])"

definition from_bytes :: "crypto \<Rightarrow> bytes \<Rightarrow> bytes \<Rightarrow> PrivateIdentity" where
  "from_bytes C xs es =
     (let enc_pub = x25519_base C xs; sig_pub = dalek_pub C es
      in \<lparr>x25519_seed = xs, ed25519 = es,
          public = \<lparr>enc_pub = enc_pub, sig_pub = sig_pub,
                    id_hash = truncated_hash C (enc_pub @ sig_pub)\<rparr>\<rparr>)"

definition generate :: "crypto \<Rightarrow> bytes \<Rightarrow> PrivateIdentity" where
  "generate C random64 = from_bytes C (take KEY_HALF random64) (drop KEY_HALF random64)"

definition identity_hash :: "PrivateIdentity \<Rightarrow> bytes" where
  "identity_hash i = id_hash (public i)"

definition private_bytes :: "PrivateIdentity \<Rightarrow> bytes" where
  "private_bytes i = x25519_seed i @ ed25519 i"

definition sign :: "crypto \<Rightarrow> PrivateIdentity \<Rightarrow> bytes \<Rightarrow> bytes" where
  "sign C i message = ed_sign C (ed25519 i) (sig_pub (public i)) message"

definition try_key :: "crypto \<Rightarrow> PrivateIdentity \<Rightarrow> bytes \<Rightarrow> bytes \<Rightarrow> bytes \<Rightarrow> bytes result" where
  "try_key C i secret peer_pub ciphertext =
     (let shared = x25519 C secret peer_pub;
          derived = hkdf C DERIVED_KEY_LENGTH shared (Some (id_hash (public i))) None
      in case Token_new derived of
           Inl e \<Rightarrow> Inl e
         | Inr token \<Rightarrow> token_decrypt C token ciphertext)"

fun try_ratchets ::
  "crypto \<Rightarrow> PrivateIdentity \<Rightarrow> bytes list \<Rightarrow> bytes \<Rightarrow> bytes \<Rightarrow> bytes option" where
  "try_ratchets C i [] peer_pub ciphertext = None"
| "try_ratchets C i (r # rs) peer_pub ciphertext =
     (case try_key C i r peer_pub ciphertext of
        Inr pt \<Rightarrow> Some pt
      | Inl _ \<Rightarrow> try_ratchets C i rs peer_pub ciphertext)"

definition identity_decrypt ::
  "crypto \<Rightarrow> PrivateIdentity \<Rightarrow> bytes \<Rightarrow> bytes list \<Rightarrow> bytes result" where
  "identity_decrypt C i blob ratchets =
     (if length blob \<le> KEY_HALF then Inl ''encrypted blob too short''
      else
        let peer_pub = take KEY_HALF blob; ciphertext = drop KEY_HALF blob
        in case try_ratchets C i ratchets peer_pub ciphertext of
             Some pt \<Rightarrow> Inr pt
           | None \<Rightarrow> try_key C i (x25519_seed i) peer_pub ciphertext)"

section \<open>announce.rs\<close>

record ParsedAnnounce =
  ann_destination :: bytes
  ann_identity :: PublicIdentity
  ann_name_hash :: bytes
  ann_ratchet :: "bytes option"
  ann_app_data :: bytes

definition random_hash :: "bytes \<Rightarrow> nat \<Rightarrow> bytes" where
  "random_hash random5 unix_time = random5 @ slice 3 8 (be_bytes 8 unix_time)"

definition build_announce ::
  "crypto \<Rightarrow> PrivateIdentity \<Rightarrow> bytes \<Rightarrow> bytes list \<Rightarrow> bytes \<Rightarrow> bytes \<Rightarrow> bytes option \<Rightarrow> Packet"
where
  "build_announce C identity app_name aspects app_data rh ratchet_pub =
     (let dest_hash = single_destination_hash C app_name aspects (identity_hash identity);
          nh = name_hash C app_name aspects;
          pk = public_key (public identity);
          ratchet = (case ratchet_pub of Some r \<Rightarrow> r | None \<Rightarrow> []);
          signed = dest_hash @ pk @ nh @ rh @ ratchet @ app_data;
          signature = sign C identity signed;
          data = pk @ nh @ rh @ ratchet @ signature @ app_data
      in (header1 DEST_SINGLE PACKET_ANNOUNCE CONTEXT_NONE dest_hash data)
           \<lparr>context_flag := (ratchet_pub \<noteq> None)\<rparr>)"

definition parse_and_validate :: "crypto \<Rightarrow> Packet \<Rightarrow> ParsedAnnounce option" where
  "parse_and_validate C packet =
     (if packet_type packet \<noteq> PACKET_ANNOUNCE then None
      else
        let data = pkt_data packet;
            minlen = KEYSIZE + NAME_HASH_LENGTH + 10 + SIG_LENGTH
        in if length data < minlen then None
           else
             let pk = take KEYSIZE data;
                 nh = slice KEYSIZE (KEYSIZE + NAME_HASH_LENGTH) data;
                 rh_off = KEYSIZE + NAME_HASH_LENGTH;
                 rh = slice rh_off (rh_off + 10) data
             in if context_flag packet \<and> length data < minlen + RATCHET_SIZE then None
                else
                  let r_off = rh_off + 10;
                      (ratchet, sig_off) =
                        (if context_flag packet
                         then (Some (slice r_off (r_off + RATCHET_SIZE) data), r_off + RATCHET_SIZE)
                         else (None, rh_off + 10));
                      signature = slice sig_off (sig_off + SIG_LENGTH) data;
                      app_data = drop (sig_off + SIG_LENGTH) data;
                      ratchet_slice = (case ratchet of Some r \<Rightarrow> r | None \<Rightarrow> []);
                      signed = destination_hash packet @ pk @ nh @ rh @ ratchet_slice @ app_data
                  in case from_public_key C pk of
                       Inl _ \<Rightarrow> None
                     | Inr identity \<Rightarrow>
                         if \<not> validate C identity signature signed then None
                         else
                           let expected = take TRUNCATED_HASHLENGTH (full_hash C (nh @ id_hash identity))
                           in if expected \<noteq> destination_hash packet then None
                              else Some \<lparr>ann_destination = destination_hash packet,
                                     ann_identity = identity, ann_name_hash = nh,
                                     ann_ratchet = ratchet, ann_app_data = app_data\<rparr>)"

section \<open>Well-formed identities\<close>

text \<open>The identities \<open>from_bytes\<close> makes: the public half belongs to the private one.\<close>

definition identity_ok :: "crypto \<Rightarrow> PrivateIdentity \<Rightarrow> bool" where
  "identity_ok C i \<longleftrightarrow> length (x25519_seed i) = 32 \<and> length (ed25519 i) = 32 \<and>
     public i = \<lparr>enc_pub = x25519_base C (x25519_seed i), sig_pub = dalek_pub C (ed25519 i),
       id_hash = truncated_hash C (x25519_base C (x25519_seed i) @ dalek_pub C (ed25519 i))\<rparr>"

lemma identity_ok_from_bytes [simp]:
  "length xs = 32 \<Longrightarrow> length es = 32 \<Longrightarrow> identity_ok C (from_bytes C xs es)"
  by (simp add: identity_ok_def from_bytes_def Let_def)

lemma identity_ok_sel:
  assumes "identity_ok C i"
  shows "enc_pub (public i) = x25519_base C (x25519_seed i)"
    "sig_pub (public i) = dalek_pub C (ed25519 i)"
    "id_hash (public i) = truncated_hash C (public_key (public i))"
    "length (x25519_seed i) = 32" "length (ed25519 i) = 32"
  using assms by (simp_all add: identity_ok_def public_key_def)

lemma length_name_hash [lens]: "sized C \<Longrightarrow> length (name_hash C a as) = 10"
  by (simp add: name_hash_def lens)

lemma length_single_destination_hash [lens]:
  "sized C \<Longrightarrow> length (single_destination_hash C a as i) = 16"
  by (simp add: single_destination_hash_def Let_def lens)

lemma length_plain_destination_hash [lens]:
  "sized C \<Longrightarrow> length (plain_destination_hash C a as) = 16"
  by (simp add: plain_destination_hash_def Let_def lens)

lemma length_public_key [lens]:
  "sized C \<Longrightarrow> identity_ok C i \<Longrightarrow> length (public_key (public i)) = 64"
  by (simp add: public_key_def identity_ok_sel lens)

lemma length_sign [lens]: "sized C \<Longrightarrow> length (sign C i m) = 64"
  by (simp add: sign_def lens)

lemma length_random_hash [lens]: "length r = 5 \<Longrightarrow> length (random_hash r t) = 10"
  by (simp add: random_hash_def)

lemma validate_sign:
  "sized C \<Longrightarrow> signs C \<Longrightarrow> identity_ok C i \<Longrightarrow> validate C (public i) (sign C i m) m"
  by (simp add: validate_def lens) (simp add: sign_def identity_ok_sel signs_verify)

lemma from_public_key_public:
  "sized C \<Longrightarrow> identity_ok C i \<Longrightarrow> from_public_key C (public_key (public i)) = Inr (public i)"
  by (simp add: from_public_key_def lens)
    (simp add: public_key_def identity_ok_sel lens identity_ok_def [of C i])

lemma from_public_key_split:
  "from_public_key C bs = Inr i \<Longrightarrow> public_key i = bs \<and> id_hash i = truncated_hash C bs
     \<and> length (enc_pub i) = 32 \<and> length (sig_pub i) = 32"
  by (auto simp: from_public_key_def public_key_def split: if_splits)

section \<open>Encryption to an identity\<close>

lemma identity_encrypt_eq:
  "sized C \<Longrightarrow> identity_encrypt C i p eph iv r =
     (let key = hkdf C 64 (x25519 C eph (case r of Some r \<Rightarrow> r | None \<Rightarrow> enc_pub i)) (Some (id_hash i)) None
      in x25519_base C eph @
         encrypt_with_iv C \<lparr>signing_key = take 32 key, encryption_key = drop 32 key\<rparr> p iv)"
  by (simp add: identity_encrypt_def Token_new_hkdf [unfolded DERIVED_KEY_LENGTH_def] Let_def)

lemma try_key_own:
  assumes "sized C" "aes_inverts C" "dh_agrees C" "length iv = 16" "length eph = 32"
    and "length k = 32" "x25519_base C k = (case r of Some r \<Rightarrow> r | None \<Rightarrow> enc_pub (public i))"
  shows "try_key C i k (x25519_base C eph)
           (drop 32 (identity_encrypt C (public i) p eph iv r)) = Inr p"
proof -
  have "x25519 C k (x25519_base C eph) = x25519 C eph (x25519_base C k)"
    using assms(3,5,6) by (simp add: dh_agrees_def)
  then show ?thesis
    using assms(1,2,4)
    by (simp add: try_key_def identity_encrypt_eq Let_def lens assms(7)
        Token_new_hkdf [unfolded DERIVED_KEY_LENGTH_def] token_roundtrip)
qed

lemma try_ratchets_append:
  "try_ratchets C i rs peer ct = None \<Longrightarrow>
     try_ratchets C i (rs @ rs') peer ct = try_ratchets C i rs' peer ct"
  by (induction rs) (auto split: sum.splits)

lemma length_identity_encrypt:
  "sized C \<Longrightarrow> length iv = 16 \<Longrightarrow> 80 \<le> length (identity_encrypt C i p eph iv r)"
  by (simp add: identity_encrypt_eq Let_def lens length_encrypt_with_iv)

lemma take_identity_encrypt:
  "sized C \<Longrightarrow> take 32 (identity_encrypt C i p eph iv r) = x25519_base C eph"
  by (simp add: identity_encrypt_eq Let_def lens)

lemma identity_decrypt_own:
  assumes "sized C" "aes_inverts C" "dh_agrees C" "identity_ok C i" "length iv = 16" "length eph = 32"
  shows "identity_decrypt C i (identity_encrypt C (public i) p eph iv None) [] = Inr p"
  using assms(1,5) length_identity_encrypt [of C iv "public i" p eph None]
    try_key_own [OF assms(1-3,5,6), where r = None and i = i and p = p and k = "x25519_seed i"]
  by (simp add: identity_decrypt_def take_identity_encrypt identity_ok_sel [OF assms(4)])

section \<open>Announces\<close>

text \<open>The layout of announce data, cut back into its fields.\<close>

lemma announce_fields:
  assumes "length pk = 64" "length nh = 10" "length rh = 10" "length sg = 64"
  shows "take 64 (pk @ nh @ rh @ r @ sg @ a) = pk"
    "slice 64 74 (pk @ nh @ rh @ r @ sg @ a) = nh"
    "slice 74 84 (pk @ nh @ rh @ r @ sg @ a) = rh"
    "length r = 32 \<Longrightarrow> slice 84 116 (pk @ nh @ rh @ r @ sg @ a) = r"
    "length r = 32 \<Longrightarrow> slice 116 180 (pk @ nh @ rh @ r @ sg @ a) = sg"
    "length r = 32 \<Longrightarrow> drop 180 (pk @ nh @ rh @ r @ sg @ a) = a"
    "slice 84 148 (pk @ nh @ rh @ sg @ a) = sg" "drop 148 (pk @ nh @ rh @ sg @ a) = a"
    "take 64 (pk @ nh @ rh @ sg @ a) = pk"
    "slice 64 74 (pk @ nh @ rh @ sg @ a) = nh"
    "slice 74 84 (pk @ nh @ rh @ sg @ a) = rh"
  using assms by (simp_all add: slice_def)

lemma announce_data_split:
  "148 \<le> length d \<Longrightarrow> d = take 64 d @ slice 64 74 d @ slice 74 84 d @ slice 84 148 d @ drop 148 d"
  "d = take 64 d @ slice 64 74 d @ slice 74 84 d @ slice 84 116 d @ slice 116 180 d @ drop 180 d"
  by (simp_all add: slice_append_drop)

text \<open>What an accepted announce proves: the whole payload, signed by the key it carries.\<close>

definition announce_authentic :: "crypto \<Rightarrow> Packet \<Rightarrow> ParsedAnnounce \<Rightarrow> bool" where
  "announce_authentic C p a \<longleftrightarrow>
     (\<exists>rh sg. length rh = 10 \<and> length sg = 64 \<and>
        (let pk = public_key (ann_identity a); nh = ann_name_hash a;
             r = (case ann_ratchet a of Some r \<Rightarrow> r | None \<Rightarrow> [])
         in pkt_data p = pk @ nh @ rh @ r @ sg @ ann_app_data a \<and>
            ed_verify C (sig_pub (ann_identity a))
              (destination_hash p @ pk @ nh @ rh @ r @ ann_app_data a) sg))"

lemma parse_announce_authentic:
  assumes "parse_and_validate C p = Some a"
  shows "announce_authentic C p a"
proof (cases "context_flag p")
  case True
  note split = announce_data_split(2) [of "pkt_data p"]
  from True assms show ?thesis
    unfolding announce_authentic_def Let_def
    by (intro exI [of _ "slice 74 84 (pkt_data p)"] exI [of _ "slice 116 180 (pkt_data p)"])
      (auto simp: parse_and_validate_def Let_def validate_def split [symmetric]
        dest!: from_public_key_split split: if_splits sum.splits)
next
  case False
  note split = announce_data_split(1) [of "pkt_data p"]
  from False assms show ?thesis
    unfolding announce_authentic_def Let_def
    by (intro exI [of _ "slice 74 84 (pkt_data p)"] exI [of _ "slice 84 148 (pkt_data p)"])
      (auto simp: parse_and_validate_def Let_def validate_def split [symmetric]
        dest!: from_public_key_split split: if_splits sum.splits)
qed

lemma parse_announce_binding:
  assumes "parse_and_validate C p = Some a"
  shows "ann_destination a = destination_hash p \<and>
    destination_hash p =
      take 16 (full_hash C (ann_name_hash a @ truncated_hash C (public_key (ann_identity a))))"
  using assms
  by (auto simp: parse_and_validate_def Let_def dest!: from_public_key_split
      split: if_splits sum.splits prod.splits)

lemma parse_build_announce:
  assumes "sized C" "signs C" "identity_ok C i" "length rh = 10"
    and "\<And>r. ratchet = Some r \<Longrightarrow> length r = 32"
  shows "parse_and_validate C (build_announce C i app aspects d rh ratchet) =
    Some \<lparr>ann_destination = single_destination_hash C app aspects (identity_hash i),
          ann_identity = public i, ann_name_hash = name_hash C app aspects,
          ann_ratchet = ratchet, ann_app_data = d\<rparr>"
proof -
  let ?pk = "public_key (public i)"
  let ?nh = "name_hash C app aspects"
  have len: "length ?pk = 64" "length ?nh = 10" "\<And>m. length (sign C i m) = 64"
    using assms(1,3) by (simp_all add: lens)
  have dest: "take 16 (full_hash C (?nh @ id_hash (public i))) =
      single_destination_hash C app aspects (identity_hash i)"
    by (simp add: single_destination_hash_def identity_hash_def Let_def)
  show ?thesis
  proof (cases ratchet)
    case None
    then show ?thesis
      by (simp add: parse_and_validate_def build_announce_def Let_def announce_fields len assms(4)
          from_public_key_public [OF assms(1,3)] validate_sign [OF assms(1-3)] dest)
  next
    case (Some r)
    then show ?thesis
      by (simp add: parse_and_validate_def build_announce_def Let_def announce_fields len assms(4,5)
          from_public_key_public [OF assms(1,3)] validate_sign [OF assms(1-3)] dest)
  qed
qed

lemma packet_ok_build_announce:
  "sized C \<Longrightarrow> packet_ok (build_announce C i app aspects d rh ratchet)"
  by (simp add: packet_ok_def build_announce_def Let_def lens header1_def)

section \<open>Properties\<close>

text \<open>
  A blob encrypted to an identity decrypts to the plaintext with its private keys, whatever
  ephemeral secret and IV were drawn: a blob for the identity key after every ratchet
  has rejected it, a blob for an announced ratchet as soon as that ratchet is tried.
\<close>

theorem identity_encrypt_decrypt:
  assumes "sized C" "aes_inverts C" "dh_agrees C" "identity_ok C i" "length iv = 16" "length eph = 32"
    and "case target of
           None \<Rightarrow> later = []
         | Some r \<Rightarrow> \<exists>k rest. later = k # rest \<and> length k = 32 \<and> r = x25519_base C k"
    and "try_ratchets C i older (x25519_base C eph)
           (drop 32 (identity_encrypt C (public i) p eph iv target)) = None"
  shows "identity_decrypt C i (identity_encrypt C (public i) p eph iv target) (older @ later) = Inr p"
  using assms(1,5-8) length_identity_encrypt [of C iv "public i" p eph target]
    try_key_own [OF assms(1-3,5,6), where r = target and i = i and p = p]
  by (auto simp: identity_decrypt_def take_identity_encrypt try_ratchets_append
      identity_ok_sel [OF assms(4)] split: option.splits)

theorem identity_encrypt_decrypt_witness:
  "let i = from_bytes demo (replicate 32 5) (replicate 32 6) in
   identity_decrypt demo i (identity_encrypt demo (public i) [1, 2, 3] (replicate 32 9)
     (replicate 16 2) (Some (x25519_base demo (replicate 32 7)))) ([] @ [replicate 32 7]) =
   Inr [1, 2, 3]"
  unfolding Let_def
  by (rule identity_encrypt_decrypt [OF demo_sized demo_aes demo_dh]) simp_all

text \<open>
  C31. Every announce the client builds, with or without a ratchet, survives the wire: the receiver
  decodes it and validates it to the sender's destination hash, identity, name hash, ratchet and
  application data.
\<close>

theorem announce_roundtrip:
  assumes "sized C" "signs C" "identity_ok C i" "length rh = 10"
    and "\<And>r. ratchet = Some r \<Longrightarrow> length r = 32"
    and "packet_encode (build_announce C i app aspects d rh ratchet) = Some raw"
  shows "\<exists>p. packet_decode raw = Inr p \<and> parse_and_validate C p =
    Some \<lparr>ann_destination = single_destination_hash C app aspects (identity_hash i),
          ann_identity = public i, ann_name_hash = name_hash C app aspects,
          ann_ratchet = ratchet, ann_app_data = d\<rparr>"
  using assms(6) packet_ok_build_announce [OF assms(1)] parse_build_announce [OF assms(1-5)]
  by (auto simp: packet_encode_wire packet_decode_wire)

theorem announce_roundtrip_witness:
  "\<exists>raw p. packet_encode (build_announce demo (from_bytes demo (replicate 32 5) (replicate 32 6)) [0x6C] [[0x64]] [7, 8]
       (random_hash [1, 2, 3, 4, 5] 1700000000) (Some (replicate 32 3))) = Some raw \<and>
     packet_decode raw = Inr p \<and> (\<exists>a. parse_and_validate demo p = Some a)"
  using announce_roundtrip [OF demo_sized demo_signs identity_ok_from_bytes [of "replicate 32 5" "replicate 32 6" demo],
      of "random_hash [1, 2, 3, 4, 5] 1700000000" "Some (replicate 32 3)" "[0x6C]" "[[0x64]]" "[7, 8]"]
    packet_encode_wire [OF packet_ok_build_announce [OF demo_sized]]
  by (fastforce simp: lens)

text \<open>
  C32. An announce is accepted only if it is authentic: its data is exactly the announced public key,
  name hash, random hash, ratchet, signature and application data; the signature over all of
  them and the destination hash verifies under the announced key; and the destination
  hash is the hash of the name and of that key's identity hash.
\<close>

theorem announce_sound:
  assumes "parse_and_validate C p = Some a"
  shows "announce_authentic C p a \<and> ann_destination a = destination_hash p \<and>
    destination_hash p =
      take 16 (full_hash C (ann_name_hash a @ truncated_hash C (public_key (ann_identity a))))"
  using parse_announce_authentic [OF assms] parse_announce_binding [OF assms] by simp

theorem announce_sound_witness:
  "\<exists>a. parse_and_validate demo (build_announce demo (from_bytes demo (replicate 32 5) (replicate 32 6)) [0x6C] [] [7]
      (replicate 10 0) None) = Some a \<and>
    announce_authentic demo (build_announce demo (from_bytes demo (replicate 32 5) (replicate 32 6)) [0x6C] [] [7]
      (replicate 10 0) None) a"
  using parse_build_announce [OF demo_sized demo_signs identity_ok_from_bytes, where rh = "replicate 10 0" and ratchet = None]
    announce_sound
  by fastforce

end
