(* ===== verification/RustStd.thy ===== *)
theory RustStd
  imports Prelude
begin

text \<open>
  The parts of Rust's standard library that the components use and whose exact behaviour matters:
  UTF-8 validation and \<open>String::from_utf8_lossy\<close>, the casts between integers and \<open>f64\<close>, and
  the ordered map \<open>BTreeMap\<close>.

  A string is the list of its UTF-8 bytes. An \<open>f64\<close> is its 64-bit pattern: sign, 11 exponent bits,
  52 mantissa bits.
\<close>

section \<open>UTF-8\<close>

definition utf8_cont :: "u8 \<Rightarrow> bool" where
  "utf8_cont b \<longleftrightarrow> 0x80 \<le> b \<and> b \<le> 0xBF"

text \<open>The width a lead byte announces, 0 for a byte that leads nothing.\<close>

definition utf8_len :: "u8 \<Rightarrow> nat" where
  "utf8_len l =
     (if l < 0x80 then 1 else if 0xC2 \<le> l \<and> l \<le> 0xDF then 2
      else if 0xE0 \<le> l \<and> l \<le> 0xEF then 3 else if 0xF0 \<le> l \<and> l \<le> 0xF4 then 4 else 0)"

text \<open>The second bytes a lead byte admits: no overlong forms, no surrogates, nothing above U+10FFFF.\<close>

definition utf8_second :: "u8 \<Rightarrow> u8 \<Rightarrow> bool" where
  "utf8_second l b =
     (if l = 0xE0 then 0xA0 \<le> b \<and> b \<le> 0xBF else if l = 0xED then 0x80 \<le> b \<and> b \<le> 0x9F
      else if l = 0xF0 then 0x90 \<le> b \<and> b \<le> 0xBF else if l = 0xF4 then 0x80 \<le> b \<and> b \<le> 0x8F
      else utf8_cont b)"

text \<open>
  One step of the decoder: how many bytes it consumes and whether they are a character. On an
  error it consumes the longest prefix of a character, and at least one byte.
\<close>

fun utf8_step :: "bytes \<Rightarrow> nat \<times> bool" where
  "utf8_step [] = (0, True)"
| "utf8_step (l # rest) =
     (let w = utf8_len l in
      if w = 0 then (1, False)
      else if w = 1 then (1, True)
      else if rest = [] \<or> \<not> utf8_second l (hd rest) then (1, False)
      else let k = length (takeWhile utf8_cont (take (w - 2) (tl rest))) in (2 + k, k = w - 2))"

lemma utf8_step_pos: "bs \<noteq> [] \<Longrightarrow> 0 < fst (utf8_step bs)"
  by (cases bs) (auto simp: Let_def)

definition replacement :: bytes where
  "replacement = [0xEF, 0xBF, 0xBD]"

function utf8_lossy :: "bytes \<Rightarrow> bytes" where
  "utf8_lossy bs =
     (if bs = [] then []
      else (if snd (utf8_step bs) then take (fst (utf8_step bs)) bs else replacement)
             @ utf8_lossy (drop (fst (utf8_step bs)) bs))"
  by pat_completeness auto
termination
  by (relation "measure length") (auto simp: utf8_step_pos)

function utf8_valid :: "bytes \<Rightarrow> bool" where
  "utf8_valid bs \<longleftrightarrow>
     (if bs = [] then True
      else snd (utf8_step bs) \<and> utf8_valid (drop (fst (utf8_step bs)) bs))"
  by pat_completeness auto
termination
  by (relation "measure length") (auto simp: utf8_step_pos)

declare utf8_lossy.simps [simp del] utf8_valid.simps [simp del]

lemma utf8_valid_Nil [simp]: "utf8_valid []"
  by (simp add: utf8_valid.simps)

lemma utf8_lossy_Nil [simp]: "utf8_lossy [] = []"
  by (simp add: utf8_lossy.simps)

lemma utf8_lossy_valid [simp]: "utf8_valid bs \<Longrightarrow> utf8_lossy bs = bs"
proof (induction bs rule: utf8_lossy.induct)
  case (1 bs)
  then show ?case
    by (cases "bs = []") (simp_all add: utf8_lossy.simps [of bs] utf8_valid.simps [of bs])
qed

lemma utf8_step_take:
  assumes "utf8_step bs = (n, True)" "bs \<noteq> []"
  shows "utf8_step (take n bs @ r) = (n, True)" and "n \<le> length bs"
proof -
  obtain l rest where bs: "bs = l # rest" using assms(2) by (cases bs) auto
  let ?w = "utf8_len l" and ?t = "take (utf8_len l - 2) (tl rest)"
  have "utf8_step (take n bs @ r) = (n, True) \<and> n \<le> length bs"
  proof (cases "?w = 0 \<or> ?w = 1")
    case True
    with assms(1) bs show ?thesis by (auto simp: Let_def)
  next
    case False
    with assms(1) bs have ok: "rest \<noteq> []" "utf8_second l (hd rest)"
        "length (takeWhile utf8_cont ?t) = ?w - 2" "n = 2 + (?w - 2)"
      by (auto simp: Let_def split: if_splits)
    then obtain c rs where rest: "rest = c # rs" by (cases rest) auto
    have len: "?w - 2 \<le> length rs"
      using ok(3) rest length_takeWhile_le [of utf8_cont ?t] by (simp split: if_splits)
    have "length (takeWhile utf8_cont ?t) + length (dropWhile utf8_cont ?t) = length ?t"
      by (simp only: length_append [symmetric] takeWhile_dropWhile_id)
    with ok(3) rest len have "dropWhile utf8_cont ?t = []" by simp
    then have tw: "takeWhile utf8_cont ?t = ?t"
      using takeWhile_dropWhile_id [of utf8_cont ?t] by simp
    have "take n bs = l # c # take (?w - 2) rs" using ok(4) bs rest by simp
    then show ?thesis using False ok rest bs len tw by (simp add: Let_def)
  qed
  then show "utf8_step (take n bs @ r) = (n, True)" "n \<le> length bs" by auto
qed

lemma utf8_valid_prefix:
  "utf8_valid a \<Longrightarrow> utf8_valid (a @ b) = utf8_valid b"
proof (induction a rule: utf8_valid.induct)
  case (1 a)
  show ?case
  proof (cases "a = []")
    case False
    with "1.prems" obtain n where n: "utf8_step a = (n, True)"
      by (cases "utf8_step a") (simp add: utf8_valid.simps [of a])
    have step: "utf8_step (a @ b) = (n, True)" and "n \<le> length a"
      using utf8_step_take(1) [OF n False, of "drop n a @ b"] utf8_step_take(2) [OF n False]
      by (simp_all only: append_assoc [symmetric] append_take_drop_id)
    then show ?thesis
      using 1 False n by (simp add: utf8_valid.simps [of a] utf8_valid.simps [of "a @ b"])
  qed simp
qed

lemma utf8_valid_step:
  assumes "utf8_step bs = (n, True)" "bs \<noteq> []"
  shows "utf8_valid (take n bs)"
proof -
  from utf8_step_take(1) [OF assms, of "[]"] have "utf8_step (take n bs) = (n, True)" by simp
  then show ?thesis by (simp add: utf8_valid.simps [of "take n bs"])
qed

lemma utf8_valid_replacement: "utf8_valid replacement"
  by code_simp

lemma utf8_valid_lossy [simp]: "utf8_valid (utf8_lossy bs)"
proof (induction bs rule: utf8_lossy.induct)
  case (1 bs)
  show ?case
  proof (cases "bs = []")
    case False
    obtain n v where s: "utf8_step bs = (n, v)" by fastforce
    with 1 False utf8_valid_step [of bs n] show ?thesis
      by (cases v) (simp_all add: utf8_lossy.simps [of bs] utf8_valid_prefix utf8_valid_replacement)
  qed simp
qed

section \<open>f64\<close>

fun log2 :: "nat \<Rightarrow> nat" where
  "log2 n = (if n < 2 then 0 else Suc (log2 (n div 2)))"

declare log2.simps [simp del]

lemma log2_bounds: "0 < n \<Longrightarrow> 2 ^ log2 n \<le> n \<and> n < 2 ^ Suc (log2 n)"
proof (induction n rule: log2.induct)
  case (1 n)
  show ?case
  proof (cases "n < 2")
    case True
    with "1.prems" show ?thesis by (simp add: log2.simps [of n])
  next
    case False
    then have "2 ^ log2 (n div 2) \<le> n div 2 \<and> n div 2 < 2 ^ Suc (log2 (n div 2))"
      using 1 by simp
    then show ?thesis using False by (simp add: log2.simps [of n]) linarith
  qed
qed

text \<open>\<open>n as f64\<close> for an unsigned \<open>n\<close>: exact up to 53 bits, then rounded to nearest, ties to even.\<close>

definition f64_nat :: "nat \<Rightarrow> nat" where
  "f64_nat n =
     (if n = 0 then 0
      else let e = log2 n in
        if e \<le> 52 then (e + 1023) * 2 ^ 52 + (n * 2 ^ (52 - e) - 2 ^ 52)
        else let s = e - 52; q = n div 2 ^ s; r = n mod 2 ^ s; half = 2 ^ (s - 1);
                 q' = (if r > half \<or> r = half \<and> odd q then q + 1 else q)
             in (e + 1023) * 2 ^ 52 + (q' - 2 ^ 52))"

definition f64_of_u64 :: "nat \<Rightarrow> u64" where
  "f64_of_u64 n = of_nat (f64_nat n)"

definition f64_of_i64 :: "int \<Rightarrow> u64" where
  "f64_of_i64 i = (if i < 0 then of_nat (2 ^ 63 + f64_nat (nat (- i))) else of_nat (f64_nat (nat i)))"

text \<open>
  \<open>x as f64\<close> for an \<open>f32\<close> pattern. Every value is exact; a signalling NaN becomes quiet, as the
  hardware conversions do it.
\<close>

definition f64_of_f32 :: "nat \<Rightarrow> u64" where
  "f64_of_f32 b =
     (let sg = (b div 2 ^ 31 mod 2) * 2 ^ 63; e = b div 2 ^ 23 mod 2 ^ 8; m = b mod 2 ^ 23 in
      of_nat (sg +
        (if e = 255 then
           2047 * 2 ^ 52 + (if m = 0 then 0 else if m < 2 ^ 22 then (m + 2 ^ 22) * 2 ^ 29 else m * 2 ^ 29)
         else if e = 0 then
           (if m = 0 then 0
            else let k = log2 m in (k + 874) * 2 ^ 52 + (m * 2 ^ (52 - k) - 2 ^ 52))
         else (e + 896) * 2 ^ 52 + m * 2 ^ 29)))"

definition f64_neg :: "u64 \<Rightarrow> bool" where
  "f64_neg x \<longleftrightarrow> 2 ^ 63 \<le> unat x"

definition f64_exp :: "u64 \<Rightarrow> nat" where
  "f64_exp x = unat x div 2 ^ 52 mod 2 ^ 11"

definition f64_mant :: "u64 \<Rightarrow> nat" where
  "f64_mant x = unat x mod 2 ^ 52"

definition f64_is_finite :: "u64 \<Rightarrow> bool" where
  "f64_is_finite x \<longleftrightarrow> f64_exp x \<noteq> 2047"

text \<open>\<open>x > 0.0\<close>: not NaN, not negative, not a zero.\<close>

definition f64_positive :: "u64 \<Rightarrow> bool" where
  "f64_positive x \<longleftrightarrow>
     \<not> f64_neg x \<and> (f64_exp x = 2047 \<longrightarrow> f64_mant x = 0) \<and> \<not> (f64_exp x = 0 \<and> f64_mant x = 0)"

text \<open>\<open>x as u64\<close>: truncates, and saturates at both ends; NaN becomes 0.\<close>

definition f64_to_u64 :: "u64 \<Rightarrow> nat" where
  "f64_to_u64 x =
     (if f64_exp x = 2047 then (if f64_mant x \<noteq> 0 \<or> f64_neg x then 0 else 2 ^ 64 - 1)
      else if f64_neg x then 0
      else let m = (if f64_exp x = 0 then f64_mant x else f64_mant x + 2 ^ 52);
               e = max (f64_exp x) 1;
               v = (if 1075 \<le> e then m * 2 ^ (e - 1075) else m div 2 ^ (1075 - e))
           in min v (2 ^ 64 - 1))"

lemma f64_fields:
  assumes "e < 2047" "m < 2 ^ 52" "x = of_nat (e * 2 ^ 52 + m)"
  shows "f64_exp x = e" "f64_mant x = m" "\<not> f64_neg x"
proof -
  have "e * 2 ^ 52 + m < 2047 * 2 ^ 52"
  proof -
    have "e * 2 ^ 52 + m < (e + 1) * 2 ^ 52" using assms(2) by simp
    also have "\<dots> \<le> 2047 * 2 ^ 52" using assms(1) by (intro mult_right_mono) auto
    finally show ?thesis .
  qed
  then have u: "unat x = e * 2 ^ 52 + m" and b: "e * 2 ^ 52 + m < 2 ^ 63"
    unfolding assms(3) unat_of_nat by simp_all
  show "f64_exp x = e" using assms(1,2) by (simp add: f64_exp_def u)
  show "f64_mant x = m" using assms(2) by (simp add: f64_mant_def u)
  show "\<not> f64_neg x" using b by (simp add: f64_neg_def u)
qed

text \<open>Whole numbers below \<open>2 ^ 53\<close>, in particular Unix times, survive the cast and the cast back.\<close>

lemma f64_u64_exact:
  assumes "0 < n" "n < 2 ^ 53"
  shows "f64_to_u64 (f64_of_u64 n) = n" "f64_is_finite (f64_of_u64 n)" "f64_positive (f64_of_u64 n)"
proof -
  let ?e = "log2 n"
  note lb = log2_bounds [OF assms(1)]
  then have e: "?e \<le> 52"
    using assms(2) power_strict_increasing_iff [of 2 ?e 53] by (metis le_less_trans less_Suc_eq_le
      numeral_eq_Suc one_less_numeral_iff pred_numeral_simps(2) pred_numeral_simps(3) semiring_norm(76))
  have p: "2 ^ ?e * 2 ^ (52 - ?e) = (2 ^ 52 :: nat)"
    using e by (simp add: power_add [symmetric])
  have lo: "2 ^ 52 \<le> n * 2 ^ (52 - ?e)"
    unfolding p [symmetric] using lb by (intro mult_right_mono) auto
  have "n * 2 ^ (52 - ?e) < 2 ^ Suc ?e * 2 ^ (52 - ?e)"
    using lb by (intro mult_strict_right_mono) auto
  also have "\<dots> = 2 * 2 ^ 52" unfolding p [symmetric] by (simp only: power_Suc mult.assoc)
  finally have hi: "n * 2 ^ (52 - ?e) - 2 ^ 52 < 2 ^ 52" by simp
  have x: "f64_of_u64 n = of_nat ((?e + 1023) * 2 ^ 52 + (n * 2 ^ (52 - ?e) - 2 ^ 52))"
    using assms(1) e by (simp add: f64_of_u64_def f64_nat_def Let_def)
  note f = f64_fields [OF _ hi x]
  have ee: "f64_exp (f64_of_u64 n) = ?e + 1023" using f(1) e by simp
  have mm: "f64_mant (f64_of_u64 n) = n * 2 ^ (52 - ?e) - 2 ^ 52" using f(2) e by simp
  have ng: "\<not> f64_neg (f64_of_u64 n)" using f(3) e by simp
  have v: "(n * 2 ^ (52 - ?e) - 2 ^ 52 + 2 ^ 52) div 2 ^ (1075 - (?e + 1023)) = n"
    using lo e by simp
  show "f64_is_finite (f64_of_u64 n)" using ee e by (simp add: f64_is_finite_def)
  show "f64_positive (f64_of_u64 n)" using ee e ng by (simp add: f64_positive_def)
  show "f64_to_u64 (f64_of_u64 n) = n"
  proof (cases "?e = 52")
    case True
    then show ?thesis using ee mm ng lo assms(2)
      by (simp add: f64_to_u64_def Let_def min_def)
  next
    case False
    then show ?thesis using ee mm ng v e assms(2)
      by (simp add: f64_to_u64_def Let_def min_def)
  qed
qed

section \<open>BTreeMap\<close>

text \<open>An ordered map is an association list with strictly increasing keys.\<close>

fun bt_insert :: "'k::linorder \<Rightarrow> 'v \<Rightarrow> ('k \<times> 'v) list \<Rightarrow> ('k \<times> 'v) list" where
  "bt_insert k v [] = [(k, v)]"
| "bt_insert k v ((k', v') # m) =
     (if k < k' then (k, v) # (k', v') # m
      else if k = k' then (k, v) # m
      else (k', v') # bt_insert k v m)"

definition bt_wf :: "('k::linorder \<times> 'v) list \<Rightarrow> bool" where
  "bt_wf m \<longleftrightarrow> sorted_wrt (<) (map fst m)"

lemma set_bt_insert: "fst ` set (bt_insert k v m) = insert k (fst ` set m)"
  by (induction k v m rule: bt_insert.induct) (simp_all add: insert_commute)

lemma bt_wf_insert: "bt_wf m \<Longrightarrow> bt_wf (bt_insert k v m)"
proof (induction m)
  case (Cons x m)
  then show ?case
    using set_bt_insert [of k v m] by (cases x) (fastforce simp: bt_wf_def)
qed (simp add: bt_wf_def)

lemma bt_get_insert: "map_of (bt_insert k v m) = (map_of m)(k \<mapsto> v)"
  by (induction k v m rule: bt_insert.induct) auto

lemma bt_insert_greatest:
  "\<forall>k'\<in>fst ` set m. k' < k \<Longrightarrow> bt_insert k v m = m @ [(k, v)]"
  by (induction m) auto

end
