(* ===== verification/Msgpack.thy ===== *)
theory Msgpack
  imports RustStd
begin

text \<open>
  The MessagePack codec of \<open>libs/lxmf/src/msgpack.rs\<close>, which carries every LXMF payload, announce
  and request.

  The decoder runs over a slice and a \<open>usize\<close> index. Its bounds check \<open>self.i + n > len\<close> adds in
  \<open>usize\<close>, so its result depends on the pointer width \<open>W\<close>: when the sum overflows, a debug build
  panics in the addition and a release build wraps and panics in the slice, whose start is then past
  its end. Both are \<open>Panic\<close> here. The recursion of \<open>value\<close> into arrays and maps is
  bounded by fuel, one unit per nesting level; \<open>mp_decode\<close> gives it one more unit than the input
  has bytes, which is enough, as every level consumes a byte (\<open>mp_decode_total\<close>).
\<close>

section \<open>The code\<close>

datatype Value =
    VNil
  | VBool bool
  | VInt int
  | VF64 u64
  | VStr bytes
  | VBin bytes
  | VArray "Value list"
  | VMap "(int \<times> Value) list"
  | VStrMap "(bytes \<times> Value) list"

fun as_bin :: "Value \<Rightarrow> bytes option" where
  "as_bin (VBin b) = Some b"
| "as_bin (VStr s) = Some s"
| "as_bin _ = None"

fun as_f64 :: "Value \<Rightarrow> u64 option" where
  "as_f64 (VF64 f) = Some f"
| "as_f64 (VInt i) = Some (f64_of_i64 i)"
| "as_f64 _ = None"

fun as_array :: "Value \<Rightarrow> Value list option" where
  "as_array (VArray a) = Some a"
| "as_array _ = None"

definition write_u :: "nat \<Rightarrow> bytes" where
  "write_u n =
     (if n < 0x80 then [of_nat n]
      else if n \<le> 0xFF then 0xcc # be_bytes 1 n
      else if n \<le> 0xFFFF then 0xcd # be_bytes 2 n
      else if n \<le> 0xFFFFFFFF then 0xce # be_bytes 4 n
      else 0xcf # be_bytes 8 n)"

text \<open>The low \<open>k\<close> bytes of a signed value, as \<open>(n as iK).to_be_bytes()\<close>.\<close>

definition be_signed :: "nat \<Rightarrow> int \<Rightarrow> bytes" where
  "be_signed k n = be_bytes k (nat (n mod 256 ^ k))"

definition write_i :: "int \<Rightarrow> bytes" where
  "write_i n =
     (if n \<ge> 0 then write_u (nat n)
      else if n \<ge> - 32 then be_signed 1 n
      else if n \<ge> - 0x80 then 0xd0 # be_signed 1 n
      else if n \<ge> - 0x8000 then 0xd1 # be_signed 2 n
      else if n \<ge> - 0x80000000 then 0xd2 # be_signed 4 n
      else 0xd3 # be_signed 8 n)"

text \<open>The length headers of strings, binaries, arrays and maps.\<close>

definition str_header :: "nat \<Rightarrow> bytes" where
  "str_header n =
     (if n < 32 then [0xa0 OR of_nat n]
      else if n \<le> 0xFF then 0xd9 # be_bytes 1 n
      else if n \<le> 0xFFFF then 0xda # be_bytes 2 n
      else 0xdb # be_bytes 4 n)"

definition bin_header :: "nat \<Rightarrow> bytes" where
  "bin_header n =
     (if n \<le> 0xFF then 0xc4 # be_bytes 1 n
      else if n \<le> 0xFFFF then 0xc5 # be_bytes 2 n
      else 0xc6 # be_bytes 4 n)"

definition array_header :: "nat \<Rightarrow> bytes" where
  "array_header n =
     (if n < 16 then [0x90 OR of_nat n]
      else if n \<le> 0xFFFF then 0xdc # be_bytes 2 n
      else 0xdd # be_bytes 4 n)"

definition map_header :: "nat \<Rightarrow> bytes" where
  "map_header n =
     (if n < 16 then [0x80 OR of_nat n]
      else if n \<le> 0xFFFF then 0xde # be_bytes 2 n
      else 0xdf # be_bytes 4 n)"

lemma size_snd: "x \<in> set m \<Longrightarrow> size (snd x) < Suc (size_list (size_prod (\<lambda>_. 0) size) m)"
  by (rule less_SucI, erule size_list_estimation) (simp add: size_prod_simp)

function (sequential) encode_into :: "Value \<Rightarrow> bytes" where
  "encode_into VNil = [0xc0]"
| "encode_into (VBool b) = (if b then [0xc3] else [0xc2])"
| "encode_into (VInt n) = write_i n"
| "encode_into (VF64 f) = 0xcb # be_bytes 8 (unat f)"
| "encode_into (VStr s) = str_header (length s) @ s"
| "encode_into (VBin b) = bin_header (length b) @ b"
| "encode_into (VArray a) = array_header (length a) @ concat (map encode_into a)"
| "encode_into (VMap m) =
     map_header (length m) @ concat (map (\<lambda>x. write_i (fst x) @ encode_into (snd x)) m)"
| "encode_into (VStrMap m) =
     map_header (length m) @
       concat (map (\<lambda>x. (str_header (length (fst x)) @ fst x) @ encode_into (snd x)) m)"
  by pat_completeness auto
termination
  by (relation "measure size") (auto simp: size_snd less_Suc_eq_le size_list_estimation')

definition mp_encode :: "Value \<Rightarrow> bytes" where
  "mp_encode v = encode_into v"

record Parser =
  par_b :: bytes
  par_i :: nat

definition mp_take :: "nat \<Rightarrow> nat \<Rightarrow> Parser \<Rightarrow> (bytes \<times> Parser) outcome" where
  "mp_take W n p =
     (if 2 ^ W \<le> par_i p + n then Panic
      else if par_i p + n > length (par_b p) then Err ''unexpected end of msgpack input''
      else Ok (slice (par_i p) (par_i p + n) (par_b p), p\<lparr>par_i := par_i p + n\<rparr>))"

definition mp_be :: "nat \<Rightarrow> nat \<Rightarrow> Parser \<Rightarrow> (nat \<times> Parser) outcome" where
  "mp_be W k p = obind (mp_take W k p) (\<lambda>(s, p). Ok (of_be s, p))"

definition mp_u8 :: "nat \<Rightarrow> Parser \<Rightarrow> (u8 \<times> Parser) outcome" where
  "mp_u8 W p = obind (mp_take W 1 p) (\<lambda>(s, p). Ok (s ! 0, p))"

definition to_signed :: "nat \<Rightarrow> nat \<Rightarrow> int" where
  "to_signed k n = (if 2 * n < 256 ^ k then int n else int n - 256 ^ k)"

definition mp_str_n :: "nat \<Rightarrow> nat \<Rightarrow> Parser \<Rightarrow> (Value \<times> Parser) outcome" where
  "mp_str_n W n p = obind (mp_take W n p) (\<lambda>(s, p). Ok (VStr (utf8_lossy s), p))"

definition mp_bin_n :: "nat \<Rightarrow> nat \<Rightarrow> Parser \<Rightarrow> (Value \<times> Parser) outcome" where
  "mp_bin_n W n p = obind (mp_take W n p) (\<lambda>(s, p). Ok (VBin s, p))"

definition mp_int :: "(nat \<Rightarrow> int) \<Rightarrow> (nat \<times> Parser) outcome \<Rightarrow> (Value \<times> Parser) outcome" where
  "mp_int f m = obind m (\<lambda>(n, p). Ok (VInt (f n), p))"

function (sequential) mp_value :: "nat \<Rightarrow> nat \<Rightarrow> Parser \<Rightarrow> (Value \<times> Parser) outcome"
  and mp_array :: "nat \<Rightarrow> nat \<Rightarrow> nat \<Rightarrow> Parser \<Rightarrow> (Value \<times> Parser) outcome"
  and mp_elems :: "nat \<Rightarrow> nat \<Rightarrow> nat \<Rightarrow> Parser \<Rightarrow> (Value list \<times> Parser) outcome"
  and mp_map :: "nat \<Rightarrow> nat \<Rightarrow> nat \<Rightarrow> (int \<times> Value) list \<Rightarrow> Parser \<Rightarrow> (Value \<times> Parser) outcome"
where
  "mp_value W 0 p = OutOfFuel"
| "mp_value W (Suc d) p =
     obind (mp_u8 W p) (\<lambda>(c, p).
       if c \<le> 0x7f then Ok (VInt (int (unat c)), p)
       else if 0xe0 \<le> c then Ok (VInt (to_signed 1 (unat c)), p)
       else if c \<le> 0x8f then mp_map W d (unat (c AND 0x0f)) [] p
       else if c \<le> 0x9f then mp_array W d (unat (c AND 0x0f)) p
       else if c \<le> 0xbf then mp_str_n W (unat (c AND 0x1f)) p
       else if c = 0xc0 then Ok (VNil, p)
       else if c = 0xc2 then Ok (VBool False, p)
       else if c = 0xc3 then Ok (VBool True, p)
       else if c = 0xc4 then obind (mp_be W 1 p) (\<lambda>(n, p). mp_bin_n W n p)
       else if c = 0xc5 then obind (mp_be W 2 p) (\<lambda>(n, p). mp_bin_n W n p)
       else if c = 0xc6 then obind (mp_be W 4 p) (\<lambda>(n, p). mp_bin_n W n p)
       else if c = 0xca then obind (mp_take W 4 p) (\<lambda>(s, p). Ok (VF64 (f64_of_f32 (of_be s)), p))
       else if c = 0xcb then obind (mp_take W 8 p) (\<lambda>(s, p). Ok (VF64 (of_nat (of_be s)), p))
       else if c = 0xcc then mp_int int (mp_be W 1 p)
       else if c = 0xcd then mp_int int (mp_be W 2 p)
       else if c = 0xce then mp_int int (mp_be W 4 p)
       else if c = 0xcf then mp_int (to_signed 8) (mp_be W 8 p)
       else if c = 0xd0 then mp_int (to_signed 1) (mp_be W 1 p)
       else if c = 0xd1 then mp_int (to_signed 2) (mp_be W 2 p)
       else if c = 0xd2 then mp_int (to_signed 4) (mp_be W 4 p)
       else if c = 0xd3 then mp_int (to_signed 8) (mp_be W 8 p)
       else if c = 0xd9 then obind (mp_be W 1 p) (\<lambda>(n, p). mp_str_n W n p)
       else if c = 0xda then obind (mp_be W 2 p) (\<lambda>(n, p). mp_str_n W n p)
       else if c = 0xdb then obind (mp_be W 4 p) (\<lambda>(n, p). mp_str_n W n p)
       else if c = 0xdc then obind (mp_be W 2 p) (\<lambda>(n, p). mp_array W d n p)
       else if c = 0xdd then obind (mp_be W 4 p) (\<lambda>(n, p). mp_array W d n p)
       else if c = 0xde then obind (mp_be W 2 p) (\<lambda>(n, p). mp_map W d n [] p)
       else if c = 0xdf then obind (mp_be W 4 p) (\<lambda>(n, p). mp_map W d n [] p)
       else Err ''unsupported msgpack type'')"
| "mp_array W d n p =
     (if n > length (par_b p) - par_i p then Err ''msgpack array length exceeds remaining input''
      else obind (mp_elems W d n p) (\<lambda>(v, p). Ok (VArray v, p)))"
| "mp_elems W d 0 p = Ok ([], p)"
| "mp_elems W d (Suc n) p =
     obind (mp_value W d p) (\<lambda>(v, p). obind (mp_elems W d n p) (\<lambda>(vs, p). Ok (v # vs, p)))"
| "mp_map W d 0 m p = Ok (VMap m, p)"
| "mp_map W d (Suc n) m p =
     obind (mp_value W d p) (\<lambda>(k, p).
       case k of
         VInt i \<Rightarrow> obind (mp_value W d p) (\<lambda>(v, p). mp_map W d n (bt_insert i v m) p)
       | _ \<Rightarrow> Err ''non-integer map key'')"
  by pat_completeness auto
termination
  by (relation "measures
        [\<lambda>x. case x of Inl (Inl (W, d, p)) \<Rightarrow> 2 * d | Inl (Inr (W, d, n, p)) \<Rightarrow> 2 * d + 1
               | Inr (Inl (W, d, n, p)) \<Rightarrow> 2 * d + 1 | Inr (Inr (W, d, n, m, p)) \<Rightarrow> 2 * d + 1,
         \<lambda>x. case x of Inl (Inl (W, d, p)) \<Rightarrow> 0 | Inl (Inr (W, d, n, p)) \<Rightarrow> Suc n
               | Inr (Inl (W, d, n, p)) \<Rightarrow> n | Inr (Inr (W, d, n, m, p)) \<Rightarrow> n]") auto

declare mp_value.simps [simp del] mp_array.simps [simp del]

definition mp_decode :: "nat \<Rightarrow> bytes \<Rightarrow> Value outcome" where
  "mp_decode W bs =
     obind (mp_value W (Suc (length bs)) \<lparr>par_b = bs, par_i = 0\<rparr>) (\<lambda>(v, p). Ok v)"

section \<open>Totality\<close>

text \<open>Parsing moves the index forward, within the input.\<close>

definition advanced :: "nat \<Rightarrow> Parser \<Rightarrow> Parser \<Rightarrow> bool" where
  "advanced k p p' \<longleftrightarrow> par_b p' = par_b p \<and> par_i p + k \<le> par_i p' \<and> par_i p' \<le> length (par_b p)"

abbreviation remaining :: "Parser \<Rightarrow> nat" where
  "remaining p \<equiv> length (par_b p) - par_i p"

definition narrow :: "nat \<Rightarrow> Parser \<Rightarrow> bool" where
  "narrow W p \<longleftrightarrow> 2 ^ W < length (par_b p) + 2 ^ 32"

lemma mp_take_sat:
  "par_i p \<le> length (par_b p) \<Longrightarrow> n < 2 ^ 32 \<Longrightarrow>
     outcome_sat (narrow W p) fu (\<lambda>(s, p'). length s = n \<and> advanced n p p') (mp_take W n p)"
  by (auto simp: mp_take_def advanced_def narrow_def)

lemma mp_u8_sat:
  "par_i p \<le> length (par_b p) \<Longrightarrow>
     outcome_sat (narrow W p) fu (\<lambda>(c, p'). advanced 1 p p') (mp_u8 W p)"
  unfolding mp_u8_def by (rule outcome_sat_bind [OF mp_take_sat]) auto

lemma mp_be_sat:
  assumes "par_i p \<le> length (par_b p)" "k < 2 ^ 32"
  shows "outcome_sat (narrow W p) fu (\<lambda>(n, p'). n < 256 ^ k \<and> advanced k p p') (mp_be W k p)"
  unfolding mp_be_def
  by (rule outcome_sat_bind [OF mp_take_sat [OF assms]]) (use of_be_bound in auto)

text \<open>The same facts for code that continues from a parser \<open>p\<close> that has already left \<open>p0\<close>.\<close>

lemma advanced_trans: "advanced k p0 p \<Longrightarrow> advanced l p p' \<Longrightarrow> advanced k p0 p'"
  by (simp add: advanced_def)

lemma advancedD:
  "advanced k p0 p \<Longrightarrow> par_i p \<le> length (par_b p)"
  "advanced k p0 p \<Longrightarrow> par_b p = par_b p0"
  "advanced 1 p0 p \<Longrightarrow> d \<le> remaining p \<Longrightarrow> Suc d \<le> remaining p0"
  "advanced k p0 p \<Longrightarrow> narrow W p = narrow W p0"
  by (auto simp: advanced_def narrow_def)

lemma mp_take_cont:
  assumes "advanced 1 p0 p" "n < 2 ^ 32"
    and "\<And>s p'. advanced 1 p0 p' \<Longrightarrow> outcome_sat (narrow W p0) fu Q (f (s, p'))"
  shows "outcome_sat (narrow W p0) fu Q (obind (mp_take W n p) f)"
  using mp_take_sat [OF advancedD(1) [OF assms(1)] assms(2), of W fu] assms
  by (auto simp: advancedD(4) [OF assms(1)] elim!: outcome_sat_bind dest: advanced_trans)

lemma mp_be_cont:
  assumes "advanced 1 p0 p" "k < 2 ^ 32"
    and "\<And>n p'. n < 256 ^ k \<Longrightarrow> advanced 1 p0 p' \<Longrightarrow> outcome_sat (narrow W p0) fu Q (f (n, p'))"
  shows "outcome_sat (narrow W p0) fu Q (obind (mp_be W k p) f)"
  using mp_be_sat [OF advancedD(1) [OF assms(1)] assms(2), of W fu] assms
  by (auto simp: advancedD(4) [OF assms(1)] elim!: outcome_sat_bind dest: advanced_trans)

lemma mp_str_cont:
  "advanced 1 p0 p \<Longrightarrow> n < 2 ^ 32 \<Longrightarrow>
     outcome_sat (narrow W p0) fu (\<lambda>(v, p'). advanced 1 p0 p') (mp_str_n W n p)"
  unfolding mp_str_n_def by (erule mp_take_cont) auto

lemma mp_bin_cont:
  "advanced 1 p0 p \<Longrightarrow> n < 2 ^ 32 \<Longrightarrow>
     outcome_sat (narrow W p0) fu (\<lambda>(v, p'). advanced 1 p0 p') (mp_bin_n W n p)"
  unfolding mp_bin_n_def by (erule mp_take_cont) auto

lemma mp_int_cont:
  "advanced 1 p0 p \<Longrightarrow> k < 2 ^ 32 \<Longrightarrow>
     outcome_sat (narrow W p0) fu (\<lambda>(v, p'). advanced 1 p0 p') (mp_int g (mp_be W k p))"
  unfolding mp_int_def by (erule mp_be_cont) auto

definition value_sat :: "nat \<Rightarrow> nat \<Rightarrow> bool" where
  "value_sat W d \<longleftrightarrow> (\<forall>p. par_i p \<le> length (par_b p) \<longrightarrow>
     outcome_sat (narrow W p) (d \<le> remaining p) (\<lambda>(v, p'). advanced 1 p p') (mp_value W d p))"

lemma value_sat_cont:
  assumes "value_sat W d" "advanced k p0 p"
    and "\<And>v p'. advanced k p0 p' \<Longrightarrow> outcome_sat (narrow W p0) (d \<le> remaining p0) Q (f (v, p'))"
  shows "outcome_sat (narrow W p0) (d \<le> remaining p0) Q (obind (mp_value W d p) f)"
proof (rule outcome_sat_bind)
  have le: "d \<le> remaining p \<Longrightarrow> d \<le> remaining p0" using assms(2) by (auto simp: advanced_def)
  from assms(1) advancedD(1) [OF assms(2)]
  have "outcome_sat (narrow W p) (d \<le> remaining p) (\<lambda>(v, p'). advanced 1 p p') (mp_value W d p)"
    by (simp add: value_sat_def)
  then show "outcome_sat (narrow W p0) (d \<le> remaining p0) (\<lambda>(v, p'). advanced 1 p p') (mp_value W d p)"
    by (rule outcome_sat_mono) (simp_all add: advancedD(4) [OF assms(2)] le)
qed (use assms(2,3) in \<open>auto dest: advanced_trans\<close>)

lemma mp_elems_sat:
  "value_sat W d \<Longrightarrow> advanced k p0 p \<Longrightarrow>
     outcome_sat (narrow W p0) (d \<le> remaining p0) (\<lambda>(v, p'). advanced k p0 p') (mp_elems W d n p)"
proof (induction n arbitrary: p)
  case (Suc n)
  then show ?case
    by (auto intro!: value_sat_cont outcome_sat_bind [OF Suc.IH])
qed simp

lemma mp_map_sat:
  "value_sat W d \<Longrightarrow> advanced k p0 p \<Longrightarrow>
     outcome_sat (narrow W p0) (d \<le> remaining p0) (\<lambda>(v, p'). advanced k p0 p') (mp_map W d n m p)"
proof (induction n arbitrary: p m)
  case (Suc n)
  then show ?case
    by (auto intro!: value_sat_cont split: Value.splits)
qed simp

lemma mp_array_sat:
  "value_sat W d \<Longrightarrow> advanced k p0 p \<Longrightarrow>
     outcome_sat (narrow W p0) (d \<le> remaining p0) (\<lambda>(v, p'). advanced k p0 p') (mp_array W d n p)"
  unfolding mp_array.simps
  by (intro outcome_sat_if) (auto intro!: outcome_sat_bind [OF mp_elems_sat])

text \<open>From a parser one byte further on, one unit of fuel less is enough.\<close>

lemma mp_nested_sat:
  assumes "value_sat W d" "advanced 1 p0 p"
  shows "outcome_sat (narrow W p0) (Suc d \<le> remaining p0) (\<lambda>(v, p'). advanced 1 p0 p') (mp_array W d n p)"
    "outcome_sat (narrow W p0) (Suc d \<le> remaining p0) (\<lambda>(v, p'). advanced 1 p0 p') (mp_map W d n m p)"
  using mp_array_sat [OF assms(1), of 0 p p n] mp_map_sat [OF assms(1), of 0 p p n m] assms(2)
  by (auto simp: advancedD(4) [OF assms(2)] advanced_def elim!: outcome_sat_mono)

lemma mp_value_sat: "value_sat W d"
proof (induction d)
  case 0
  show ?case by (simp add: value_sat_def mp_value.simps)
next
  case (Suc d)
  show ?case
    unfolding value_sat_def
  proof (intro allI impI)
    fix p :: Parser
    assume "par_i p \<le> length (par_b p)"
    note u8 = mp_u8_sat [OF this]
    show "outcome_sat (narrow W p) (Suc d \<le> remaining p) (\<lambda>(v, p'). advanced 1 p p')
        (mp_value W (Suc d) p)"
      unfolding mp_value.simps
      apply (rule outcome_sat_bind [OF u8])
      subgoal for x
        by (cases x) (auto simp only: prod.case small_fields outcome_sat_simps
          intro!: outcome_sat_if mp_str_cont mp_bin_cont mp_int_cont mp_be_cont mp_take_cont
            mp_nested_sat Suc.IH; simp)
      done
  qed
qed

lemma mp_decode_sat:
  "outcome_sat (2 ^ W < length bs + 2 ^ 32) False (\<lambda>v. True) (mp_decode W bs)"
  using mp_value_sat [of W "Suc (length bs)"]
  unfolding mp_decode_def value_sat_def
  by (intro outcome_sat_bind [of _ _ "\<lambda>_. True"])
    (auto simp: narrow_def elim!: outcome_sat_mono dest: spec [of _ "\<lparr>par_b = bs, par_i = 0\<rparr>"])

section \<open>Round trips\<close>

text \<open>The values the encoder and the decoder agree on: those the Rust types can hold and the wire
  format can express. A \<open>StrMap\<close> is encode-only.\<close>

function (sequential) mp_wf :: "Value \<Rightarrow> bool" where
  "mp_wf (VInt n) \<longleftrightarrow> - (2 ^ 63) \<le> n \<and> n < 2 ^ 63"
| "mp_wf (VStr s) \<longleftrightarrow> utf8_valid s \<and> length s < 2 ^ 32"
| "mp_wf (VBin b) \<longleftrightarrow> length b < 2 ^ 32"
| "mp_wf (VArray a) \<longleftrightarrow> length a < 2 ^ 32 \<and> (\<forall>x\<in>set a. mp_wf x)"
| "mp_wf (VMap m) \<longleftrightarrow> length m < 2 ^ 32 \<and> bt_wf m \<and>
     (\<forall>x\<in>set m. - (2 ^ 63) \<le> fst x \<and> fst x < 2 ^ 63 \<and> mp_wf (snd x))"
| "mp_wf (VStrMap m) \<longleftrightarrow> False"
| "mp_wf v \<longleftrightarrow> True"
  by pat_completeness auto
termination
  by (relation "measure size") (auto simp: size_snd less_Suc_eq_le size_list_estimation')

text \<open>A parser that has read \<open>pre\<close> and has \<open>rest\<close> before it.\<close>

definition parser_at :: "bytes \<Rightarrow> bytes \<Rightarrow> Parser" where
  "parser_at pre rest = \<lparr>par_b = pre @ rest, par_i = length pre\<rparr>"

lemma mp_take_at [codec]:
  "length pre + length xs + length ys < 2 ^ W \<Longrightarrow> n = length xs \<Longrightarrow>
     mp_take W n (parser_at pre (xs @ ys)) = Ok (xs, parser_at (pre @ xs) ys)"
  by (simp add: mp_take_def parser_at_def slice_def)

lemma mp_u8_at [codec]:
  "length pre + Suc (length ys) < 2 ^ W \<Longrightarrow>
     mp_u8 W (parser_at pre (c # ys)) = Ok (c, parser_at (pre @ [c]) ys)"
  using mp_take_at [of pre "[c]" ys W 1] by (simp add: mp_u8_def)

lemma mp_be_at [codec]:
  "length pre + k + length ys < 2 ^ W \<Longrightarrow> n < 256 ^ k \<Longrightarrow>
     mp_be W k (parser_at pre (be_bytes k n @ ys)) = Ok (n, parser_at (pre @ be_bytes k n) ys)"
  by (simp add: mp_be_def mp_take_at of_be_be_bytes_id)

lemma to_signed_signed:
  assumes "0 < k" "- (256 ^ k) \<le> 2 * n" "2 * n < 256 ^ k"
  shows "to_signed k (nat (n mod 256 ^ k)) = n" "nat (n mod 256 ^ k) < 256 ^ k"
proof -
  have nn: "0 \<le> n mod 256 ^ k" "n mod 256 ^ k < 256 ^ k" by simp_all
  then show "nat (n mod 256 ^ k) < 256 ^ k"
    by (metis nat_less_iff of_nat_numeral of_nat_power)
  have m: "n mod 256 ^ k = (if 0 \<le> n then n else n + 256 ^ k)"
  proof (cases "0 \<le> n")
    case True
    with assms(3) show ?thesis by simp
  next
    case False
    have "(n + 256 ^ k) mod 256 ^ k = n + 256 ^ k"
      using False assms(2) by (intro mod_pos_pos_trivial) auto
    with False show ?thesis by simp
  qed
  have "2 * nat (n mod 256 ^ k) < 256 ^ k \<longleftrightarrow> int (2 * nat (n mod 256 ^ k)) < int (256 ^ k)"
    by (rule of_nat_less_iff [symmetric])
  also have "\<dots> \<longleftrightarrow> 2 * (n mod 256 ^ k) < 256 ^ k" using nn by simp
  finally have "2 * nat (n mod 256 ^ k) < 256 ^ k \<longleftrightarrow> 2 * (n mod 256 ^ k) < 256 ^ k" .
  then show "to_signed k (nat (n mod 256 ^ k)) = n"
    using m assms nn by (auto simp: to_signed_def)
qed

text \<open>The one-byte tags carry their number in the low bits.\<close>

definition fix_tag :: "u8 \<Rightarrow> u8 \<Rightarrow> u8 \<Rightarrow> nat \<Rightarrow> bool" where
  "fix_tag b hi m n \<longleftrightarrow> \<not> b OR of_nat n \<le> 0x7f \<and> \<not> 0xe0 \<le> b OR of_nat n \<and> b OR of_nat n \<le> hi \<and>
     (0x8f < b \<longrightarrow> \<not> b OR of_nat n \<le> 0x8f) \<and> (0x9f < b \<longrightarrow> \<not> b OR of_nat n \<le> 0x9f) \<and>
     unat ((b OR of_nat n) AND m) = n"

lemma fix_tags:
  "n < 16 \<Longrightarrow> fix_tag 0x80 0x8f 0x0f n" "n < 16 \<Longrightarrow> fix_tag 0x90 0x9f 0x0f n"
  "n < 32 \<Longrightarrow> fix_tag 0xa0 0xbf 0x1f n"
proof -
  have "\<forall>n\<in>set [0..<16]. fix_tag 0x80 0x8f 0x0f n" "\<forall>n\<in>set [0..<16]. fix_tag 0x90 0x9f 0x0f n"
    "\<forall>n\<in>set [0..<32]. fix_tag 0xa0 0xbf 0x1f n" by code_simp+
  then show "n < 16 \<Longrightarrow> fix_tag 0x80 0x8f 0x0f n" "n < 16 \<Longrightarrow> fix_tag 0x90 0x9f 0x0f n"
    "n < 32 \<Longrightarrow> fix_tag 0xa0 0xbf 0x1f n" by (simp_all del: upt_rec_numeral)
qed

lemma word8_of_nat_cmp:
  "n < 256 \<Longrightarrow> unat (of_nat n :: u8) = n"
  "n < 256 \<Longrightarrow> m < 256 \<Longrightarrow> (of_nat n :: u8) \<le> of_nat m \<longleftrightarrow> n \<le> m"
  by (simp_all add: unat_of_nat word_le_nat_alt)

lemma be_bytes_1: "be_bytes 1 n = [of_nat n]"
  by (simp add: numeral_eq_Suc)

lemma mp_be_1_at [codec]:
  "length pre + Suc (length ys) < 2 ^ W \<Longrightarrow> n < 256 \<Longrightarrow>
     mp_be W (Suc 0) (parser_at pre (of_nat n # ys)) = Ok (n, parser_at (pre @ [of_nat n]) ys)"
  using mp_be_at [of pre 1 ys W n] by (simp add: be_bytes_1)

lemmas mp_at = mp_u8_at mp_be_at mp_be_1_at mp_take_at

lemma mp_value_u:
  assumes "n < 2 ^ 63" "length pre + length (write_u n) + length ys < 2 ^ W"
  shows "mp_value W (Suc d) (parser_at pre (write_u n @ ys)) =
    Ok (VInt (int n), parser_at (pre @ write_u n) ys)"
proof -
  have tag: "n < 128 \<Longrightarrow> (of_nat n :: u8) \<le> 0x7f"
    using word8_of_nat_cmp(2) [of n 127] by simp
  have s8: "to_signed 8 n = int n" using assms(1) by (simp add: to_signed_def)
  consider "n < 0x80" | "0x80 \<le> n" "n \<le> 0xFF" | "0xFF < n" "n \<le> 0xFFFF"
    | "0xFFFF < n" "n \<le> 0xFFFFFFFF" | "0xFFFFFFFF < n" by linarith
  then show ?thesis
    using assms
    by cases (simp_all add: write_u_def mp_value.simps mp_at mp_int_def tag
        word8_of_nat_cmp(1) s8)
qed

lemma mp_value_i:
  assumes "- (2 ^ 63) \<le> n" "n < 2 ^ 63" "length pre + length (write_i n) + length ys < 2 ^ W"
  shows "mp_value W (Suc d) (parser_at pre (write_i n @ ys)) =
    Ok (VInt n, parser_at (pre @ write_i n) ys)"
proof -
  have neg: "be_signed 1 n = [of_nat (nat (n + 256))]" "nat (n + 256) < 256" "224 \<le> nat (n + 256)"
      "to_signed 1 (nat (n + 256)) = n" if "- 32 \<le> n" "n < 0"
  proof -
    have "n mod 256 = n + 256"
      using that by (intro mod_pos_pos_trivial [of "n + 256" 256, simplified]) auto
    then show "be_signed 1 n = [of_nat (nat (n + 256))]" by (simp only: be_signed_def be_bytes_1 power_one_right)
  qed (use that in \<open>auto simp: to_signed_def\<close>)
  consider "0 \<le> n" | "n < 0" "- 32 \<le> n" | "n < - 32" "- 0x80 \<le> n" | "n < - 0x80" "- 0x8000 \<le> n"
    | "n < - 0x8000" "- 0x80000000 \<le> n" | "n < - 0x80000000" by linarith
  then show ?thesis
  proof cases
    case 1
    then show ?thesis using assms mp_value_u [of "nat n" pre ys W d] by (simp add: write_i_def)
  next
    case 2
    with neg obtain m where m: "be_signed 1 n = [of_nat m]" "m < 256" "224 \<le> m" "to_signed 1 m = n"
      by blast
    then have c: "\<not> (of_nat m :: u8) \<le> 0x7f" "0xe0 \<le> (of_nat m :: u8)"
      using word8_of_nat_cmp(2) [of m 127] word8_of_nat_cmp(2) [of 224 m] by simp_all
    from 2 assms c m show ?thesis
      by (simp add: write_i_def mp_value.simps mp_u8_at word8_of_nat_cmp(1))
  next
    case 3
    then have "to_signed 1 (nat (n mod 256 ^ 1)) = n" "nat (n mod 256 ^ 1) < 256 ^ 1"
      by (intro to_signed_signed; simp)+
    then obtain m where "be_signed 1 n = [of_nat m]" "m < 256" "to_signed 1 m = n"
      unfolding be_signed_def be_bytes_1 power_one_right by blast
    with 3 assms show ?thesis
      by (simp add: write_i_def mp_value.simps mp_at mp_int_def)
  next
    case 4
    with assms to_signed_signed [of 2 n] show ?thesis
      by (simp add: write_i_def mp_value.simps mp_at mp_int_def be_signed_def)
  next
    case 5
    with assms to_signed_signed [of 4 n] show ?thesis
      by (simp add: write_i_def mp_value.simps mp_at mp_int_def be_signed_def)
  next
    case 6
    with assms to_signed_signed [of 8 n] show ?thesis
      by (simp add: write_i_def mp_value.simps mp_at mp_int_def be_signed_def)
  qed
qed

lemma mp_value_str:
  assumes "utf8_valid s" "length s < 2 ^ 32"
    "length pre + length (str_header (length s)) + length s + length ys < 2 ^ W"
  shows "mp_value W (Suc d) (parser_at pre (str_header (length s) @ s @ ys)) =
    Ok (VStr s, parser_at (pre @ str_header (length s) @ s) ys)"
proof -
  consider "length s < 32" | "32 \<le> length s" "length s \<le> 0xFF"
    | "0xFF < length s" "length s \<le> 0xFFFF" | "0xFFFF < length s" by linarith
  then show ?thesis
  proof cases
    case 1
    with assms fix_tags(3) [OF 1, unfolded fix_tag_def] show ?thesis
      by (simp add: str_header_def mp_value.simps mp_at mp_str_n_def)
  qed (use assms in \<open>simp add: str_header_def mp_value.simps mp_at mp_str_n_def\<close>)+
qed

lemma mp_value_bin:
  assumes "length s < 2 ^ 32"
    "length pre + length (bin_header (length s)) + length s + length ys < 2 ^ W"
  shows "mp_value W (Suc d) (parser_at pre (bin_header (length s) @ s @ ys)) =
    Ok (VBin s, parser_at (pre @ bin_header (length s) @ s) ys)"
proof -
  consider "length s \<le> 0xFF" | "0xFF < length s" "length s \<le> 0xFFFF" | "0xFFFF < length s"
    by linarith
  then show ?thesis
    using assms by cases (simp_all add: bin_header_def mp_value.simps mp_at mp_bin_n_def)
qed

lemma mp_value_array:
  assumes "n < 2 ^ 32" "length pre + length (array_header n) + length ys < 2 ^ W"
  shows "mp_value W (Suc d) (parser_at pre (array_header n @ ys)) =
    mp_array W d n (parser_at (pre @ array_header n) ys)"
proof -
  consider "n < 16" | "16 \<le> n" "n \<le> 0xFFFF" | "0xFFFF < n" by linarith
  then show ?thesis
  proof cases
    case 1
    with assms fix_tags(2) [OF 1, unfolded fix_tag_def] show ?thesis
      by (auto simp: array_header_def mp_value.simps mp_at)
  qed (use assms in \<open>simp add: array_header_def mp_value.simps mp_at\<close>)+
qed

lemma mp_value_map:
  assumes "n < 2 ^ 32" "length pre + length (map_header n) + length ys < 2 ^ W"
  shows "mp_value W (Suc d) (parser_at pre (map_header n @ ys)) =
    mp_map W d n [] (parser_at (pre @ map_header n) ys)"
proof -
  consider "n < 16" | "16 \<le> n" "n \<le> 0xFFFF" | "0xFFFF < n" by linarith
  then show ?thesis
  proof cases
    case 1
    with assms fix_tags(1) [OF 1, unfolded fix_tag_def] show ?thesis
      by (simp add: map_header_def mp_value.simps mp_at)
  qed (use assms in \<open>simp add: map_header_def mp_value.simps mp_at\<close>)+
qed

lemma headers_ne [simp]:
  "str_header n \<noteq> []" "bin_header n \<noteq> []" "array_header n \<noteq> []" "map_header n \<noteq> []" "write_i k \<noteq> []"
  by (simp_all add: str_header_def bin_header_def array_header_def map_header_def write_i_def
      write_u_def be_signed_def)

lemma encode_into_ne [simp]: "encode_into v \<noteq> []"
  by (cases v) simp_all

lemma encode_fuel: "length (encode_into v) \<le> d \<Longrightarrow> \<exists>d'. d = Suc d'"
  by (cases d) auto

text \<open>Reading back an encoding of \<open>v\<close>, wherever it stands in the input.\<close>

definition reads_back :: "nat \<Rightarrow> nat \<Rightarrow> Value \<Rightarrow> bool" where
  "reads_back W d v \<longleftrightarrow> (\<forall>pre ys. length pre + length (encode_into v) + length ys < 2 ^ W \<longrightarrow>
     mp_value W d (parser_at pre (encode_into v @ ys)) = Ok (v, parser_at (pre @ encode_into v) ys))"

lemma reads_backD:
  "reads_back W d v \<Longrightarrow> length pre + length (encode_into v) + length ys < 2 ^ W \<Longrightarrow>
     mp_value W d (parser_at pre (encode_into v @ ys)) = Ok (v, parser_at (pre @ encode_into v) ys)"
  by (simp add: reads_back_def)

lemma mp_elems_reads:
  "\<forall>x\<in>set a. reads_back W d x \<Longrightarrow>
     length pre + length (concat (map encode_into a)) + length ys < 2 ^ W \<Longrightarrow>
     mp_elems W d (length a) (parser_at pre (concat (map encode_into a) @ ys)) =
       Ok (a, parser_at (pre @ concat (map encode_into a)) ys)"
proof (induction a arbitrary: pre)
  case (Cons x a)
  then have "mp_value W d (parser_at pre (encode_into x @ concat (map encode_into a) @ ys)) =
      Ok (x, parser_at (pre @ encode_into x) (concat (map encode_into a) @ ys))"
    by (intro reads_backD) auto
  with Cons.prems Cons.IH [of "pre @ encode_into x"] show ?case by simp
qed simp

abbreviation encode_entry :: "int \<times> Value \<Rightarrow> bytes" where
  "encode_entry x \<equiv> write_i (fst x) @ encode_into (snd x)"

lemma mp_map_reads:
  assumes "0 < d"
  shows "\<forall>x\<in>set m. - (2 ^ 63) \<le> fst x \<and> fst x < 2 ^ 63 \<and> reads_back W d (snd x) \<Longrightarrow>
     bt_wf (acc @ m) \<Longrightarrow> length pre + length (concat (map encode_entry m)) + length ys < 2 ^ W \<Longrightarrow>
     mp_map W d (length m) acc (parser_at pre (concat (map encode_entry m) @ ys)) =
       Ok (VMap (acc @ m), parser_at (pre @ concat (map encode_entry m)) ys)"
proof (induction m arbitrary: pre acc)
  case (Cons x m)
  obtain k v where x: "x = (k, v)" by fastforce
  obtain d' where d: "d = Suc d'" using assms by (cases d) auto
  let ?rest = "concat (map encode_entry m) @ ys"
  have key: "mp_value W d (parser_at pre (write_i k @ encode_into v @ ?rest)) =
      Ok (VInt k, parser_at (pre @ write_i k) (encode_into v @ ?rest))"
    using Cons.prems unfolding d by (intro mp_value_i) (auto simp: x)
  have val: "mp_value W d (parser_at (pre @ write_i k) (encode_into v @ ?rest)) =
      Ok (v, parser_at ((pre @ write_i k) @ encode_into v) ?rest)"
    using Cons.prems by (intro reads_backD) (auto simp: x)
  have "bt_insert k v acc = acc @ [(k, v)]"
    using Cons.prems(2) by (intro bt_insert_greatest) (auto simp: bt_wf_def x sorted_wrt_append)
  with key val Cons.prems Cons.IH [of "acc @ [(k, v)]" "(pre @ write_i k) @ encode_into v"]
  show ?case by (simp add: x)
qed simp

lemma concat_pos_length: "\<forall>x\<in>set a. f x \<noteq> [] \<Longrightarrow> length a \<le> length (concat (map f a))"
proof (induction a)
  case (Cons x a)
  then obtain y ys where "f x = y # ys" by (cases "f x") auto
  with Cons show ?case by simp
qed simp

lemma length_concat_elem: "x \<in> set a \<Longrightarrow> length (f x) \<le> length (concat (map f a))"
  by (induction a) auto

lemma nested_fuel:
  "h \<noteq> [] \<Longrightarrow> length (h @ concat (map f a)) \<le> Suc d \<Longrightarrow> x \<in> set a \<Longrightarrow> length (f x) \<le> d"
  using length_concat_elem [of x a f] by (cases h) simp_all

lemma encode_reads_back:
  "mp_wf v \<Longrightarrow> length (encode_into v) \<le> d \<Longrightarrow> reads_back W d v"
proof (induction v arbitrary: d)
  case (VInt n)
  then obtain d' where "d = Suc d'" using encode_fuel by blast
  with VInt show ?case by (simp add: reads_back_def mp_value_i)
next
  case (VF64 f)
  then obtain d' where "d = Suc d'" using encode_fuel by blast
  moreover have "unat f < 256 ^ 8" using unsigned_less [of f] by simp
  ultimately show ?case by (simp add: reads_back_def mp_value.simps mp_at of_be_be_bytes_id)
next
  case (VStr s)
  then obtain d' where "d = Suc d'" using encode_fuel by blast
  with VStr show ?case by (simp add: reads_back_def mp_value_str)
next
  case (VBin s)
  then obtain d' where "d = Suc d'" using encode_fuel by blast
  with VBin show ?case by (simp add: reads_back_def mp_value_bin)
next
  case (VArray a)
  then obtain d' where d: "d = Suc d'" using encode_fuel by blast
  have "\<forall>x\<in>set a. reads_back W d' x"
    using VArray nested_fuel [OF headers_ne(3), of "length a" encode_into a d'] by (simp add: d)
  moreover have "length a \<le> length (concat (map encode_into a))"
    by (rule concat_pos_length) simp
  ultimately show ?case
    using VArray.prems
    by (simp add: reads_back_def d mp_value_array mp_array.simps mp_elems_reads)
      (simp add: parser_at_def)
next
  case (VMap m)
  then obtain d' where d: "d = Suc d'" using encode_fuel by blast
  show ?case
  proof (cases "m = []")
    case True
    then show ?thesis by (simp add: reads_back_def d mp_value_map)
  next
    case False
    have len: "length (encode_entry x) \<le> d'" if "x \<in> set m" for x
      using VMap.prems(2) nested_fuel [OF headers_ne(4), of "length m" encode_entry m d' x] that
      by (simp add: d)
    have "0 < d'" using False len [of "hd m"] by (cases d') auto
    moreover have "\<forall>x\<in>set m. - (2 ^ 63) \<le> fst x \<and> fst x < 2 ^ 63 \<and> reads_back W d' (snd x)"
      using VMap len by (fastforce simp: snds.simps)
    ultimately show ?thesis
      using VMap.prems mp_map_reads [of d' m W "[]"]
      by (simp add: reads_back_def d mp_value_map)
  qed
next
  case VNil
  then show ?case by (cases d) (simp_all add: reads_back_def mp_value.simps mp_at)
next
  case (VBool b)
  then show ?case by (cases d) (auto simp: reads_back_def mp_value.simps mp_at split: if_splits)
qed simp

lemma decode_encode:
  assumes "mp_wf v" "length (mp_encode v) + length ys < 2 ^ W"
  shows "mp_decode W (mp_encode v @ ys) = Ok v"
proof -
  have "reads_back W (Suc (length (mp_encode v @ ys))) v"
    using assms(1) by (intro encode_reads_back) (simp_all add: mp_encode_def)
  from reads_backD [OF this, of "[]" ys] assms(2) show ?thesis
    by (simp add: mp_decode_def mp_encode_def parser_at_def)
qed

section \<open>Depth and width\<close>

text \<open>Each \<open>0x91\<close> opens an array of one element: the recursion goes one level down per byte.\<close>

lemma mp_value_nest:
  "length pre + Suc d < 2 ^ W \<Longrightarrow> mp_value W d (parser_at pre (replicate d 0x91 @ [0xc0])) = OutOfFuel"
proof (induction d arbitrary: pre)
  case (Suc d)
  from Suc.IH [of "pre @ [0x91]"] Suc.prems
  have "mp_elems W d 1 (parser_at (pre @ [0x91]) (replicate d 0x91 @ [0xc0])) = OutOfFuel" by simp
  moreover have "1 \<le> remaining (parser_at (pre @ [0x91]) (replicate d 0x91 @ [0xc0]))"
    by (simp add: parser_at_def)
  ultimately have "mp_array W d 1 (parser_at (pre @ [0x91]) (replicate d 0x91 @ [0xc0])) = OutOfFuel"
    by (simp add: mp_array.simps)
  with Suc.prems show ?case by (simp add: mp_value.simps mp_at)
qed (simp add: mp_value.simps)

lemma utf8_hi: "utf8_valid [0x68, 0x69]"
  by code_simp

lemma be_bytes_2: "be_bytes 2 n = [of_nat (n div 256), of_nat n]"
  by (simp add: numeral_2_eq_2)

lemma be_bytes_4:
  "be_bytes 4 n = [of_nat (n div 256 ^ 3), of_nat (n div 256 ^ 2), of_nat (n div 256), of_nat n]"
  using be_bytes.simps(2) [of 3 n] be_bytes.simps(2) [of 2 n]
  by (simp add: be_bytes_2)

lemma mp_value_wide_bin:
  assumes "256 ^ 4 - 6 < length pre + n" "n < 256 ^ 4" "length pre + 5 < 256 ^ 4"
  shows "mp_value 32 (Suc d) (parser_at pre (0xc6 # be_bytes 4 n)) = Panic"
  using assms mp_be_at [of "pre @ [0xc6]" 4 "[]" 32 n]
  by (simp add: mp_value.simps mp_at mp_bin_n_def mp_take_def) (simp add: parser_at_def)

lemma mp_decode_wide_bin:
  assumes "256 ^ 4 - 5 \<le> n" "n < 256 ^ 4"
  shows "mp_decode 32 (0xc6 # be_bytes 4 n) = Panic"
  using mp_value_wide_bin [of "[]" n "length (0xc6 # be_bytes 4 n)"] assms
  unfolding mp_decode_def parser_at_def by simp

section \<open>Properties\<close>

text \<open>
  C35. The codec round trip: every value the format can express, whatever its nesting, decodes to
  itself from its encoding, also when other bytes follow it.
\<close>

theorem msgpack_roundtrip:
  assumes "mp_wf v" "length (mp_encode v) + length ys < 2 ^ W"
  shows "mp_decode W (mp_encode v @ ys) = Ok v"
  using assms by (rule decode_encode)

theorem msgpack_roundtrip_witness:
  "mp_decode 32 (mp_encode (VArray [VInt (- 40000), VStr [0x68, 0x69], VMap [(- 1, VNil), (12, VBin [7])]])
     @ [0]) = Ok (VArray [VInt (- 40000), VStr [0x68, 0x69], VMap [(- 1, VNil), (12, VBin [7])]])"
proof (rule msgpack_roundtrip)
  show "mp_wf (VArray [VInt (- 40000), VStr [0x68, 0x69], VMap [(- 1, VNil), (12, VBin [7])]])"
    using utf8_hi by (simp add: bt_wf_def)
  have "length (mp_encode (VArray [VInt (- 40000), VStr [0x68, 0x69], VMap [(- 1, VNil), (12, VBin [7])]]))
      = 16"
    by (simp add: mp_encode_def write_i_def write_u_def array_header_def map_header_def str_header_def
        bin_header_def be_signed_def)
  then show "length (mp_encode (VArray [VInt (- 40000), VStr [0x68, 0x69], VMap [(- 1, VNil), (12, VBin [7])]]))
      + length [0 :: u8] < 2 ^ 32" by simp
qed

text \<open>
  C36. The decoder is total on untrusted input where pointers are wide enough: it always returns, a
  value or an error, and never panics if the address space exceeds the input by \<open>2 ^ 32\<close>, as
  it does with 64-bit pointers.
\<close>

theorem mp_decode_total:
  "mp_decode W bs \<noteq> OutOfFuel \<and>
   (mp_decode W bs = Panic \<longrightarrow> 2 ^ W < length bs + 2 ^ 32)"
  using mp_decode_sat [of W bs] by auto

theorem mp_decode_total_witness: "\<exists>r. mp_decode 32 [0xc6, 0xFF, 0xFF, 0xFF, 0xFF] = r \<and> r = Panic \<and>
    2 ^ 32 < length [0xc6 :: u8, 0xFF, 0xFF, 0xFF, 0xFF] + 2 ^ (32 :: nat)"
proof -
  have "be_bytes 4 (256 ^ 4 - 1) = [0xFF, 0xFF, 0xFF, 0xFF]" by (simp add: be_bytes_4)
  then have p: "mp_decode 32 [0xc6, 0xFF, 0xFF, 0xFF, 0xFF] = Panic"
    using mp_decode_wide_bin [of "256 ^ 4 - 1"] by simp
  with mp_decode_total [of 32 "[0xc6, 0xFF, 0xFF, 0xFF, 0xFF]"] show ?thesis by simp
qed

text \<open>
  C37. On the 32-bit target the decoder can be made to panic: a five-byte binary header whose length
  is within five of \<open>2 ^ 32\<close> overflows the bounds check. And it can be made to recurse to any
  depth: \<open>d\<close> bytes \<open>0x91\<close> need \<open>d\<close> nested calls.
\<close>

theorem mp_decode_hazards:
  "(256 ^ 4 - 5 \<le> n \<and> n < 256 ^ 4 \<longrightarrow> mp_decode 32 (0xc6 # be_bytes 4 n) = Panic) \<and>
   (Suc d < 2 ^ W \<longrightarrow>
      mp_value W d \<lparr>par_b = replicate d 0x91 @ [0xc0], par_i = 0\<rparr> = OutOfFuel)"
  using mp_decode_wide_bin [of n] mp_value_nest [of "[]" d W] by (simp add: parser_at_def)

theorem mp_decode_hazards_witness:
  "mp_decode 32 (0xc6 # be_bytes 4 (256 ^ 4 - 1)) = Panic \<and>
   mp_value 32 3 \<lparr>par_b = replicate 3 0x91 @ [0xc0], par_i = 0\<rparr> = OutOfFuel"
  using mp_decode_hazards [of "256 ^ 4 - 1" 3 32] by simp

end
