(* ===== verification/Stamp.thy ===== *)
theory Stamp
  imports Crypto Msgpack
begin

text \<open>
  The proof-of-work stamps of \<open>libs/lxmf/src/stamp.rs\<close>: the vendored SHA-256 compression, the
  workblock, and the mining loop over a midstate.

  The loop of \<open>generate_stamp\<close> ends only when a counter value reaches the cost, so \<open>mine\<close> is a partial
  function: \<open>None\<close> is a loop that never ends. The counter is a 64-bit word and wraps.
\<close>

section \<open>The code\<close>

definition WORKBLOCK_EXPAND_ROUNDS_PN :: nat where "WORKBLOCK_EXPAND_ROUNDS_PN = 1000"
definition WORKBLOCK_EXPAND_ROUNDS_DELIVERY :: nat where "WORKBLOCK_EXPAND_ROUNDS_DELIVERY = 3000"
definition STAMP_SIZE :: nat where [simp]: "STAMP_SIZE = 32"

definition H0 :: "u32 list" where
  "H0 = [0x6a09e667, 0xbb67ae85, 0x3c6ef372, 0xa54ff53a, 0x510e527f, 0x9b05688c, 0x1f83d9ab, 0x5be0cd19]"

text \<open>The round constants, one row of the source's table per list.\<close>

definition K256 :: "u32 list" where
  "K256 = concat [
    [0x428a2f98, 0x71374491, 0xb5c0fbcf, 0xe9b5dba5, 0x3956c25b, 0x59f111f1, 0x923f82a4, 0xab1c5ed5],
    [0xd807aa98, 0x12835b01, 0x243185be, 0x550c7dc3, 0x72be5d74, 0x80deb1fe, 0x9bdc06a7, 0xc19bf174],
    [0xe49b69c1, 0xefbe4786, 0x0fc19dc6, 0x240ca1cc, 0x2de92c6f, 0x4a7484aa, 0x5cb0a9dc, 0x76f988da],
    [0x983e5152, 0xa831c66d, 0xb00327c8, 0xbf597fc7, 0xc6e00bf3, 0xd5a79147, 0x06ca6351, 0x14292967],
    [0x27b70a85, 0x2e1b2138, 0x4d2c6dfc, 0x53380d13, 0x650a7354, 0x766a0abb, 0x81c2c92e, 0x92722c85],
    [0xa2bfe8a1, 0xa81a664b, 0xc24b8b70, 0xc76c51a3, 0xd192e819, 0xd6990624, 0xf40e3585, 0x106aa070],
    [0x19a4c116, 0x1e376c08, 0x2748774c, 0x34b0bcb5, 0x391c0cb3, 0x4ed8aa4a, 0x5b9cca4f, 0x682e6ff3],
    [0x748f82ee, 0x78a5636f, 0x84c87814, 0x8cc70208, 0x90befffa, 0xa4506ceb, 0xbef9a3f7, 0xc67178f2]]"

text \<open>\<open>u32::rotate_right\<close>, for a distance between 1 and 31, and \<open>u32::from_be_bytes\<close> at an offset.\<close>

definition rotr32 :: "nat \<Rightarrow> u32 \<Rightarrow> u32" where
  "rotr32 n w = drop_bit n w OR push_bit (32 - n) w"

definition u32_be :: "bytes \<Rightarrow> nat \<Rightarrow> u32" where
  "u32_be b i = push_bit 24 (ucast (b ! i)) OR push_bit 16 (ucast (b ! (i + 1)))
     OR push_bit 8 (ucast (b ! (i + 2))) OR ucast (b ! (i + 3))"

text \<open>The message schedule: 16 words of the block, then 48 more.\<close>

definition schedule_step :: "u32 list \<Rightarrow> nat \<Rightarrow> u32 list" where
  "schedule_step w i =
     (let s0 = rotr32 7 (w ! (i - 15)) XOR rotr32 18 (w ! (i - 15)) XOR drop_bit 3 (w ! (i - 15));
          s1 = rotr32 17 (w ! (i - 2)) XOR rotr32 19 (w ! (i - 2)) XOR drop_bit 10 (w ! (i - 2))
      in w @ [w ! (i - 16) + s0 + w ! (i - 7) + s1])"

definition schedule :: "bytes \<Rightarrow> u32 list" where
  "schedule block =
     foldl schedule_step (map (\<lambda>i. u32_be block (4 * i)) [0..<16]) [16..<64]"

definition compress_round :: "u32 list \<Rightarrow> u32 list \<Rightarrow> nat \<Rightarrow> u32 list" where
  "compress_round w h i =
     (let s1 = rotr32 6 (h ! 4) XOR rotr32 11 (h ! 4) XOR rotr32 25 (h ! 4);
          ch = (h ! 4 AND h ! 5) XOR (NOT (h ! 4) AND h ! 6);
          t1 = h ! 7 + s1 + ch + K256 ! i + w ! i;
          s0 = rotr32 2 (h ! 0) XOR rotr32 13 (h ! 0) XOR rotr32 22 (h ! 0);
          maj = (h ! 0 AND h ! 1) XOR (h ! 0 AND h ! 2) XOR (h ! 1 AND h ! 2);
          t2 = s0 + maj
      in [t1 + t2, h ! 0, h ! 1, h ! 2, h ! 3 + t1, h ! 4, h ! 5, h ! 6])"

definition compress :: "u32 list \<Rightarrow> bytes \<Rightarrow> u32 list" where
  "compress state block =
     (let w = schedule block;
          h = foldl (compress_round w) state [0..<64]
      in map (\<lambda>i. state ! i + h ! i) [0..<8])"

definition leading_zeros :: "u32 \<Rightarrow> nat" where
  "leading_zeros w = (if w = 0 then 32 else 31 - log2 (unat w))"

fun digest_leading_zeros :: "u32 list \<Rightarrow> nat" where
  "digest_leading_zeros [] = 0"
| "digest_leading_zeros (w # ws) = (if w = 0 then 32 + digest_leading_zeros ws else leading_zeros w)"

text \<open>One round of the expansion: 256 bytes.\<close>

definition expand_round :: "crypto \<Rightarrow> bytes \<Rightarrow> nat \<Rightarrow> bytes" where
  "expand_round C material n =
     (let salt_input = material @ mp_encode (VInt (int n));
          salt = full_hash C salt_input
      in hkdf C 256 material (Some salt) None)"

definition stamp_workblock :: "crypto \<Rightarrow> bytes \<Rightarrow> nat \<Rightarrow> bytes" where
  "stamp_workblock C material expand_rounds =
     foldl (\<lambda>wb n. wb @ expand_round C material n) [] [0..<expand_rounds]"

definition midstate :: "crypto \<Rightarrow> bytes \<Rightarrow> nat \<Rightarrow> u32 list" where
  "midstate C material expand_rounds =
     foldl (\<lambda>st n. foldl compress st (chunks_exact 64 (expand_round C material n))) H0 [0..<expand_rounds]"

text \<open>The final block: counter, zeros, \<open>0x80\<close>, zeros, bit length.\<close>

definition last_block :: "nat \<Rightarrow> u64 \<Rightarrow> bytes" where
  "last_block expand_rounds counter =
     be_bytes 8 (unat counter) @ replicate 24 0 @ [0x80] @ replicate 23 0
       @ be_bytes 8 ((expand_rounds * 256 + STAMP_SIZE) * 8)"

definition stamp_found :: "u32 list \<Rightarrow> nat \<Rightarrow> nat \<Rightarrow> u64 \<Rightarrow> bool" where
  "stamp_found mid expand_rounds cost counter \<longleftrightarrow>
     cost \<le> digest_leading_zeros (compress mid (last_block expand_rounds counter))"

partial_function (option) mine :: "u32 list \<Rightarrow> nat \<Rightarrow> nat \<Rightarrow> u64 \<Rightarrow> bytes option" where
  "mine mid expand_rounds cost counter =
     (if stamp_found mid expand_rounds cost counter
      then Some (take STAMP_SIZE (last_block expand_rounds counter))
      else mine mid expand_rounds cost (counter + 1))"

definition generate_stamp :: "crypto \<Rightarrow> bytes \<Rightarrow> nat \<Rightarrow> nat \<Rightarrow> bytes option" where
  "generate_stamp C material cost expand_rounds =
     mine (midstate C material expand_rounds) expand_rounds cost 0"

section \<open>SHA-256 as a specification\<close>

definition sha_pad :: "bytes \<Rightarrow> bytes" where
  "sha_pad m = m @ [0x80] @ replicate ((119 - length m mod 64) mod 64) 0 @ be_bytes 8 (8 * length m)"

definition sha256_state :: "bytes \<Rightarrow> u32 list" where
  "sha256_state m = foldl compress H0 (chunks_exact 64 (sha_pad m))"

text \<open>What the network checks of a stamp.\<close>

definition stamp_valid :: "crypto \<Rightarrow> bytes \<Rightarrow> nat \<Rightarrow> nat \<Rightarrow> bytes \<Rightarrow> bool" where
  "stamp_valid C material cost expand_rounds stamp \<longleftrightarrow>
     cost \<le> digest_leading_zeros (sha256_state (stamp_workblock C material expand_rounds @ stamp))"

definition counter_stamp :: "nat \<Rightarrow> bytes" where
  "counter_stamp n = be_bytes 8 n @ replicate 24 0"

section \<open>The midstate\<close>

lemma chunks_exact_append_dvd:
  "0 < n \<Longrightarrow> n dvd length xs \<Longrightarrow> chunks_exact n (xs @ ys) = chunks_exact n xs @ chunks_exact n ys"
proof (induction n xs rule: chunks_exact.induct)
  case (1 n xs)
  show ?case
  proof (cases "length xs < n")
    case True
    with "1.prems" have "xs = []" using nat_dvd_not_less by blast
    then show ?thesis using "1.prems" by (simp add: chunks_exact_short)
  next
    case False
    with 1 have "chunks_exact n (drop n xs @ ys) = chunks_exact n (drop n xs) @ chunks_exact n ys"
      by (simp add: dvd_minus_self)
    with False "1.prems" show ?thesis
      by (simp add: chunks_exact.simps [of n xs] chunks_exact.simps [of n "xs @ ys"])
  qed
qed

lemma length_expand_round [lens]: "sized C \<Longrightarrow> length (expand_round C m n) = 256"
  by (simp add: expand_round_def Let_def lens)

lemma stamp_workblock_Suc:
  "stamp_workblock C m (Suc r) = stamp_workblock C m r @ expand_round C m r"
  by (simp add: stamp_workblock_def)

lemma length_stamp_workblock [lens]: "sized C \<Longrightarrow> length (stamp_workblock C m r) = 256 * r"
  by (induction r) (simp_all add: stamp_workblock_Suc lens, simp add: stamp_workblock_def)

lemma midstate_eq:
  assumes "sized C"
  shows "midstate C m r = foldl compress H0 (chunks_exact 64 (stamp_workblock C m r))"
proof (induction r)
  case 0
  show ?case by (simp add: midstate_def stamp_workblock_def chunks_exact_short)
next
  case (Suc r)
  have "64 dvd length (stamp_workblock C m r)" using assms by (simp add: lens)
  then have "chunks_exact 64 (stamp_workblock C m (Suc r)) =
      chunks_exact 64 (stamp_workblock C m r) @ chunks_exact 64 (expand_round C m r)"
    by (simp add: stamp_workblock_Suc chunks_exact_append_dvd)
  with Suc show ?case by (simp add: midstate_def)
qed

lemma sha_pad_stamp:
  assumes "length wb = 256 * r" "length st = 32"
  shows "sha_pad (wb @ st) =
    wb @ (st @ [0x80] @ replicate 23 0 @ be_bytes 8 ((r * 256 + 32) * 8))"
proof -
  have "(119 - length (wb @ st) mod 64) mod 64 = 23"
  proof -
    have "length (wb @ st) = 64 * (4 * r) + 32" using assms by simp
    then have "length (wb @ st) mod 64 = 32 mod 64" by (simp only: mod_mult_self4)
    then show ?thesis by simp
  qed
  then show ?thesis using assms by (simp add: sha_pad_def algebra_simps)
qed

lemma sha256_state_stamp:
  assumes "sized C" "n < 2 ^ 64"
  shows "sha256_state (stamp_workblock C m r @ counter_stamp n) =
    compress (midstate C m r) (last_block r (of_nat n))"
proof -
  have len: "length (counter_stamp n) = 32" by (simp add: counter_stamp_def)
  have u: "unat (of_nat n :: u64) = n" using assms(2) by (simp add: unat_of_nat)
  have blk: "counter_stamp n @ [0x80] @ replicate 23 0 @ be_bytes 8 ((r * 256 + 32) * 8) =
      last_block r (of_nat n)"
    by (simp add: counter_stamp_def last_block_def u)
  have "chunks_exact 64 (stamp_workblock C m r @ last_block r (of_nat n)) =
      chunks_exact 64 (stamp_workblock C m r) @ [last_block r (of_nat n)]"
    using assms(1) chunks_exact_append [of "last_block r (of_nat n)" 64 "[]"]
    by (simp add: chunks_exact_append_dvd lens last_block_def chunks_exact_short)
  then show ?thesis
    unfolding sha256_state_def
      sha_pad_stamp [OF length_stamp_workblock [OF assms(1)] len] blk
    by (simp add: midstate_eq [OF assms(1)])
qed

section \<open>The mining loop\<close>

lemma mine_least:
  "(\<And>j. j < k \<Longrightarrow> \<not> stamp_found mid r cost (c + of_nat j)) \<Longrightarrow>
     stamp_found mid r cost (c + of_nat k) \<Longrightarrow>
     mine mid r cost c = Some (take 32 (last_block r (c + of_nat k)))"
proof (induction k arbitrary: c)
  case 0
  then show ?case by (simp add: mine.simps [of mid r cost c])
next
  case (Suc k)
  have "\<not> stamp_found mid r cost c" using Suc.prems(1) [of 0] by simp
  moreover have "mine mid r cost (c + 1) = Some (take 32 (last_block r (c + 1 + of_nat k)))"
    using Suc.prems(1) [of "Suc _"] Suc.prems(2) by (intro Suc.IH) (auto simp: add.assoc)
  ultimately show ?case by (simp add: mine.simps [of mid r cost c] add.assoc)
qed

lemma mine_Some_found: "mine mid r cost c = Some y \<Longrightarrow> \<exists>d. stamp_found mid r cost d"
  by (rule mine.raw_induct [of "\<lambda>mid r cost c y. \<exists>d. stamp_found mid r cost d"])
    (auto split: if_splits)

lemma mine_Some_iff:
  "mine mid r cost 0 = Some st \<longleftrightarrow>
     (\<exists>n < 2 ^ 64. stamp_found mid r cost (of_nat n) \<and> st = take 32 (last_block r (of_nat n)) \<and>
        (\<forall>j < n. \<not> stamp_found mid r cost (of_nat j)))"
proof
  assume m: "mine mid r cost 0 = Some st"
  then obtain d where "stamp_found mid r cost d" using mine_Some_found by blast
  then have ex: "stamp_found mid r cost (of_nat (unat d))" by simp
  define n where "n = (LEAST n. stamp_found mid r cost (of_nat n))"
  have n: "stamp_found mid r cost (of_nat n)" "n \<le> unat d"
    using LeastI [of "\<lambda>n. stamp_found mid r cost (of_nat n)", OF ex] Least_le [of "\<lambda>n. stamp_found mid r cost (of_nat n)", OF ex]
    by (simp_all add: n_def)
  have least: "\<not> stamp_found mid r cost (of_nat j)" if "j < n" for j
    using that not_less_Least unfolding n_def by blast
  have "n < 2 ^ 64" 
  proof -
    have "unat d < 2 ^ 64" using unsigned_less [of d] by simp
    with n(2) show ?thesis by simp
  qed
  then show "\<exists>n < 2 ^ 64. stamp_found mid r cost (of_nat n) \<and> st = take 32 (last_block r (of_nat n)) \<and>
      (\<forall>j < n. \<not> stamp_found mid r cost (of_nat j))"
    using n(1) least mine_least [of n mid r cost 0] m by auto
next
  assume "\<exists>n < 2 ^ 64. stamp_found mid r cost (of_nat n) \<and> st = take 32 (last_block r (of_nat n)) \<and>
      (\<forall>j < n. \<not> stamp_found mid r cost (of_nat j))"
  then show "mine mid r cost 0 = Some st" using mine_least [of _ mid r cost 0] by auto
qed

lemma stamp_found_iff:
  "sized C \<Longrightarrow> n < 2 ^ 64 \<Longrightarrow>
     stamp_found (midstate C m r) r cost (of_nat n) = stamp_valid C m cost r (counter_stamp n)"
  by (simp add: stamp_found_def stamp_valid_def sha256_state_stamp)

lemma take_last_block:
  "n < 2 ^ 64 \<Longrightarrow> take 32 (last_block r (of_nat n)) = counter_stamp n"
  by (simp add: last_block_def counter_stamp_def unat_of_nat)

lemma generate_stamp_Some:
  assumes "sized C" "generate_stamp C m cost r = Some st"
  shows "length st = 32 \<and> stamp_valid C m cost r st"
  using assms
  by (auto simp: generate_stamp_def mine_Some_iff stamp_found_iff take_last_block counter_stamp_def)

section \<open>Properties\<close>

text \<open>
  C38. Mining is exact. \<open>generate_stamp\<close> returns a stamp if and only if some 64-bit counter gives
  a valid one, and then it returns the one of the least such counter, where a stamp is
  valid when the SHA-256 digest of the whole workblock followed by the stamp has the required leading
  zero bits. The code never builds that workblock: it folds it into the midstate.
\<close>

theorem generate_stamp_exact:
  assumes "sized C"
  shows "generate_stamp C m cost r = Some st \<longleftrightarrow>
    (\<exists>n < 2 ^ 64. st = counter_stamp n \<and> stamp_valid C m cost r st \<and>
       (\<forall>k < n. \<not> stamp_valid C m cost r (counter_stamp k)))"
proof -
  show ?thesis
    unfolding generate_stamp_def mine_Some_iff
  proof (rule ex_cong1, rule conj_cong [OF refl])
    fix n :: nat
    assume n: "n < 2 ^ 64"
    have "\<not> stamp_found (midstate C m r) r cost (of_nat j) \<longleftrightarrow> \<not> stamp_valid C m cost r (counter_stamp j)"
      if "j < n" for j using stamp_found_iff [OF assms less_trans [OF that n]] by simp
    with n show "stamp_found (midstate C m r) r cost (of_nat n) \<and> st = take 32 (last_block r (of_nat n)) \<and>
        (\<forall>j < n. \<not> stamp_found (midstate C m r) r cost (of_nat j)) \<longleftrightarrow>
      st = counter_stamp n \<and> stamp_valid C m cost r st \<and>
        (\<forall>k < n. \<not> stamp_valid C m cost r (counter_stamp k))"
      unfolding stamp_found_iff [OF assms n] take_last_block [OF n] by auto
  qed
qed

theorem generate_stamp_exact_witness:
  "generate_stamp demo [1, 2] 0 1000 = Some (counter_stamp 0) \<and>
   stamp_valid demo [1, 2] 0 1000 (counter_stamp 0)"
proof -
  have v: "stamp_valid demo [1, 2] 0 1000 (counter_stamp 0)" by (simp add: stamp_valid_def)
  then have "\<exists>n < 2 ^ 64. counter_stamp 0 = counter_stamp n \<and>
      stamp_valid demo [1, 2] 0 1000 (counter_stamp 0) \<and>
      (\<forall>k < n. \<not> stamp_valid demo [1, 2] 0 1000 (counter_stamp k))"
    by (intro exI [of _ 0]) simp
  with v show ?thesis
    using generate_stamp_exact [OF demo_sized, of "[1, 2]" 0 1000 "counter_stamp 0"] by blast
qed

end
