(* ===== verification/Message.thy ===== *)
theory Message
  imports Identity Stamp
begin

text \<open>
  LXMF messages, \<open>libs/lxmf/src/message.rs\<close>: packing and signing, ticket and proof-of-work stamps, the
  propagation envelope, and parsing with signature validation.

  Parsing decodes untrusted MessagePack, so it takes the pointer width \<open>W\<close> of the decoder and can
  panic where the decoder can.
\<close>

section \<open>The code\<close>

definition DEST_LEN :: nat where [simp]: "DEST_LEN = TRUNCATED_HASHLENGTH"
definition TICKET_LENGTH :: nat where [simp]: "TICKET_LENGTH = TRUNCATED_HASHLENGTH"
definition FIELD_TICKET :: int where [simp]: "FIELD_TICKET = 0x0C"

type_synonym Fields = "(int \<times> Value) list"

record InboundTicket =
  expires :: nat
  ticket :: bytes

definition extract_ticket :: "Fields \<Rightarrow> InboundTicket option" where
  "extract_ticket fs =
     (case map_of fs FIELD_TICKET of
        None \<Rightarrow> None
      | Some v \<Rightarrow>
          (case as_array v of
             None \<Rightarrow> None
           | Some arr \<Rightarrow>
               if length arr < 2 then None
               else (case as_f64 (arr ! 0) of
                       None \<Rightarrow> None
                     | Some ex \<Rightarrow>
                         if \<not> (f64_is_finite ex \<and> f64_positive ex) then None
                         else (case as_bin (arr ! 1) of
                                 None \<Rightarrow> None
                               | Some tb \<Rightarrow>
                                   if length tb \<noteq> TICKET_LENGTH then None
                                   else Some \<lparr>expires = f64_to_u64 ex, ticket = tb\<rparr>))))"

record PackedMessage =
  pm_message_id :: bytes
  packed :: bytes

definition opportunistic_plaintext :: "PackedMessage \<Rightarrow> bytes" where
  "opportunistic_plaintext m = drop DEST_LEN (packed m)"

definition pack_payload :: "u64 \<Rightarrow> bytes \<Rightarrow> bytes \<Rightarrow> Fields \<Rightarrow> bytes" where
  "pack_payload timestamp title content fs =
     mp_encode (VArray [VF64 timestamp, VBin title, VBin content, VMap fs])"

definition pack ::
  "crypto \<Rightarrow> PrivateIdentity \<Rightarrow> bytes \<Rightarrow> bytes \<Rightarrow> u64 \<Rightarrow> bytes \<Rightarrow> bytes \<Rightarrow> Fields \<Rightarrow> bytes option
     \<Rightarrow> PackedMessage" where
  "pack C source dest_hash source_hash timestamp title content fs outbound_ticket =
     (let packed_payload = pack_payload timestamp title content fs;
          hashed_part = dest_hash @ source_hash @ packed_payload;
          message_id = full_hash C hashed_part;
          signed_part = hashed_part @ message_id;
          signature = sign C source signed_part;
          wire_payload =
            (case outbound_ticket of
               Some tk \<Rightarrow>
                 let stamp = truncated_hash C (tk @ message_id)
                 in mp_encode (VArray [VF64 timestamp, VBin title, VBin content, VMap fs, VBin stamp])
             | None \<Rightarrow> packed_payload)
      in \<lparr>pm_message_id = message_id, packed = dest_hash @ source_hash @ signature @ wire_payload\<rparr>)"

definition append_stamp :: "nat \<Rightarrow> bytes \<Rightarrow> bytes \<Rightarrow> bytes option outcome" where
  "append_stamp W msg stamp =
     (if length msg \<le> 2 * DEST_LEN + SIG_LENGTH then Ok None
      else
        let head = take (2 * DEST_LEN + SIG_LENGTH) msg;
            payload = drop (2 * DEST_LEN + SIG_LENGTH) msg
        in case mp_decode W payload of
             Ok (VArray a) \<Rightarrow>
               if length a = 4 then Ok (Some (head @ mp_encode (VArray (a @ [VBin stamp])))) else Ok None
           | Ok _ \<Rightarrow> Ok None
           | Err _ \<Rightarrow> Ok None
           | Panic \<Rightarrow> Panic
           | OutOfFuel \<Rightarrow> OutOfFuel)"

text \<open>\<open>None\<close> when the mining of the propagation stamp does not end.\<close>

definition pack_propagation ::
  "crypto \<Rightarrow> PublicIdentity \<Rightarrow> bytes \<Rightarrow> bytes \<Rightarrow> bytes option \<Rightarrow> bytes \<Rightarrow> bytes \<Rightarrow> u64 \<Rightarrow> nat
     \<Rightarrow> bytes option" where
  "pack_propagation C recipient recipient_dest_hash plaintext ratchet eph iv transfer_timestamp
       propagation_cost =
     (let pn_encrypted = identity_encrypt C recipient plaintext eph iv ratchet;
          lxmf_data = recipient_dest_hash @ pn_encrypted;
          envelope = (\<lambda>d. mp_encode (VArray [VF64 transfer_timestamp, VArray [VBin d]]))
      in if propagation_cost > 0 then
           let transient_id = full_hash C lxmf_data
           in case generate_stamp C transient_id propagation_cost WORKBLOCK_EXPAND_ROUNDS_PN of
                None \<Rightarrow> None
              | Some stamp \<Rightarrow> Some (envelope (lxmf_data @ stamp))
         else Some (envelope lxmf_data))"

record ParsedMessage =
  message_id :: bytes
  msg_destination_hash :: bytes
  msg_source_hash :: bytes
  timestamp :: u64
  title :: bytes
  content :: bytes
  msg_fields :: Fields
  signature_validated :: bool

definition title_string :: "ParsedMessage \<Rightarrow> bytes" where
  "title_string m = utf8_lossy (title m)"

definition content_string :: "ParsedMessage \<Rightarrow> bytes" where
  "content_string m = utf8_lossy (content m)"

datatype ParseError = TooShort | BadPayload

text \<open>The part of \<open>parse\<close> after the payload has been decoded to an array.\<close>

definition parse_payload ::
  "crypto \<Rightarrow> PublicIdentity option \<Rightarrow> bytes \<Rightarrow> bytes \<Rightarrow> bytes \<Rightarrow> bytes \<Rightarrow> Value list
     \<Rightarrow> (ParseError + ParsedMessage)" where
  "parse_payload C source_identity dest_hash source_hash signature packed_payload arr0 =
     (let (arr, packed_payload) =
            (if length arr0 > 4 then (take 4 arr0, mp_encode (VArray (take 4 arr0)))
             else (arr0, packed_payload))
      in case as_f64 (arr ! 0) of
           None \<Rightarrow> Inl BadPayload
         | Some ts \<Rightarrow>
             let ti = (case as_bin (arr ! 1) of Some b \<Rightarrow> b | None \<Rightarrow> []);
                 co = (case as_bin (arr ! 2) of Some b \<Rightarrow> b | None \<Rightarrow> []);
                 fi = (case arr ! 3 of VMap m \<Rightarrow> m | _ \<Rightarrow> []);
                 hashed_part = dest_hash @ source_hash @ packed_payload;
                 mid = full_hash C hashed_part;
                 signed_part = hashed_part @ mid;
                 validated = (case source_identity of
                                Some i \<Rightarrow> validate C i signature signed_part | None \<Rightarrow> False)
             in Inr \<lparr>message_id = mid, msg_destination_hash = dest_hash, msg_source_hash = source_hash,
                  timestamp = ts, title = ti, content = co, msg_fields = fi,
                  signature_validated = validated\<rparr>)"

definition parse ::
  "nat \<Rightarrow> crypto \<Rightarrow> bytes \<Rightarrow> PublicIdentity option \<Rightarrow> (ParseError + ParsedMessage) outcome" where
  "parse W C lxmf_bytes source_identity =
     (let header = 2 * DEST_LEN + SIG_LENGTH
      in if length lxmf_bytes < header then Ok (Inl TooShort)
         else
           let dest_hash = take DEST_LEN lxmf_bytes;
               source_hash = slice DEST_LEN (2 * DEST_LEN) lxmf_bytes;
               signature = slice (2 * DEST_LEN) header lxmf_bytes;
               packed_payload = drop header lxmf_bytes
           in case mp_decode W packed_payload of
                Ok (VArray a) \<Rightarrow>
                  if length a \<ge> 4
                  then Ok (parse_payload C source_identity dest_hash source_hash signature packed_payload a)
                  else Ok (Inl BadPayload)
              | Ok _ \<Rightarrow> Ok (Inl BadPayload)
              | Err _ \<Rightarrow> Ok (Inl BadPayload)
              | Panic \<Rightarrow> Panic
              | OutOfFuel \<Rightarrow> OutOfFuel)"

section \<open>Packing, stamping and parsing\<close>

definition payload_values :: "u64 \<Rightarrow> bytes \<Rightarrow> bytes \<Rightarrow> Fields \<Rightarrow> Value list" where
  "payload_values ts ti co fi = [VF64 ts, VBin ti, VBin co, VMap fi]"

lemma payload_values_simps [simp]:
  "length (payload_values ts ti co fi) = 4"
  "payload_values ts ti co fi ! 0 = VF64 ts" "payload_values ts ti co fi ! Suc 0 = VBin ti"
  "payload_values ts ti co fi ! 2 = VBin co" "payload_values ts ti co fi ! 3 = VMap fi"
  by (simp_all add: payload_values_def)

text \<open>The signed message: what the sender signs and the receiver recomputes.\<close>

definition hashed_part :: "bytes \<Rightarrow> bytes \<Rightarrow> u64 \<Rightarrow> bytes \<Rightarrow> bytes \<Rightarrow> Fields \<Rightarrow> bytes" where
  "hashed_part d s ts ti co fi = d @ s @ pack_payload ts ti co fi"

definition stamped :: "bytes \<Rightarrow> bytes \<Rightarrow> bytes \<Rightarrow> Value list \<Rightarrow> bytes" where
  "stamped d s sg vs = d @ s @ sg @ mp_encode (VArray vs)"

lemma pack_payload_eq: "pack_payload ts ti co fi = mp_encode (VArray (payload_values ts ti co fi))"
  by (simp add: pack_payload_def payload_values_def)

lemma pack_eq:
  fixes C d s ts ti co fi
  defines "h \<equiv> hashed_part d s ts ti co fi"
  shows "pm_message_id (pack C i d s ts ti co fi tk) = full_hash C h"
    "packed (pack C i d s ts ti co fi tk) = stamped d s (sign C i (h @ full_hash C h))
       (payload_values ts ti co fi @
         (case tk of None \<Rightarrow> [] | Some t \<Rightarrow> [VBin (truncated_hash C (t @ full_hash C h))]))"
  by (auto simp: pack_def Let_def hashed_part_def h_def stamped_def pack_payload_def payload_values_def
      split: option.splits)

lemma split_header:
  assumes "length d = 16" "length s = 16" "length sg = 64"
  shows "take 16 (d @ s @ sg @ p) = d" "slice 16 32 (d @ s @ sg @ p) = s"
    "slice 32 96 (d @ s @ sg @ p) = sg" "drop 96 (d @ s @ sg @ p) = p"
    "take 96 (d @ s @ sg @ p) = d @ s @ sg"
  using assms by (simp_all add: slice_def)

text \<open>A stamp after the four elements is stripped again: the receiver re-encodes what was signed.\<close>

lemma parse_stamped:
  assumes "length d = 16" "length s = 16" "length sg = 64"
    and "mp_wf (VArray (payload_values ts ti co fi @ rest))"
    and "length (mp_encode (VArray (payload_values ts ti co fi @ rest))) < 2 ^ W"
  shows "parse W C (stamped d s sg (payload_values ts ti co fi @ rest)) src =
    Ok (Inr \<lparr>message_id = full_hash C (hashed_part d s ts ti co fi),
             msg_destination_hash = d, msg_source_hash = s,
             timestamp = ts, title = ti, content = co, msg_fields = fi,
             signature_validated = (case src of None \<Rightarrow> False | Some i \<Rightarrow>
               validate C i sg (hashed_part d s ts ti co fi @ full_hash C (hashed_part d s ts ti co fi)))\<rparr>)"
proof -
  let ?vs = "payload_values ts ti co fi"
  have dec: "mp_decode W (mp_encode (VArray (?vs @ rest))) = Ok (VArray (?vs @ rest))"
    using decode_encode [OF assms(4), of "[]" W] assms(5) by simp
  have "parse_payload C src d s sg (mp_encode (VArray (?vs @ rest))) (?vs @ rest) =
      parse_payload C src d s sg (mp_encode (VArray ?vs)) ?vs"
    by (cases rest) (simp_all add: parse_payload_def)
  also have "\<dots> = Inr \<lparr>message_id = full_hash C (hashed_part d s ts ti co fi),
      msg_destination_hash = d, msg_source_hash = s, timestamp = ts, title = ti, content = co,
      msg_fields = fi, signature_validated = (case src of None \<Rightarrow> False | Some i \<Rightarrow>
        validate C i sg (hashed_part d s ts ti co fi @ full_hash C (hashed_part d s ts ti co fi)))\<rparr>"
    by (cases src) (simp_all add: parse_payload_def Let_def hashed_part_def pack_payload_eq)
  finally have pl: "parse_payload C src d s sg (mp_encode (VArray (?vs @ rest))) (?vs @ rest) = \<dots>" .
  show ?thesis
    using assms(1-3) dec pl
    by (simp add: parse_def stamped_def Let_def split_header)
qed

lemma append_stamp_stamped:
  assumes "length d = 16" "length s = 16" "length sg = 64"
    and "mp_wf (VArray vs)" "length (mp_encode (VArray vs)) < 2 ^ W"
  shows "append_stamp W (stamped d s sg vs) st =
    Ok (if length vs = 4 then Some (stamped d s sg (vs @ [VBin st])) else None)"
proof -
  have "mp_decode W (mp_encode (VArray vs)) = Ok (VArray vs)"
    using decode_encode [OF assms(4), of "[]" W] assms(5) by simp
  moreover have "0 < length (mp_encode (VArray vs))" by (simp add: mp_encode_def)
  ultimately show ?thesis
    using assms(1-3) by (simp add: append_stamp_def stamped_def Let_def split_header)
qed

declare validate_sign [simp]

text \<open>The messages a sender can pack: fields in the format's range, within the decoder's reach.\<close>

definition message_ok :: "nat \<Rightarrow> u64 \<Rightarrow> bytes \<Rightarrow> bytes \<Rightarrow> Fields \<Rightarrow> bool" where
  "message_ok W ts ti co fi \<longleftrightarrow> mp_wf (VMap fi) \<and> length ti < 2 ^ 32 \<and> length co < 2 ^ 32 \<and>
     length (pack_payload ts ti co fi) + 64 < 2 ^ W"

lemma length_mp_encode_snoc:
  "length vs < 15 \<Longrightarrow>
     length (mp_encode (VArray (vs @ [v]))) = length (mp_encode (VArray vs)) + length (mp_encode v)"
  by (simp add: mp_encode_def array_header_def)

lemma message_ok_stamped:
  assumes "message_ok W ts ti co fi" "length st \<le> 32"
  shows "mp_wf (VArray (payload_values ts ti co fi @ [VBin st]))"
    "length (mp_encode (VArray (payload_values ts ti co fi @ [VBin st]))) < 2 ^ W"
    "mp_wf (VArray (payload_values ts ti co fi))"
    "length (mp_encode (VArray (payload_values ts ti co fi))) < 2 ^ W"
proof -
  have "length (mp_encode (VBin st)) \<le> 34"
    using assms(2) by (simp add: mp_encode_def bin_header_def)
  then show "length (mp_encode (VArray (payload_values ts ti co fi @ [VBin st]))) < 2 ^ W"
    using assms(1) length_mp_encode_snoc [of "payload_values ts ti co fi" "VBin st"]
    by (simp add: message_ok_def pack_payload_eq)
qed (use assms in \<open>auto simp: message_ok_def payload_values_def pack_payload_def\<close>)

section \<open>Properties\<close>

lemma parse_pack:
  assumes "sized C" "signs C" "identity_ok C i" "length d = 16" "length s = 16"
    and "message_ok W ts ti co fi"
    and "m = pack C i d s ts ti co fi tk"
  shows "parse W C (packed m) (Some (public i)) =
    Ok (Inr \<lparr>message_id = pm_message_id m, msg_destination_hash = d, msg_source_hash = s,
             timestamp = ts, title = ti, content = co, msg_fields = fi, signature_validated = True\<rparr>)"
proof (cases tk)
  case None
  with assms parse_stamped [where rest = "[]"] message_ok_stamped [OF assms(6), of "[]"] show ?thesis
    by (simp add: pack_eq lens)
next
  case (Some t)
  define st where "st = truncated_hash C (t @ full_hash C (hashed_part d s ts ti co fi))"
  have "length st = 16" using assms(1) by (simp add: st_def lens)
  with Some assms parse_stamped [where rest = "[VBin st]"] message_ok_stamped [OF assms(6), of st]
  show ?thesis
    by (simp add: pack_eq lens st_def)
qed

text \<open>
  C39. A packed message, with or without a ticket stamp, parses at the recipient to exactly its
  timestamp, title, content and fields, under the message id the sender computed, and its
  signature validates against the sender's identity.
\<close>

theorem message_roundtrip:
  assumes "sized C" "signs C" "identity_ok C i" "length d = 16" "length s = 16"
    and "message_ok W ts ti co fi"
    and "m = pack C i d s ts ti co fi tk"
  shows "parse W C (packed m) (Some (public i)) =
    Ok (Inr \<lparr>message_id = pm_message_id m, msg_destination_hash = d, msg_source_hash = s,
             timestamp = ts, title = ti, content = co, msg_fields = fi, signature_validated = True\<rparr>)"
  by (rule parse_pack [OF assms])

theorem message_roundtrip_witness:
  "let i = from_bytes demo (replicate 32 5) (replicate 32 6);
       m = pack demo i (replicate 16 1) (replicate 16 2) 0 [0x68] [0x69] [(12, VNil)] (Some (replicate 16 3))
   in parse 32 demo (packed m) (Some (public i)) =
     Ok (Inr \<lparr>message_id = pm_message_id m, msg_destination_hash = replicate 16 1,
              msg_source_hash = replicate 16 2, timestamp = 0, title = [0x68], content = [0x69],
              msg_fields = [(12, VNil)], signature_validated = True\<rparr>)"
proof -
  have "message_ok 32 0 [0x68] [0x69] [(12, VNil)]"
    by (simp add: message_ok_def bt_wf_def pack_payload_def mp_encode_def array_header_def
        bin_header_def map_header_def write_i_def write_u_def)
  then show ?thesis
    unfolding Let_def by (intro message_roundtrip [OF demo_sized demo_signs]) simp_all
qed

text \<open>
  Stamping later changes nothing that is signed. Appending a mined stamp to a packed message
  without one succeeds, and the stamped message parses to the same message, with the
  same id and a valid signature; a message that already has a stamp is refused.
\<close>

theorem append_stamp_preserves:
  assumes "sized C" "signs C" "identity_ok C i" "length d = 16" "length s = 16" "length st = 32"
    and "message_ok W ts ti co fi"
    and "m = pack C i d s ts ti co fi None" "m' = pack C i d s ts ti co fi (Some tk)"
  shows "\<exists>b. append_stamp W (packed m) st = Ok (Some b) \<and>
      parse W C b (Some (public i)) = parse W C (packed m) (Some (public i)) \<and>
      append_stamp W (packed m') st = Ok None"
proof -
  note ok = message_ok_stamped [OF assms(7)]
  define ts' where "ts' = truncated_hash C (tk @ full_hash C (hashed_part d s ts ti co fi))"
  have "length ts' \<le> 32" using assms(1) by (simp add: ts'_def lens)
  with assms ok [of st] ok [of ts'] append_stamp_stamped [of d s _ "payload_values ts ti co fi"]
    append_stamp_stamped [of d s _ "payload_values ts ti co fi @ [VBin ts']"]
    parse_stamped [where rest = "[]"] parse_stamped [where rest = "[VBin st]"]
  show ?thesis by (simp add: pack_eq lens ts'_def)
qed

theorem append_stamp_preserves_witness:
  "let i = from_bytes demo (replicate 32 5) (replicate 32 6);
       m = pack demo i (replicate 16 1) (replicate 16 2) 0 [0x68] [0x69] [] None;
       m' = pack demo i (replicate 16 1) (replicate 16 2) 0 [0x68] [0x69] [] (Some (replicate 16 3))
   in \<exists>b. append_stamp 32 (packed m) (replicate 32 7) = Ok (Some b) \<and>
      parse 32 demo b (Some (public i)) = parse 32 demo (packed m) (Some (public i)) \<and>
      append_stamp 32 (packed m') (replicate 32 7) = Ok None"
proof -
  have "message_ok 32 0 [0x68] [0x69] []"
    by (simp add: message_ok_def bt_wf_def pack_payload_def mp_encode_def array_header_def
        bin_header_def map_header_def)
  then show ?thesis
    unfolding Let_def by (intro append_stamp_preserves [OF demo_sized demo_signs]) simp_all
qed

text \<open>
  C40. A validated message is authentic: the bytes are destination, source, signature and a payload
  that decodes to at least four elements; the message id is the hash of destination, source and
  the four-element payload; and the signature over them and the id verifies under the identity
  the receiver looked up for the sender.
\<close>

theorem parse_authentic:
  assumes "parse W C b src = Ok (Inr m)" "signature_validated m"
  shows "\<exists>i sg raw a payload. src = Some i \<and>
    b = msg_destination_hash m @ msg_source_hash m @ sg @ raw \<and>
    mp_decode W raw = Ok (VArray a) \<and> 4 \<le> length a \<and>
    payload = (if length a = 4 then raw else mp_encode (VArray (take 4 a))) \<and>
    message_id m = full_hash C (msg_destination_hash m @ msg_source_hash m @ payload) \<and>
    ed_verify C (sig_pub i) (msg_destination_hash m @ msg_source_hash m @ payload @ message_id m) sg"
proof -
  from assms(1) obtain a where a: "mp_decode W (drop 96 b) = Ok (VArray a)" "4 \<le> length a"
      "96 \<le> length b" "parse_payload C src (take 16 b) (slice 16 32 b) (slice 32 96 b) (drop 96 b) a = Inr m"
    by (auto simp: parse_def Let_def split: outcome.splits Value.splits if_splits)
  define payload where "payload = (if length a = 4 then drop 96 b else mp_encode (VArray (take 4 a)))"
  from a(2,4) assms(2) obtain i where i: "src = Some i" "msg_destination_hash m = take 16 b"
      "msg_source_hash m = slice 16 32 b"
      "message_id m = full_hash C (take 16 b @ slice 16 32 b @ payload)"
      "ed_verify C (sig_pub i) (take 16 b @ slice 16 32 b @ payload @ message_id m) (slice 32 96 b)"
    by (auto simp: parse_payload_def Let_def validate_def payload_def split: if_splits option.splits)
  have "b = take 16 b @ slice 16 32 b @ slice 32 96 b @ drop 96 b"
    by (simp add: slice_append_drop)
  with a i payload_def show ?thesis by metis
qed

theorem parse_authentic_witness:
  "let i = from_bytes demo (replicate 32 5) (replicate 32 6);
       b = packed (pack demo i (replicate 16 1) (replicate 16 2) 0 [0x68] [0x69] [] None)
   in \<exists>m sg payload. parse 32 demo b (Some (public i)) = Ok (Inr m) \<and> signature_validated m \<and>
     ed_verify demo (sig_pub (public i))
       (msg_destination_hash m @ msg_source_hash m @ payload @ message_id m) sg"
proof -
  let ?i = "from_bytes demo (replicate 32 5) (replicate 32 6)"
  let ?b = "packed (pack demo ?i (replicate 16 1) (replicate 16 2) 0 [0x68] [0x69] [] None)"
  have ok: "message_ok 32 0 [0x68] [0x69] []"
    by (simp add: message_ok_def bt_wf_def pack_payload_def mp_encode_def array_header_def
        bin_header_def map_header_def)
  obtain m where m: "parse 32 demo ?b (Some (public ?i)) = Ok (Inr m)" "signature_validated m"
    using parse_stamped [where rest = "[]" and d = "replicate 16 1" and s = "replicate 16 2"]
      message_ok_stamped [OF ok, of "[]"] demo_sized demo_signs
    by (simp add: pack_eq lens)
  from parse_authentic [OF m] m show ?thesis unfolding Let_def by blast
qed

text \<open>
  Tickets: a well-formed ticket field, its expiry written as a float or as an integer, is
  extracted with exactly its expiry time and its ticket, for every Unix time below \<open>2 ^ 53\<close>.
\<close>

theorem ticket_extracted:
  assumes "map_of fs FIELD_TICKET = Some (VArray (e # VBin tk # rest))"
    and "e = VF64 (f64_of_u64 t) \<or> e = VInt (int t)" "0 < t" "t < 2 ^ 53" "length tk = 16"
  shows "extract_ticket fs = Some \<lparr>expires = t, ticket = tk\<rparr>"
proof -
  have "as_f64 e = Some (f64_of_u64 t)"
    using assms(2) by (auto simp: f64_of_i64_def f64_of_u64_def)
  then show ?thesis
    using assms(1,5) f64_u64_exact [OF assms(3,4)] by (simp add: extract_ticket_def)
qed

theorem ticket_extracted_witness:
  "extract_ticket [(1, VNil), (0x0C, VArray [VInt 1700000000, VBin (replicate 16 9)])] =
     Some \<lparr>expires = 1700000000, ticket = replicate 16 9\<rparr>"
  by (rule ticket_extracted [of _ "VInt 1700000000" _ "[]"]) simp_all

text \<open>
  The propagation envelope: what the node decodes is the transfer time and one blob, the
  recipient's address followed by the encrypted message and, when the node asks for one,
  a 32-byte stamp that is valid for the hash of the rest at the node's cost.
\<close>

theorem propagation_envelope:
  assumes "sized C" "pack_propagation C r d p ratchet eph iv ts cost = Some b"
    and "length (identity_encrypt C r p eph iv ratchet) + length d + 32 < 2 ^ 32" "length b < 2 ^ W"
  shows "\<exists>data stamp. data = d @ identity_encrypt C r p eph iv ratchet \<and>
    mp_decode W b = Ok (VArray [VF64 ts, VArray [VBin (data @ stamp)]]) \<and>
    (if cost = 0 then stamp = []
     else length stamp = 32 \<and> stamp_valid C (full_hash C data) cost WORKBLOCK_EXPAND_ROUNDS_PN stamp)"
proof -
  let ?d = "d @ identity_encrypt C r p eph iv ratchet"
  let ?env = "\<lambda>st. VArray [VF64 ts, VArray [VBin (?d @ st)]]"
  have dec: "mp_decode W (mp_encode (?env st)) = Ok (?env st)"
    if "length st \<le> 32" "length (mp_encode (?env st)) < 2 ^ W" for st
    using decode_encode [of "?env st" "[]" W] that assms(3) by simp
  show ?thesis
  proof (cases "cost = 0")
    case True
    with assms(2,4) dec [of "[]"] show ?thesis by (auto simp: pack_propagation_def Let_def)
  next
    case False
    with assms(2) obtain st where st: "generate_stamp C (full_hash C ?d) cost WORKBLOCK_EXPAND_ROUNDS_PN = Some st"
        "b = mp_encode (?env st)"
      by (auto simp: pack_propagation_def Let_def split: option.splits)
    from generate_stamp_Some [OF assms(1) st(1)] dec [of st] st(2) assms(4) False show ?thesis by auto
  qed
qed

theorem propagation_envelope_witness:
  "\<exists>b data stamp. pack_propagation demo (public (from_bytes demo (replicate 32 5) (replicate 32 6)))
      (replicate 16 1) [1, 2, 3] None (replicate 32 9) (replicate 16 0) 0 0 = Some b \<and>
    mp_decode 32 b = Ok (VArray [VF64 0, VArray [VBin (data @ stamp)]])"
proof -
  let ?i = "public (from_bytes demo (replicate 32 5) (replicate 32 6))"
  let ?e = "identity_encrypt demo ?i [1, 2, 3] (replicate 32 9) (replicate 16 0) None"
  have len: "length ?e = 83" by code_simp
  obtain b where b: "pack_propagation demo ?i (replicate 16 1) [1, 2, 3] None (replicate 32 9) (replicate 16 0) 0 0 = Some b"
      "b = mp_encode (VArray [VF64 0, VArray [VBin (replicate 16 1 @ ?e)]])"
    by (simp add: pack_propagation_def Let_def)
  have "length b < 2 ^ 32"
    using len by (simp add: b(2) mp_encode_def array_header_def bin_header_def)
  then show ?thesis
    using propagation_envelope [OF demo_sized b(1), of 32] b(1) len by auto
qed

end
