(* ===== verification/Tables.thy ===== *)
theory Tables
  imports Prelude
begin

text \<open>
  The capped tables of \<open>libs/reticulum-core/src/transport.rs\<close>: a hash map beside a queue of its
  keys in insertion order, bounded by evicting the oldest. Six pairs of fields of the transport
  have this shape. The theory defines the insertion they share, states what its users may rely on as
  the locale \<open>bounded_table\<close>, and derives from that contract alone what holds after
  any run of insertions.
\<close>

section \<open>Insertion with eviction\<close>

text \<open>\<open>while order.len() > cap\<close>: the oldest key leaves the queue and, unless it is \<open>k\<close>, the map.\<close>

fun evict :: "nat \<Rightarrow> 'k \<Rightarrow> ('k, 'v) hmap \<Rightarrow> 'k list \<Rightarrow> ('k, 'v) hmap \<times> 'k list" where
  "evict cap k m [] = (m, [])"
| "evict cap k m (old # os) =
     (if length (old # os) > cap then evict cap k (if old \<noteq> k then hm_remove old m else m) os
      else (m, old # os))"

definition capped_insert ::
  "nat \<Rightarrow> 'k \<Rightarrow> 'v \<Rightarrow> ('k, 'v) hmap \<Rightarrow> 'k list \<Rightarrow> ('k, 'v) hmap \<times> 'k list" where
  "capped_insert cap k v m os =
     (if hm_get m k = None then evict cap k (hm_insert k v m) (os @ [k]) else (hm_insert k v m, os))"

definition table_ok :: "nat \<Rightarrow> ('k, 'v) hmap \<Rightarrow> 'k list \<Rightarrow> bool" where
  "table_ok cap m os \<longleftrightarrow> hm_wf m \<and> hm_keys m \<subseteq> set os \<and> length os \<le> cap"

section \<open>The contract\<close>

text \<open>
  \<open>ok\<close> is the provider's invariant. An insertion keeps it, can be read back, and changes other
  keys only by forgetting them; a table within the invariant has at most \<open>cap\<close> entries.
\<close>

locale bounded_table =
  fixes cap :: nat
    and ok :: "'s \<Rightarrow> bool"
    and tbl :: "'s \<Rightarrow> ('k, 'v) hmap"
    and ins :: "'k \<Rightarrow> 'v \<Rightarrow> 's \<Rightarrow> 's"
  assumes ok_ins: "ok s \<Longrightarrow> ok (ins k v s)"
    and bounded: "ok s \<Longrightarrow> length (tbl s) \<le> cap"
    and get_ins: "ok s \<Longrightarrow> hm_get (tbl (ins k v s)) k = Some v"
    and get_other: "ok s \<Longrightarrow> j \<noteq> k \<Longrightarrow> hm_get (tbl (ins k v s)) j \<in> {None, hm_get (tbl s) j}"
begin

lemma ok_inserts: "ok s \<Longrightarrow> ok (foldl (\<lambda>s (k, v). ins k v s) s xs)"
  by (induction xs arbitrary: s) (auto simp: ok_ins)

lemma bounded_inserts: "ok s \<Longrightarrow> length (tbl (foldl (\<lambda>s (k, v). ins k v s) s xs)) \<le> cap"
  by (intro bounded ok_inserts)

lemma last_insert:
  "ok s \<Longrightarrow> hm_get (tbl (foldl (\<lambda>s (k, v). ins k v s) s (xs @ [(k, v)]))) k = Some v"
  by (simp add: get_ins ok_inserts)

text \<open>What a table holds was inserted last under its key, or was there before.\<close>

lemma nothing_invented:
  "ok s \<Longrightarrow> hm_get (tbl (foldl (\<lambda>s (k, v). ins k v s) s xs)) j = Some w \<Longrightarrow>
     map_of (rev xs) j = Some w \<or> map_of (rev xs) j = None \<and> hm_get (tbl s) j = Some w"
proof (induction xs rule: rev_induct)
  case (snoc x xs)
  obtain k v where x: "x = (k, v)" by fastforce
  let ?t = "foldl (\<lambda>s (k, v). ins k v s) s xs"
  have "ok ?t" using snoc.prems(1) by (rule ok_inserts)
  with snoc x get_ins [of ?t k v] get_other [of ?t j k v] show ?case by (cases "j = k") auto
qed simp

end

section \<open>The provider\<close>

lemma evict_ok:
  assumes "hm_wf m" "hm_keys m \<subseteq> set os" "0 < cap" "k \<in> set (drop (length os - cap) os) \<or> k \<notin> hm_keys m"
    "evict cap k m os = (m', os')"
  shows "table_ok cap m' os' \<and> (k \<in> hm_keys m \<longrightarrow> hm_get m' k = hm_get m k) \<and>
    (\<forall>j. hm_get m' j \<in> {None, hm_get m j})"
  using assms
proof (induction cap k m os rule: evict.induct)
  case (2 cap k m old os)
  show ?case
  proof (cases "length (old # os) > cap")
    case True
    let ?m = "if old \<noteq> k then hm_remove old m else m"
    have dr: "drop (length (old # os) - cap) (old # os) = drop (length os - cap) os"
      using True by (simp add: Suc_diff_le)
    have "table_ok cap m' os' \<and> (k \<in> hm_keys ?m \<longrightarrow> hm_get m' k = hm_get ?m k) \<and>
        (\<forall>j. hm_get m' j \<in> {None, hm_get ?m j})"
      using 2(2-) True dr by (intro 2(1)) (auto dest: in_set_dropD)
    then show ?thesis by (auto split: if_splits)
  qed (use 2(2-) in \<open>auto simp: table_ok_def\<close>)
qed (auto simp: table_ok_def)

lemma capped_insert_ok:
  assumes "table_ok cap m os" "0 < cap" "capped_insert cap k v m os = (m', os')"
  shows "table_ok cap m' os'" "hm_get m' k = Some v" "\<And>j. j \<noteq> k \<Longrightarrow> hm_get m' j \<in> {None, hm_get m j}"
proof -
  have "table_ok cap m' os' \<and> hm_get m' k = Some v \<and> (\<forall>j. j \<noteq> k \<longrightarrow> hm_get m' j \<in> {None, hm_get m j})"
  proof (cases "hm_get m k = None")
    case True
    then have "evict cap k (hm_insert k v m) (os @ [k]) = (m', os')"
      using assms(3) by (simp add: capped_insert_def)
    moreover have "hm_keys m \<subseteq> insert k (set os)" "hm_wf m" using assms(1) by (auto simp: table_ok_def)
    ultimately have "table_ok cap m' os'" "hm_get m' k = Some v"
        "hm_get m' j \<in> {None, hm_get (hm_insert k v m) j}" for j
      using evict_ok [of "hm_insert k v m" "os @ [k]" cap k m' os'] assms(2) by simp_all
    then show ?thesis by (metis fun_upd_other hm_get_insert)
  next
    case False
    then have "k \<in> hm_keys m" "m' = hm_insert k v m" "os' = os"
      using assms(3) by (auto simp: capped_insert_def hm_get_None)
    with assms(1) show ?thesis by (simp add: table_ok_def subset_iff)
  qed
  then show "table_ok cap m' os'" "hm_get m' k = Some v" "\<And>j. j \<noteq> k \<Longrightarrow> hm_get m' j \<in> {None, hm_get m j}"
    by blast+
qed

lemma table_ok_size: "table_ok cap m os \<Longrightarrow> length m \<le> cap"
  using card_mono [of "set os" "hm_keys m"] card_length [of os] hm_size [of m]
  by (simp add: table_ok_def)

lemma table_ok_Nil [simp]: "table_ok cap [] []"
  by (simp add: table_ok_def)

lemma table_ok_remove [simp]: "table_ok cap m os \<Longrightarrow> table_ok cap (hm_remove k m) os"
  by (auto simp: table_ok_def)

lemma table_ok_filter:
  "table_ok cap m os \<Longrightarrow> (\<And>k v. k \<in> set os \<Longrightarrow> (k, v) \<in> set m \<Longrightarrow> Q (k, v) \<Longrightarrow> P k) \<Longrightarrow>
     table_ok cap (filter Q m) (filter P os)"
  unfolding table_ok_def by (fastforce intro: order_trans [OF length_filter_le])

lemma table_ok_retain [simp]:
  "table_ok cap m os \<Longrightarrow> table_ok cap (hm_remove k m) (filter (\<lambda>j. j \<noteq> k) os)"
  by (auto simp: table_ok_def intro: order_trans [OF length_filter_le])

lemma capped_insert_room:
  "hm_get m k \<noteq> None \<or> length os < cap \<Longrightarrow> capped_insert cap k v m os = (m', os') \<Longrightarrow>
     hm_get m' = (hm_get m)(k \<mapsto> v)"
  by (cases os) (auto simp: capped_insert_def split: if_splits)

section \<open>Tables of well-formed entries\<close>

definition table_all :: "nat \<Rightarrow> ('k \<Rightarrow> 'v \<Rightarrow> bool) \<Rightarrow> ('k, 'v) hmap \<Rightarrow> 'k list \<Rightarrow> bool" where
  "table_all cap P m os \<longleftrightarrow> table_ok cap m os \<and> (\<forall>k v. hm_get m k = Some v \<longrightarrow> P k v)"

lemma table_allD: "table_all cap P m os \<Longrightarrow> hm_get m k = Some v \<Longrightarrow> P k v"
  by (simp add: table_all_def)

lemma table_all_Nil [simp]: "table_all cap P [] []"
  by (simp add: table_all_def)

lemma table_all_insert:
  assumes "table_all cap P m os" "0 < cap" "P k v"
  shows "table_all cap P (fst (capped_insert cap k v m os)) (snd (capped_insert cap k v m os))"
proof -
  note ins = capped_insert_ok [OF _ assms(2), of m os k v, OF _ surjective_pairing]
  show ?thesis
    unfolding table_all_def
  proof (intro conjI allI impI)
    show "table_ok cap (fst (capped_insert cap k v m os)) (snd (capped_insert cap k v m os))"
      using ins(1) assms(1) by (simp add: table_all_def)
    fix j w assume w: "hm_get (fst (capped_insert cap k v m os)) j = Some w"
    show "P j w"
    proof (cases "j = k")
      case True
      then show ?thesis using w ins(2) assms(1,3) by (simp add: table_all_def)
    next
      case False
      then show ?thesis using w ins(3) [of j] assms(1) by (auto simp: table_all_def)
    qed
  qed
qed

lemma table_all_remove [simp]: "table_all cap P m os \<Longrightarrow> table_all cap P (hm_remove k m) os"
  by (simp add: table_all_def)

lemma table_all_retain [simp]:
  "table_all cap P m os \<Longrightarrow> table_all cap P (hm_remove k m) (filter (\<lambda>j. j \<noteq> k) os)"
  by (simp add: table_all_def)

lemma table_all_update:
  "table_all cap P m os \<Longrightarrow> hm_get m k = Some w \<Longrightarrow> P k v \<Longrightarrow> table_all cap P (hm_insert k v m) os"
  by (auto simp: table_all_def table_ok_def dest: hm_get_Some_key)

lemma table_all_filter:
  assumes "table_all cap P m os"
  shows "table_all cap P (filter Q m) (filter (\<lambda>k. hm_get (filter Q m) k \<noteq> None) os)"
proof -
  have wf: "hm_wf m" and all: "\<And>k v. hm_get m k = Some v \<Longrightarrow> P k v"
    using assms by (auto simp: table_all_def table_ok_def)
  have "table_ok cap (filter Q m) (filter (\<lambda>k. hm_get (filter Q m) k \<noteq> None) os)"
  proof (rule table_ok_filter)
    show "table_ok cap m os" using assms by (simp add: table_all_def)
    fix k v assume "(k, v) \<in> set m" "Q (k, v)"
    then have "k \<in> hm_keys (filter Q m)" by (auto intro: rev_image_eqI)
    then show "hm_get (filter Q m) k \<noteq> None" by (simp only: hm_get_None not_not)
  qed
  moreover have "hm_get m k = Some v" if "hm_get (filter Q m) k = Some v" for k v
    using that hm_get_filter [OF wf, of Q k] by (auto split: option.splits if_splits)
  ultimately show ?thesis using all by (simp add: table_all_def)
qed

end
