(* ===== verification/Link.thy ===== *)
theory Link
  imports Identity
begin

text \<open>
  The encrypted link of \<open>libs/reticulum-core/src/link.rs\<close>: the responder's answer to a LINKREQUEST,
  the initiator's request and handshake completion, the session-key packets (data, round-trip
  time, identify), and the packet proofs that confirm delivery.
\<close>

section \<open>The code\<close>

definition ECPUBSIZE :: nat where [simp]: "ECPUBSIZE = 64"
definition LINK_MTU_SIZE :: nat where [simp]: "LINK_MTU_SIZE = 3"
definition MODE_AES256_CBC :: u8 where [simp]: "MODE_AES256_CBC = 0x01"
definition MTU_BYTEMASK :: u32 where [simp]: "MTU_BYTEMASK = 0x001FFFFF"
definition MODE_BYTEMASK :: u32 where [simp]: "MODE_BYTEMASK = 0xE0"

record EstablishedLink =
  el_link_id :: bytes
  derived_key :: bytes
  proof_packet :: bytes
  peer_sig_pub :: bytes

definition link_id :: "crypto \<Rightarrow> Packet \<Rightarrow> bytes" where
  "link_id C request =
     (let hp = hashable_part request in
      truncated_hash C
        (if length (pkt_data request) > ECPUBSIZE
         then let diff = length (pkt_data request) - ECPUBSIZE in take (length hp - diff) hp
         else hp))"

definition link_id_of :: "crypto \<Rightarrow> Packet \<Rightarrow> bytes" where
  "link_id_of C request = link_id C request"

definition signalling_bytes :: "u32 \<Rightarrow> u8 \<Rightarrow> bytes" where
  "signalling_bytes mtu mode =
     (let v = (mtu AND MTU_BYTEMASK) OR push_bit 16 (push_bit 5 (ucast mode) AND MODE_BYTEMASK)
      in [ucast (drop_bit 16 v), ucast (drop_bit 8 v), ucast v])"

definition requested_mtu :: "Packet \<Rightarrow> u32" where
  "requested_mtu request =
     (if length (pkt_data request) = ECPUBSIZE + LINK_MTU_SIZE then
        let d = pkt_data request in
        (push_bit 16 (ucast (d ! ECPUBSIZE)) OR push_bit 8 (ucast (d ! (ECPUBSIZE + 1)))
          OR ucast (d ! (ECPUBSIZE + 2))) AND MTU_BYTEMASK
      else of_nat MTU)"

definition accept_request ::
  "crypto \<Rightarrow> Packet \<Rightarrow> PrivateIdentity \<Rightarrow> bytes \<Rightarrow> EstablishedLink option" where
  "accept_request C request identity ephemeral_secret =
     (if header_type request \<noteq> One \<and> header_type request \<noteq> Two then None
      else if length (pkt_data request) \<noteq> ECPUBSIZE \<and>
              length (pkt_data request) \<noteq> ECPUBSIZE + LINK_MTU_SIZE then None
      else
        let peer_pub = take KEY_HALF (pkt_data request);
            peer_sig = slice KEY_HALF ECPUBSIZE (pkt_data request);
            lid = link_id C request;
            our_pub = x25519_base C ephemeral_secret;
            shared = x25519 C ephemeral_secret peer_pub;
            derived = hkdf C DERIVED_KEY_LENGTH shared (Some lid) None;
            mtu = requested_mtu request;
            sg = signalling_bytes mtu MODE_AES256_CBC;
            signed = lid @ our_pub @ sig_pub (public identity) @ sg;
            signature = sign C identity signed;
            proof_data = signature @ our_pub @ sg;
            proof = header1 DEST_LINK PACKET_PROOF CONTEXT_LRPROOF lid proof_data
        in Some \<lparr>el_link_id = lid, derived_key = derived, proof_packet = wire proof,
             peer_sig_pub = peer_sig\<rparr>)"

definition link_decrypt :: "crypto \<Rightarrow> bytes \<Rightarrow> bytes \<Rightarrow> bytes result" where
  "link_decrypt C dkey data =
     (case Token_new dkey of Inl e \<Rightarrow> Inl e | Inr t \<Rightarrow> token_decrypt C t data)"

definition initiate_request :: "crypto \<Rightarrow> bytes \<Rightarrow> bytes \<Rightarrow> bytes \<Rightarrow> bytes \<times> bytes" where
  "initiate_request C target eph_x25519_secret eph_ed25519_seed =
     (let x_pub = x25519_base C eph_x25519_secret;
          ed_pub = dalek_pub C eph_ed25519_seed;
          sg = signalling_bytes (of_nat MTU) MODE_AES256_CBC;
          data = x_pub @ ed_pub @ sg;
          packet = header1 DEST_SINGLE PACKET_LINKREQUEST CONTEXT_NONE target data;
          lid = link_id C packet
      in (wire packet, lid))"

definition complete_handshake ::
  "crypto \<Rightarrow> bytes \<Rightarrow> bytes \<Rightarrow> bytes \<Rightarrow> PublicIdentity \<Rightarrow> bytes option" where
  "complete_handshake C lid eph_x25519_secret proof_data peer_identity =
     (if length proof_data < SIG_LENGTH + KEY_HALF then None
      else
        let signature = take SIG_LENGTH proof_data;
            peer_pub = slice SIG_LENGTH (SIG_LENGTH + KEY_HALF) proof_data;
            signalling = drop (SIG_LENGTH + KEY_HALF) proof_data;
            signed = lid @ peer_pub @ sig_pub peer_identity @ signalling
        in if \<not> validate C peer_identity signature signed then None
           else
             let shared = x25519 C eph_x25519_secret peer_pub;
                 derived = hkdf C DERIVED_KEY_LENGTH shared (Some lid) None
             in Some derived)"

definition encrypt_data :: "crypto \<Rightarrow> bytes \<Rightarrow> bytes \<Rightarrow> bytes \<Rightarrow> bytes result" where
  "encrypt_data C dkey plaintext iv =
     (case Token_new dkey of Inl e \<Rightarrow> Inl e | Inr t \<Rightarrow> Inr (encrypt_with_iv C t plaintext iv))"

text \<open>The round-trip time is an \<open>f64\<close>; its bit pattern is written big-endian.\<close>

definition make_rtt_packet :: "crypto \<Rightarrow> bytes \<Rightarrow> bytes \<Rightarrow> u64 \<Rightarrow> bytes \<Rightarrow> bytes result" where
  "make_rtt_packet C lid dkey rtt_seconds iv =
     (let rtt_msgpack = 0xcb # be_bytes 8 (unat rtt_seconds) in
      case encrypt_data C dkey rtt_msgpack iv of
        Inl e \<Rightarrow> Inl e
      | Inr ciphertext \<Rightarrow> Inr (wire (header1 DEST_LINK PACKET_DATA CONTEXT_LRRTT lid ciphertext)))"

definition validate_proof_sig :: "crypto \<Rightarrow> bytes \<Rightarrow> bytes \<Rightarrow> bytes \<Rightarrow> bool" where
  "validate_proof_sig C spub phash proof_data =
     (if length proof_data = 32 + SIG_LENGTH then
        (if take 32 proof_data \<noteq> phash then False
         else ed_verify C spub phash (slice 32 (32 + SIG_LENGTH) proof_data))
      else if length proof_data = SIG_LENGTH then
        ed_verify C spub phash (take SIG_LENGTH proof_data)
      else False)"

definition validate_proof :: "crypto \<Rightarrow> PublicIdentity \<Rightarrow> bytes \<Rightarrow> bytes \<Rightarrow> bool" where
  "validate_proof C peer_identity phash proof_data =
     validate_proof_sig C (sig_pub peer_identity) phash proof_data"

definition prove_packet :: "crypto \<Rightarrow> PrivateIdentity \<Rightarrow> bytes \<Rightarrow> Packet \<Rightarrow> bytes" where
  "prove_packet C identity lid data_packet =
     (let phash = packet_hash C data_packet;
          signature = sign C identity phash;
          proof_data = phash @ signature
      in wire (header1 DEST_LINK PACKET_PROOF CONTEXT_NONE lid proof_data))"

definition prove_packet_ephemeral :: "crypto \<Rightarrow> bytes \<Rightarrow> bytes \<Rightarrow> Packet \<Rightarrow> bytes" where
  "prove_packet_ephemeral C eph_ed25519_seed lid data_packet =
     (let spub = dalek_pub C eph_ed25519_seed;
          phash = packet_hash C data_packet;
          signature = ed_sign C eph_ed25519_seed spub phash;
          proof_data = phash @ signature
      in wire (header1 DEST_LINK PACKET_PROOF CONTEXT_NONE lid proof_data))"

definition make_link_context_packet ::
  "crypto \<Rightarrow> bytes \<Rightarrow> bytes \<Rightarrow> u8 \<Rightarrow> bytes \<Rightarrow> bytes \<Rightarrow> bytes result" where
  "make_link_context_packet C lid dkey ctx plaintext iv =
     (case encrypt_data C dkey plaintext iv of
        Inl e \<Rightarrow> Inl e
      | Inr ciphertext \<Rightarrow> Inr (wire (header1 DEST_LINK PACKET_DATA ctx lid ciphertext)))"

definition validate_identify :: "crypto \<Rightarrow> bytes \<Rightarrow> bytes \<Rightarrow> PublicIdentity option" where
  "validate_identify C lid plaintext =
     (if length plaintext \<noteq> KEYSIZE + SIG_LENGTH then None
      else case from_public_key C (take KEYSIZE plaintext) of
        Inl _ \<Rightarrow> None
      | Inr identity \<Rightarrow>
          let signed = lid @ take KEYSIZE plaintext
          in if validate C identity (drop KEYSIZE plaintext) signed then Some identity else None)"

definition make_identify ::
  "crypto \<Rightarrow> bytes \<Rightarrow> bytes \<Rightarrow> PrivateIdentity \<Rightarrow> bytes \<Rightarrow> bytes result" where
  "make_identify C lid dkey identity iv =
     (let pubkey = public_key (public identity);
          signed = lid @ pubkey;
          signature = sign C identity signed;
          proof_data = pubkey @ signature
      in make_link_context_packet C lid dkey CONTEXT_LINKIDENTIFY proof_data iv)"

section \<open>The link id\<close>

text \<open>
  What a transport node may change of a packet in flight: the header layout, the hop count, the
  transport fields. What the packet hash covers is the rest.
\<close>

definition relayed :: "Packet \<Rightarrow> Packet \<Rightarrow> bool" where
  "relayed p q \<longleftrightarrow> packet_ok p \<and> packet_ok q \<and>
     destination_type q = destination_type p \<and> packet_type q = packet_type p \<and>
     destination_hash q = destination_hash p \<and> pkt_context q = pkt_context p \<and>
     pkt_data q = pkt_data p"

lemma packed_flags_low:
  "packet_ok p \<Longrightarrow> packed_flags p AND 0x0F = push_bit 2 (destination_type p) OR packet_type p"
  by (auto simp: packet_ok_def packed_flags_def word8_less_2 word8_less_4 split: HeaderType.splits)

lemma relayed_hashable: "relayed p q \<Longrightarrow> hashable_part q = hashable_part p"
  by (simp add: relayed_def hashable_part_eq packed_flags_low)

lemma relayed_packet_hash: "relayed p q \<Longrightarrow> packet_hash C q = packet_hash C p"
  by (simp add: packet_hash_def relayed_hashable)

lemma relayed_link_id: "relayed p q \<Longrightarrow> link_id C q = link_id C p"
  using relayed_hashable [of p q] by (simp add: link_id_def relayed_def Let_def)

lemma relayed_refl: "packet_ok p \<Longrightarrow> relayed p p"
  by (simp add: relayed_def)

lemma length_link_id [lens]: "sized C \<Longrightarrow> length (link_id C p) = 16"
  by (simp add: link_id_def Let_def lens)

lemma length_signalling_bytes [simp, lens]: "length (signalling_bytes m k) = 3"
  by (simp add: signalling_bytes_def Let_def)

lemma link_id_signalling:
  assumes "packet_ok p" "length (pkt_data p) = 67"
  shows "link_id C p = link_id C (p\<lparr>pkt_data := take 64 (pkt_data p)\<rparr>)"
proof -
  have "packet_ok (p\<lparr>pkt_data := take 64 (pkt_data p)\<rparr>)"
    using assms(1) by (cases "header_type p") (simp_all add: packet_ok_def)
  moreover have "packed_flags (p\<lparr>pkt_data := take 64 (pkt_data p)\<rparr>) = packed_flags p"
    by (simp add: packed_flags_def)
  moreover have "length (destination_hash p) = 16" using assms(1) by (simp add: packet_ok_def)
  ultimately show ?thesis
    using assms by (simp add: link_id_def hashable_part_eq)
qed

text \<open>The MTU survives the three signalling bytes, and the mode sits in the top three bits.\<close>

lemma requested_mtu_signalling:
  assumes "length d = 64"
  shows "requested_mtu (p\<lparr>pkt_data := d @ signalling_bytes m k\<rparr>) = m AND MTU_BYTEMASK"
proof -
  define v where "v = (m AND MTU_BYTEMASK) OR push_bit 16 (push_bit 5 (ucast k) AND MODE_BYTEMASK)"
  have m24: "(0x00FFFFFF :: u32) = mask 24" and m21: "MTU_BYTEMASK = mask 21"
    by (simp_all add: mask_eq_exp_minus_1)
  have "push_bit 16 (ucast (ucast (drop_bit 16 v) :: u8)) OR
      push_bit 8 (ucast (ucast (drop_bit 8 v) :: u8)) OR ucast (ucast v :: u8) = v AND mask 24"
    apply (rule bit_word_eqI)
    subgoal for n by (cases "16 \<le> n") (auto simp: bit_simps not_less)
    done
  moreover have "(v AND mask 24) AND MTU_BYTEMASK = m AND MTU_BYTEMASK"
    unfolding m21 by (rule bit_word_eqI) (auto simp: v_def m21 bit_simps simp del: MTU_BYTEMASK_def)
  moreover have "signalling_bytes m k = [ucast (drop_bit 16 v), ucast (drop_bit 8 v), ucast v]"
    unfolding signalling_bytes_def v_def Let_def by (rule refl)
  ultimately show ?thesis
    using assms by (simp add: requested_mtu_def Let_def nth_append)
qed

section \<open>The handshake\<close>

definition request_packet :: "crypto \<Rightarrow> bytes \<Rightarrow> bytes \<Rightarrow> bytes \<Rightarrow> Packet" where
  "request_packet C target ex es = header1 DEST_SINGLE PACKET_LINKREQUEST CONTEXT_NONE target
     (x25519_base C ex @ dalek_pub C es @ signalling_bytes (of_nat MTU) MODE_AES256_CBC)"

lemma initiate_request_eq:
  "initiate_request C target ex es =
     (wire (request_packet C target ex es), link_id C (request_packet C target ex es))"
  by (simp add: initiate_request_def request_packet_def Let_def)

lemma request_packet_ok: "length target = 16 \<Longrightarrow> packet_ok (request_packet C target ex es)"
  by (simp add: request_packet_def)

lemma accept_requestD:
  assumes "accept_request C req i eph = Some l" "sized C"
  shows "el_link_id l = link_id C req"
    "derived_key l = hkdf C 64 (x25519 C eph (take 32 (pkt_data req))) (Some (link_id C req)) None"
    "peer_sig_pub l = slice 32 64 (pkt_data req)"
    "\<exists>sg. packet_decode (proof_packet l) =
       Inr (header1 DEST_LINK PACKET_PROOF CONTEXT_LRPROOF (link_id C req)
         (sign C i (link_id C req @ x25519_base C eph @ sig_pub (public i) @ sg)
            @ x25519_base C eph @ sg))"
  using assms by (auto simp: accept_request_def Let_def packet_decode_wire lens split: if_splits)

lemma complete_handshake_proof:
  assumes "sized C" "signs C" "identity_ok C i"
  shows "complete_handshake C lid ex
    (sign C i (lid @ x25519_base C eph @ sig_pub (public i) @ sg) @ x25519_base C eph @ sg) (public i) =
    Some (hkdf C 64 (x25519 C ex (x25519_base C eph)) (Some lid) None)"
  using assms
  by (simp add: complete_handshake_def Let_def lens slice_def validate_sign [OF assms])

lemma complete_handshake_Some:
  assumes "complete_handshake C lid ex d peer = Some k"
  shows "d = take 64 d @ slice 64 96 d @ drop 96 d"
    "ed_verify C (sig_pub peer) (lid @ slice 64 96 d @ sig_pub peer @ drop 96 d) (take 64 d)"
    "k = hkdf C 64 (x25519 C ex (slice 64 96 d)) (Some lid) None"
  using assms
  by (auto simp: complete_handshake_def Let_def validate_def slice_append_drop split: if_splits)

lemma handshake_keys_agree:
  assumes "sized C" "signs C" "dh_agrees C" "identity_ok C i"
    and "length target = 16" "length ex = 32" "length eph = 32"
    and "initiate_request C target ex es = (raw, lid)"
    and "packet_decode raw = Inr req" "relayed req req'"
  shows "\<exists>l proof. accept_request C req' i eph = Some l \<and> el_link_id l = lid \<and>
    peer_sig_pub l = dalek_pub C es \<and> packet_decode (proof_packet l) = Inr proof \<and>
    destination_hash proof = lid \<and>
    complete_handshake C lid ex (pkt_data proof) (public i) = Some (derived_key l)"
proof -
  from assms(5,8,9) have req: "req = request_packet C target ex es" and lid: "lid = link_id C req"
    by (auto simp: initiate_request_eq packet_decode_wire request_packet_ok)
  with assms(10) have d: "pkt_data req' =
      x25519_base C ex @ dalek_pub C es @ signalling_bytes (of_nat MTU) MODE_AES256_CBC"
    and lid': "link_id C req' = lid"
    by (auto simp: relayed_def request_packet_def relayed_link_id)
  from d assms(1) obtain l where l: "accept_request C req' i eph = Some l"
    by (cases "header_type req'") (simp_all add: accept_request_def Let_def lens)
  have dh: "x25519 C eph (x25519_base C ex) = x25519 C ex (x25519_base C eph)"
    using assms(3,6,7) by (simp add: dh_agrees_def)
  from accept_requestD [OF l assms(1)] l d lid' assms(1) dh show ?thesis
    by (auto simp: lens slice_def complete_handshake_proof [OF assms(1,2,4)])
qed

section \<open>Session packets\<close>

lemma encrypt_data_64:
  "length k = 64 \<Longrightarrow> encrypt_data C k p iv =
     Inr (encrypt_with_iv C \<lparr>signing_key = take 32 k, encryption_key = drop 32 k\<rparr> p iv)"
  by (simp add: encrypt_data_def Token_new_def)

lemma link_data_roundtrip:
  "sized C \<Longrightarrow> aes_inverts C \<Longrightarrow> length k = 64 \<Longrightarrow> length iv = 16 \<Longrightarrow>
     encrypt_data C k p iv = Inr ct \<Longrightarrow> link_decrypt C k ct = Inr p"
  by (auto simp: encrypt_data_def link_decrypt_def Token_new_def token_roundtrip)

lemma make_link_context_packet_decode:
  assumes "length k = 64" "length lid = 16"
  obtains ct where "encrypt_data C k p iv = Inr ct"
    "make_link_context_packet C lid k ctx p iv = Inr (wire (header1 DEST_LINK PACKET_DATA ctx lid ct))"
    "packet_decode (wire (header1 DEST_LINK PACKET_DATA ctx lid ct)) =
       Inr (header1 DEST_LINK PACKET_DATA ctx lid ct)"
  using that assms
  by (simp add: make_link_context_packet_def encrypt_data_64 packet_decode_wire)

lemma validate_identify_own:
  assumes "sized C" "signs C" "identity_ok C i"
  shows "validate_identify C lid (public_key (public i) @ sign C i (lid @ public_key (public i))) =
    Some (public i)"
  using assms by (simp add: validate_identify_def Let_def lens from_public_key_public validate_sign)

lemma validate_proof_sig_iff:
  "validate_proof_sig C k h d \<longleftrightarrow>
     (\<exists>sg. length sg = 64 \<and> ed_verify C k h sg \<and> (d = sg \<or> length h = 32 \<and> d = h @ sg))"
  if "length h = 32"
proof
  assume v: "validate_proof_sig C k h d"
  consider "length d = 96" | "length d = 64" using v by (auto simp: validate_proof_sig_def split: if_splits)
  then show "\<exists>sg. length sg = 64 \<and> ed_verify C k h sg \<and> (d = sg \<or> length h = 32 \<and> d = h @ sg)"
  proof cases
    case 1
    then have "d = take 32 d @ slice 32 96 d" by (simp add: slice_def)
    with 1 v show ?thesis
      by (intro exI [of _ "slice 32 96 d"]) (auto simp: validate_proof_sig_def split: if_splits)
  next
    case 2
    with v show ?thesis by (intro exI [of _ d]) (auto simp: validate_proof_sig_def)
  qed
next
  assume "\<exists>sg. length sg = 64 \<and> ed_verify C k h sg \<and> (d = sg \<or> length h = 32 \<and> d = h @ sg)"
  with that show "validate_proof_sig C k h d" by (auto simp: validate_proof_sig_def slice_def)
qed

section \<open>Properties\<close>

text \<open>
  C33. The handshake agrees. However transport nodes rewrite the header of the initiator's request
  on its way, the responder accepts it, under the link id the initiator computed; its proof
  packet decodes, carries that link id, and completes the initiator's handshake with exactly
  the responder's session key. The responder also learns the initiator's ephemeral signing key.
\<close>

theorem handshake_agrees:
  assumes "sized C" "signs C" "dh_agrees C" "identity_ok C i"
    and "length target = 16" "length ex = 32" "length eph = 32"
    and "initiate_request C target ex es = (raw, lid)"
    and "packet_decode raw = Inr req" "relayed req req'"
  shows "\<exists>l proof. accept_request C req' i eph = Some l \<and> el_link_id l = lid \<and>
    peer_sig_pub l = dalek_pub C es \<and> packet_decode (proof_packet l) = Inr proof \<and>
    destination_hash proof = lid \<and>
    complete_handshake C lid ex (pkt_data proof) (public i) = Some (derived_key l)"
  by (rule handshake_keys_agree [OF assms])

theorem handshake_agrees_witness:
  "let i = from_bytes demo (replicate 32 5) (replicate 32 6);
       (raw, lid) = initiate_request demo (replicate 16 1) (replicate 32 2) (replicate 32 3);
       req = request_packet demo (replicate 16 1) (replicate 32 2) (replicate 32 3);
       req' = req\<lparr>header_type := Two, transport_type := 1, transport_id := Some (replicate 16 9), hops := 4\<rparr>
   in packet_decode raw = Inr req \<and> relayed req req' \<and>
     (\<exists>l proof. accept_request demo req' i (replicate 32 7) = Some l \<and> el_link_id l = lid \<and>
       packet_decode (proof_packet l) = Inr proof \<and>
       complete_handshake demo lid (replicate 32 2) (pkt_data proof) (public i) = Some (derived_key l))"
proof -
  let ?req = "request_packet demo (replicate 16 1) (replicate 32 2) (replicate 32 3)"
  let ?req' = "?req\<lparr>header_type := Two, transport_type := 1, transport_id := Some (replicate 16 9), hops := 4\<rparr>"
  have ok: "packet_ok ?req" by (simp add: request_packet_ok)
  moreover have "relayed ?req ?req'"
    using ok by (simp add: relayed_def packet_ok_def request_packet_def)
  moreover have "packet_decode (wire ?req) = Inr ?req" using ok by (rule packet_decode_wire)
  ultimately show ?thesis
    using handshake_agrees [OF demo_sized demo_signs demo_dh
        identity_ok_from_bytes [of "replicate 32 5" "replicate 32 6" demo],
        of "replicate 16 1" "replicate 32 2" "replicate 32 7" "replicate 32 3" "wire ?req"
          "link_id demo ?req" ?req ?req']
    by (auto simp: initiate_request_eq)
qed

text \<open>
  C34. The initiator completes a handshake only on a proof the peer's identity key signed over this
  link id, the responder's ephemeral key, the peer's own signing key and the signalling bytes;
  the session key is derived from exactly that ephemeral key.
\<close>

theorem handshake_authentic:
  assumes "complete_handshake C lid ex d peer = Some k"
  shows "\<exists>sg pub signalling. d = sg @ pub @ signalling \<and> length sg = 64 \<and> length pub = 32 \<and>
    ed_verify C (sig_pub peer) (lid @ pub @ sig_pub peer @ signalling) sg \<and>
    k = hkdf C 64 (x25519 C ex pub) (Some lid) None"
proof -
  have "96 \<le> length d" using assms by (simp add: complete_handshake_def split: if_splits)
  with complete_handshake_Some [OF assms] show ?thesis
    by (intro exI [of _ "take 64 d"] exI [of _ "slice 64 96 d"] exI [of _ "drop 96 d"]) simp
qed

theorem handshake_authentic_witness:
  "\<exists>k sg pub signalling. complete_handshake demo (replicate 16 1) (replicate 32 2)
      (sign demo (from_bytes demo (replicate 32 5) (replicate 32 6))
         (replicate 16 1 @ x25519_base demo (replicate 32 7) @ replicate 32 6)
       @ x25519_base demo (replicate 32 7))
      (public (from_bytes demo (replicate 32 5) (replicate 32 6))) = Some k \<and>
    ed_verify demo (replicate 32 6) (replicate 16 1 @ pub @ replicate 32 6 @ signalling) sg"
proof -
  let ?i = "from_bytes demo (replicate 32 5) (replicate 32 6)"
  have pub: "sig_pub (public ?i) = replicate 32 6" by code_simp
  have c: "complete_handshake demo (replicate 16 1) (replicate 32 2)
      (sign demo ?i (replicate 16 1 @ x25519_base demo (replicate 32 7) @ replicate 32 6)
       @ x25519_base demo (replicate 32 7)) (public ?i) =
      Some (hkdf demo 64 (x25519 demo (replicate 32 2) (x25519_base demo (replicate 32 7)))
        (Some (replicate 16 1)) None)"
    using complete_handshake_proof [OF demo_sized demo_signs, of ?i "replicate 16 1" _ "replicate 32 7" "[]"]
    by (simp add: pub)
  with handshake_authentic [OF c] show ?thesis unfolding pub by blast
qed

text \<open>
  Packet receipts. The proof that either end of a link returns for a data packet decodes and
  validates, at the sender, against the hash of the packet as it was sent, however relays
  rewrote its header: a responder's proof under its identity key, an initiator's under its ephemeral
  link key. And a proof for one packet hash is never taken for another unless the signature
  itself verifies over that other hash.
\<close>

theorem receipts_validate:
  assumes "sized C" "signs C" "identity_ok C i" "length seed = 32" "length lid = 16" "relayed p q"
  shows "(\<exists>pr. packet_decode (prove_packet C i lid q) = Inr pr \<and>
      validate_proof C (public i) (packet_hash C p) (pkt_data pr)) \<and>
    (\<exists>pr. packet_decode (prove_packet_ephemeral C seed lid q) = Inr pr \<and>
      validate_proof_sig C (dalek_pub C seed) (packet_hash C p) (pkt_data pr)) \<and>
    (validate_proof_sig C key (packet_hash C p) d \<longleftrightarrow>
      (\<exists>sg. length sg = 64 \<and> ed_verify C key (packet_hash C p) sg \<and>
         (d = sg \<or> d = packet_hash C p @ sg)))"
proof -
  have len: "length (packet_hash C p) = 32" using assms(1) by (simp add: lens)
  have "\<exists>pr. packet_decode (prove_packet C i lid q) = Inr pr \<and>
      validate_proof C (public i) (packet_hash C p) (pkt_data pr)"
    using assms(1,5) signs_verify [OF assms(2) identity_ok_sel(5) [OF assms(3)]]
    by (simp add: prove_packet_def Let_def packet_decode_wire relayed_packet_hash [OF assms(6)]
        validate_proof_def validate_proof_sig_def slice_def lens identity_ok_sel [OF assms(3)])
      (simp add: sign_def identity_ok_sel [OF assms(3)])
  moreover have "\<exists>pr. packet_decode (prove_packet_ephemeral C seed lid q) = Inr pr \<and>
      validate_proof_sig C (dalek_pub C seed) (packet_hash C p) (pkt_data pr)"
    using assms(1,5) signs_verify [OF assms(2,4)]
    by (simp add: prove_packet_ephemeral_def Let_def packet_decode_wire
        relayed_packet_hash [OF assms(6)] validate_proof_sig_def slice_def lens)
  ultimately show ?thesis using validate_proof_sig_iff [OF len] len by blast
qed

theorem receipts_validate_witness:
  "let i = from_bytes demo (replicate 32 5) (replicate 32 6);
       p = header1 DEST_LINK PACKET_DATA 0 (replicate 16 1) [1, 2, 3] in
   \<exists>pr. packet_decode (prove_packet demo i (replicate 16 1) (p\<lparr>hops := 3\<rparr>)) = Inr pr \<and>
     validate_proof demo (public i) (packet_hash demo p) (pkt_data pr)"
  using receipts_validate [OF demo_sized demo_signs
      identity_ok_from_bytes [of "replicate 32 5" "replicate 32 6"], of "replicate 32 4" "replicate 16 1"
      "header1 DEST_LINK PACKET_DATA 0 (replicate 16 1) [1, 2, 3]"
      "(header1 DEST_LINK PACKET_DATA 0 (replicate 16 1) [1, 2, 3])\<lparr>hops := 3\<rparr>"]
  by (simp add: relayed_def packet_ok_def Let_def)

text \<open>
  Identification over a link. The packet \<open>make_identify\<close> builds decodes to link data whose
  plaintext identifies exactly the sender, and an identify plaintext is accepted only if the
  identity it names signed this link id together with its public key.
\<close>

theorem identify_roundtrip:
  assumes "sized C" "aes_inverts C" "signs C" "identity_ok C i"
    and "length k = 64" "length lid = 16" "length iv = 16"
  shows "(\<exists>raw p pt. make_identify C lid k i iv = Inr raw \<and> packet_decode raw = Inr p \<and>
      pkt_context p = CONTEXT_LINKIDENTIFY \<and> destination_hash p = lid \<and>
      link_decrypt C k (pkt_data p) = Inr pt \<and> validate_identify C lid pt = Some (public i)) \<and>
    (validate_identify C lid msg = Some j \<longrightarrow>
      (\<exists>sg. msg = public_key j @ sg \<and> length sg = 64 \<and>
         ed_verify C (sig_pub j) (lid @ public_key j) sg))"
proof (intro conjI impI)
  show "\<exists>raw p pt. make_identify C lid k i iv = Inr raw \<and> packet_decode raw = Inr p \<and>
      pkt_context p = CONTEXT_LINKIDENTIFY \<and> destination_hash p = lid \<and>
      link_decrypt C k (pkt_data p) = Inr pt \<and> validate_identify C lid pt = Some (public i)"
    using make_link_context_packet_decode [OF assms(5,6), of C
        "public_key (public i) @ sign C i (lid @ public_key (public i))" iv CONTEXT_LINKIDENTIFY]
      link_data_roundtrip [OF assms(1,2,5,7)] validate_identify_own [OF assms(1,3,4)]
    by (fastforce simp: make_identify_def Let_def)
next
  assume "validate_identify C lid msg = Some j"
  then show "\<exists>sg. msg = public_key j @ sg \<and> length sg = 64 \<and>
      ed_verify C (sig_pub j) (lid @ public_key j) sg"
    by (intro exI [of _ "drop 64 msg"])
      (auto simp: validate_identify_def Let_def validate_def dest!: from_public_key_split
        split: if_splits sum.splits)
qed

theorem identify_roundtrip_witness:
  "\<exists>raw p pt. make_identify demo (replicate 16 1) (replicate 64 8)
      (from_bytes demo (replicate 32 5) (replicate 32 6)) (replicate 16 0) = Inr raw \<and>
    packet_decode raw = Inr p \<and> link_decrypt demo (replicate 64 8) (pkt_data p) = Inr pt \<and>
    validate_identify demo (replicate 16 1) pt =
      Some (public (from_bytes demo (replicate 32 5) (replicate 32 6)))"
  using identify_roundtrip [OF demo_sized demo_aes demo_signs
      identity_ok_from_bytes [of "replicate 32 5" "replicate 32 6"],
      of "replicate 64 8" "replicate 16 1" "replicate 16 0" "[]" undefined]
  by auto

end
