(* ===== verification/Resource.thy ===== *)
theory Resource
  imports Link
begin

text \<open>
  Resource transfers, \<open>libs/reticulum-core/src/resource.rs\<close>: the receiver that downloads a blob in
  windows of parts with hashmap paging, the sender that serves one, and the small MessagePack
  reader for advertisements and hashmap updates.

  The model is the release build: \<open>usize\<close> arithmetic wraps at the pointer width \<open>W\<close>. The reader's bounds
  check \<open>self.i + n > len\<close> can wrap; the slice after it then starts past its end and panics, as in
  the theory Msgpack. The bzip2 decoder is not part of the repository: \<open>bz2 n d\<close> is the result of reading
  at most \<open>n\<close> bytes from the decoder over \<open>d\<close>, \<open>None\<close> on a decoding error.
\<close>

section \<open>Constants and the reader\<close>

definition DECOMPRESSED_MAX :: nat where [simp]: "DECOMPRESSED_MAX = 256 * 1024"
definition MAX_TRANSFER_BYTES :: nat where [simp]: "MAX_TRANSFER_BYTES = 256 * 1024"
definition RESOURCE_SDU :: nat where [simp]: "RESOURCE_SDU = 464"
definition MAPHASH_LEN :: nat where [simp]: "MAPHASH_LEN = 4"
definition RANDOM_HASH_SIZE :: nat where [simp]: "RANDOM_HASH_SIZE = 4"
definition HASHMAP_NOT_EXHAUSTED :: u8 where [simp]: "HASHMAP_NOT_EXHAUSTED = 0x00"
definition HASHMAP_EXHAUSTED :: u8 where [simp]: "HASHMAP_EXHAUSTED = 0xFF"
definition HASHMAP_MAX_LEN :: nat where [simp]: "HASHMAP_MAX_LEN = 74"
definition WINDOW_START :: nat where [simp]: "WINDOW_START = 4"
definition WINDOW_MAX :: nat where [simp]: "WINDOW_MAX = 75"

record Reader =
  rd_b :: bytes
  rd_i :: nat

definition rd_u8 :: "Reader \<Rightarrow> (u8 \<times> Reader) outcome" where
  "rd_u8 p = (if rd_i p < length (rd_b p) then Ok (rd_b p ! rd_i p, p\<lparr>rd_i := rd_i p + 1\<rparr>)
              else Err ''msgpack truncated'')"

definition rd_take :: "nat \<Rightarrow> nat \<Rightarrow> Reader \<Rightarrow> (bytes \<times> Reader) outcome" where
  "rd_take W n p =
     (if 2 ^ W \<le> rd_i p + n then Panic
      else if rd_i p + n > length (rd_b p) then Err ''msgpack truncated''
      else Ok (slice (rd_i p) (rd_i p + n) (rd_b p), p\<lparr>rd_i := rd_i p + n\<rparr>))"

definition rd_be :: "nat \<Rightarrow> nat \<Rightarrow> Reader \<Rightarrow> (nat \<times> Reader) outcome" where
  "rd_be W n p = obind (rd_take W n p) (\<lambda>(s, p). Ok (of_be s, p))"

definition rd_byte :: "Reader \<Rightarrow> (nat \<times> Reader) outcome" where
  "rd_byte p = obind (rd_u8 p) (\<lambda>(b, p). Ok (unat b, p))"

definition map_len :: "nat \<Rightarrow> Reader \<Rightarrow> (nat \<times> Reader) outcome" where
  "map_len W p = obind (rd_u8 p) (\<lambda>(m, p).
     if 0x80 \<le> m \<and> m \<le> 0x8f then Ok (unat (m AND 0x0f), p)
     else if m = 0xde then rd_be W 2 p
     else if m = 0xdf then rd_be W 4 p
     else Err ''expected msgpack map'')"

definition array_len :: "nat \<Rightarrow> Reader \<Rightarrow> (nat \<times> Reader) outcome" where
  "array_len W p = obind (rd_u8 p) (\<lambda>(m, p).
     if 0x90 \<le> m \<and> m \<le> 0x9f then Ok (unat (m AND 0x0f), p)
     else if m = 0xdc then rd_be W 2 p
     else if m = 0xdd then rd_be W 4 p
     else Err ''expected msgpack array'')"

definition str_key :: "nat \<Rightarrow> Reader \<Rightarrow> (bytes \<times> Reader) outcome" where
  "str_key W p = obind (rd_u8 p) (\<lambda>(m, p).
     obind (if 0xa0 \<le> m \<and> m \<le> 0xbf then Ok (unat (m AND 0x1f), p)
            else if m = 0xd9 then rd_byte p
            else if m = 0xda then rd_be W 2 p
            else if m = 0xdb then rd_be W 4 p
            else Err ''expected msgpack string key'')
       (\<lambda>(len, p). rd_take W len p))"

definition rd_bin :: "nat \<Rightarrow> Reader \<Rightarrow> (bytes \<times> Reader) outcome" where
  "rd_bin W p = obind (rd_u8 p) (\<lambda>(m, p).
     obind (if m = 0xc4 then rd_byte p
            else if m = 0xc5 then rd_be W 2 p
            else if m = 0xc6 then rd_be W 4 p
            else if 0xa0 \<le> m \<and> m \<le> 0xbf then Ok (unat (m AND 0x1f), p)
            else Err ''expected msgpack bin'')
       (\<lambda>(len, p). rd_take W len p))"

definition rd_uint :: "nat \<Rightarrow> Reader \<Rightarrow> (nat \<times> Reader) outcome" where
  "rd_uint W p = obind (rd_u8 p) (\<lambda>(m, p).
     if m \<le> 0x7f then Ok (unat m, p)
     else if m = 0xcc then rd_byte p
     else if m = 0xcd then rd_be W 2 p
     else if m = 0xce then rd_be W 4 p
     else if m = 0xcf then rd_be W 8 p
     else if 0xe0 \<le> m then Ok (0, p)
     else Err ''expected msgpack uint'')"

definition rd_skip :: "nat \<Rightarrow> (nat \<times> Reader) outcome \<Rightarrow> (unit \<times> Reader) outcome" where
  "rd_skip W len = obind len (\<lambda>(l, p). obind (rd_take W l p) (\<lambda>(_, p). Ok ((), p)))"

definition skip_value :: "nat \<Rightarrow> Reader \<Rightarrow> (unit \<times> Reader) outcome" where
  "skip_value W p = obind (rd_u8 p) (\<lambda>(m, p).
     if m \<le> 0x7f \<or> 0xe0 \<le> m \<or> m = 0xc0 \<or> m = 0xc2 \<or> m = 0xc3 then Ok ((), p)
     else if m = 0xcc \<or> m = 0xd0 then obind (rd_u8 p) (\<lambda>(_, p). Ok ((), p))
     else if m = 0xcd \<or> m = 0xd1 then rd_skip W (Ok (2, p))
     else if m = 0xce \<or> m = 0xd2 then rd_skip W (Ok (4, p))
     else if m = 0xcf \<or> m = 0xd3 then rd_skip W (Ok (8, p))
     else if m = 0xca then rd_skip W (Ok (4, p))
     else if m = 0xcb then rd_skip W (Ok (8, p))
     else if 0xa0 \<le> m \<and> m \<le> 0xbf then rd_skip W (Ok (unat (m AND 0x1f), p))
     else if m = 0xd9 \<or> m = 0xc4 then rd_skip W (rd_byte p)
     else if m = 0xda \<or> m = 0xc5 then rd_skip W (rd_be W 2 p)
     else if m = 0xdb \<or> m = 0xc6 then rd_skip W (rd_be W 4 p)
     else Err ''unsupported msgpack value in advertisement'')"

section \<open>Advertisements and hashmap updates\<close>

record Advertisement =
  adv_hash :: bytes
  adv_random_hash :: bytes
  adv_parts :: nat
  adv_hashmap :: bytes
  adv_total_segments :: nat
  adv_compressed :: bool
  adv_encrypted :: bool

text \<open>The mutable variables of the loop in \<open>parse_advertisement\<close>.\<close>

record AdvFields =
  af_hash :: "bytes option"
  af_random_hash :: "bytes option"
  af_hashmap :: "bytes option"
  af_parts :: "nat option"
  af_total_segments :: nat
  af_flags :: nat

definition adv_entry :: "nat \<Rightarrow> AdvFields \<Rightarrow> Reader \<Rightarrow> (AdvFields \<times> Reader) outcome" where
  "adv_entry W a p = obind (str_key W p) (\<lambda>(key, p).
     if key = [0x68] then obind (rd_bin W p) (\<lambda>(v, p). Ok (a\<lparr>af_hash := Some v\<rparr>, p))
     else if key = [0x72] then obind (rd_bin W p) (\<lambda>(v, p). Ok (a\<lparr>af_random_hash := Some v\<rparr>, p))
     else if key = [0x6D] then obind (rd_bin W p) (\<lambda>(v, p). Ok (a\<lparr>af_hashmap := Some v\<rparr>, p))
     else if key = [0x6E] then obind (rd_uint W p) (\<lambda>(v, p). Ok (a\<lparr>af_parts := Some v\<rparr>, p))
     else if key = [0x6C] then obind (rd_uint W p) (\<lambda>(v, p). Ok (a\<lparr>af_total_segments := v\<rparr>, p))
     else if key = [0x66] then obind (rd_uint W p) (\<lambda>(v, p). Ok (a\<lparr>af_flags := v\<rparr>, p))
     else obind (skip_value W p) (\<lambda>(_, p). Ok (a, p)))"

fun adv_loop :: "nat \<Rightarrow> nat \<Rightarrow> AdvFields \<Rightarrow> Reader \<Rightarrow> (AdvFields \<times> Reader) outcome" where
  "adv_loop W 0 a p = Ok (a, p)"
| "adv_loop W (Suc n) a p = obind (adv_entry W a p) (\<lambda>(a, p). adv_loop W n a p)"

definition adv_start :: AdvFields where
  "adv_start = \<lparr>af_hash = None, af_random_hash = None, af_hashmap = None, af_parts = None,
     af_total_segments = 1, af_flags = 0\<rparr>"

text \<open>The checks after the loop; a missing field is reported in the order the code evaluates them.\<close>

definition adv_finish :: "nat \<Rightarrow> AdvFields \<Rightarrow> Advertisement outcome" where
  "adv_finish W a =
     (case af_hash a of
        None \<Rightarrow> Err ''advertisement missing hash''
      | Some hash \<Rightarrow>
          if length hash \<noteq> 32 then Err ''advertisement hash wrong length''
          else (case af_random_hash a of
                  None \<Rightarrow> Err ''advertisement missing random hash''
                | Some r \<Rightarrow>
                    (case af_parts a of
                       None \<Rightarrow> Err ''advertisement missing part count''
                     | Some n \<Rightarrow>
                         (case af_hashmap a of
                            None \<Rightarrow> Err ''advertisement missing hashmap''
                          | Some m \<Rightarrow>
                              Ok \<lparr>adv_hash = hash, adv_random_hash = r, adv_parts = n mod 2 ^ W,
                                  adv_hashmap = m, adv_total_segments = af_total_segments a,
                                  adv_compressed = (af_flags a div 2 mod 2 = 1),
                                  adv_encrypted = (af_flags a mod 2 = 1)\<rparr>))))"

definition parse_advertisement :: "nat \<Rightarrow> bytes \<Rightarrow> Advertisement outcome" where
  "parse_advertisement W data =
     obind (map_len W \<lparr>rd_b = data, rd_i = 0\<rparr>) (\<lambda>(n, p).
     obind (adv_loop W n adv_start p) (\<lambda>(a, p). adv_finish W a))"

definition parse_hashmap_update :: "nat \<Rightarrow> bytes \<Rightarrow> (nat \<times> bytes) outcome" where
  "parse_hashmap_update W data =
     obind (array_len W \<lparr>rd_b = data, rd_i = 0\<rparr>) (\<lambda>(n, p).
       if n < 2 then Err ''hashmap update too short''
       else obind (rd_uint W p) (\<lambda>(page, p).
            obind (rd_bin W p) (\<lambda>(bs, p). Ok (page mod 2 ^ W, bs))))"

section \<open>The receiver\<close>

record ResourceReceiver =
  rr_hash :: bytes
  rr_random_hash :: bytes
  rr_map_hashes :: "bytes option list"
  rr_hashmap_height :: nat
  rr_parts :: "bytes option list"
  rr_received :: nat
  rr_consecutive :: nat
  rr_window :: nat
  rr_outstanding :: nat
  rr_waiting_for_hmu :: bool
  rr_encrypted :: bool
  rr_compressed :: bool

definition accept :: "nat \<Rightarrow> bytes \<Rightarrow> ResourceReceiver outcome" where
  "accept W adv_plaintext =
     obind (parse_advertisement W adv_plaintext) (\<lambda>adv.
       if adv_total_segments adv > 1 then Err ''multi-segment resource not supported''
       else if adv_parts adv = 0 then Err ''resource advertisement has no parts''
       else if adv_parts adv > MAX_TRANSFER_BYTES div RESOURCE_SDU + 1 then Err ''resource too large''
       else
         let in_adv = min (length (adv_hashmap adv) div MAPHASH_LEN) (adv_parts adv)
         in if in_adv = 0 then Err ''resource advertisement hashmap empty''
            else
              Ok \<lparr>rr_hash = adv_hash adv, rr_random_hash = adv_random_hash adv,
                  rr_map_hashes =
                    map (\<lambda>i. if i < in_adv
                             then Some (slice (i * MAPHASH_LEN) ((i + 1) * MAPHASH_LEN) (adv_hashmap adv))
                             else None) [0..<adv_parts adv],
                  rr_hashmap_height = in_adv,
                  rr_parts = replicate (adv_parts adv) None,
                  rr_received = 0, rr_consecutive = 0, rr_window = WINDOW_START, rr_outstanding = 0,
                  rr_waiting_for_hmu = False,
                  rr_encrypted = adv_encrypted adv, rr_compressed = adv_compressed adv\<rparr>)"

definition is_complete :: "ResourceReceiver \<Rightarrow> bool" where
  "is_complete r \<longleftrightarrow> rr_received r = length (rr_parts r)"

text \<open>The walk over the window: the map-hashes to request, how many, and whether an unknown one ended it.\<close>

fun request_walk :: "ResourceReceiver \<Rightarrow> nat list \<Rightarrow> bytes \<times> nat \<times> bool" where
  "request_walk r [] = ([], 0, False)"
| "request_walk r (i # is) =
     (if rr_parts r ! i \<noteq> None then request_walk r is
      else case rr_map_hashes r ! i of
             Some h \<Rightarrow> (let (req, n, ex) = request_walk r is in (h @ req, n + 1, ex))
           | None \<Rightarrow> ([], 0, True))"

abbreviation window_end :: "ResourceReceiver \<Rightarrow> nat" where
  "window_end r \<equiv> min (rr_consecutive r + rr_window r) (length (rr_parts r))"

definition next_request :: "ResourceReceiver \<Rightarrow> (bytes option \<times> ResourceReceiver) outcome" where
  "next_request r =
     (if is_complete r \<or> rr_waiting_for_hmu r then Ok (None, r)
      else
        let (requested, n, exhausted) = request_walk r [rr_consecutive r..<window_end r];
            r = r\<lparr>rr_outstanding := n\<rparr>
        in if requested = [] \<and> \<not> exhausted then Ok (None, r)
           else if exhausted then
             (if rr_hashmap_height r = 0 \<or> length (rr_map_hashes r) < rr_hashmap_height r then Panic
              else case rr_map_hashes r ! (rr_hashmap_height r - 1) of
                     None \<Rightarrow> Panic
                   | Some lh \<Rightarrow>
                       Ok (Some (HASHMAP_EXHAUSTED # lh @ rr_hash r @ requested),
                           r\<lparr>rr_waiting_for_hmu := True\<rparr>))
           else Ok (Some (HASHMAP_NOT_EXHAUSTED # rr_hash r @ requested), r))"

text \<open>The loop over a hashmap page, \<open>k\<close> counting the entries from \<open>base\<close>.\<close>

fun fill_hashes :: "nat \<Rightarrow> nat \<Rightarrow> nat \<Rightarrow> bytes list \<Rightarrow> bytes option list \<times> nat \<Rightarrow> bytes option list \<times> nat"
where
  "fill_hashes W base k [] (mh, height) = (mh, height)"
| "fill_hashes W base k (c # cs) (mh, height) =
     (let i = (base + k) mod 2 ^ W in
      if i \<ge> length mh then (mh, height)
      else if mh ! i = None then fill_hashes W base (k + 1) cs (mh[i := Some c], height + 1)
      else fill_hashes W base (k + 1) cs (mh, height))"

definition receive_hashmap_update ::
  "nat \<Rightarrow> ResourceReceiver \<Rightarrow> bytes \<Rightarrow> ResourceReceiver outcome" where
  "receive_hashmap_update W r plaintext =
     (if length plaintext < 32 \<or> take 32 plaintext \<noteq> rr_hash r
      then Err ''hashmap update for a different resource''
      else obind (parse_hashmap_update W (drop 32 plaintext)) (\<lambda>(page, bs).
        let base = page * HASHMAP_MAX_LEN mod 2 ^ W;
            (mh, height) =
              fill_hashes W base 0 (chunks_exact MAPHASH_LEN bs) (rr_map_hashes r, rr_hashmap_height r)
        in Ok (r\<lparr>rr_map_hashes := mh, rr_hashmap_height := height, rr_waiting_for_hmu := False\<rparr>)))"

function skip_received :: "bytes option list \<Rightarrow> nat \<Rightarrow> nat" where
  "skip_received ps c =
     (if c < length ps \<and> ps ! c \<noteq> None then skip_received ps (c + 1) else c)"
  by pat_completeness auto
termination
  by (relation "measure (\<lambda>(ps, c). length ps - c)") auto

declare skip_received.simps [simp del]

definition part_hash :: "crypto \<Rightarrow> bytes \<Rightarrow> bytes \<Rightarrow> bytes" where
  "part_hash C part_data salt = take MAPHASH_LEN (full_hash C (part_data @ salt))"

definition receive_part :: "crypto \<Rightarrow> ResourceReceiver \<Rightarrow> bytes \<Rightarrow> bool \<times> ResourceReceiver" where
  "receive_part C r part_data =
     (let map_hash = part_hash C part_data (rr_random_hash r) in
      case find (\<lambda>i. rr_map_hashes r ! i = Some map_hash \<and> rr_parts r ! i = None)
             [rr_consecutive r..<window_end r] of
        None \<Rightarrow> (False, r)
      | Some i \<Rightarrow>
          let ps = (rr_parts r)[i := Some part_data];
              r = r\<lparr>rr_parts := ps, rr_received := rr_received r + 1,
                    rr_outstanding := rr_outstanding r - 1,
                    rr_consecutive := skip_received ps (rr_consecutive r)\<rparr>
          in if rr_outstanding r = 0
             then (True, r\<lparr>rr_window := min (rr_window r + 1) WINDOW_MAX\<rparr>)
             else (False, r))"

definition concat_parts :: "ResourceReceiver \<Rightarrow> bytes" where
  "concat_parts r = concat (map (\<lambda>slot. case slot of Some p \<Rightarrow> p | None \<Rightarrow> []) (rr_parts r))"

definition decompress_bz2 :: "(nat \<Rightarrow> bytes \<Rightarrow> bytes option) \<Rightarrow> bytes \<Rightarrow> bytes result" where
  "decompress_bz2 bz2 data =
     (case bz2 (DECOMPRESSED_MAX + 1) data of
        Some out \<Rightarrow> if length out > DECOMPRESSED_MAX then Inl ''decompressed resource too large'' else Inr out
      | None \<Rightarrow> Inl ''resource bz2 decompression failed'')"

definition finish ::
  "(nat \<Rightarrow> bytes \<Rightarrow> bytes option) \<Rightarrow> crypto \<Rightarrow> ResourceReceiver \<Rightarrow> bytes \<Rightarrow> (bytes \<times> bytes) result" where
  "finish bz2 C r stream_plaintext =
     (if length stream_plaintext < RANDOM_HASH_SIZE
      then Inl ''resource stream shorter than random prefix''
      else
        case (if rr_compressed r then decompress_bz2 bz2 (drop RANDOM_HASH_SIZE stream_plaintext)
              else Inr (drop RANDOM_HASH_SIZE stream_plaintext)) of
          Inl e \<Rightarrow> Inl e
        | Inr payload \<Rightarrow>
            if full_hash C (payload @ rr_random_hash r) \<noteq> rr_hash r then Inl ''resource hash mismatch''
            else Inr (payload, rr_hash r @ full_hash C (payload @ rr_hash r)))"

section \<open>The sender\<close>

record ResourceSender =
  rs_hash :: bytes
  rs_expected_proof :: bytes
  rs_random_hash :: bytes
  rs_parts :: "bytes list"
  rs_map_hashes :: "bytes list"
  rs_data_size :: nat
  rs_transfer_size :: nat

text \<open>\<open>ResourceSender::new\<close>; \<open>None\<close> is the panic on a key of the wrong length.\<close>

definition ResourceSender_new ::
  "crypto \<Rightarrow> bytes \<Rightarrow> bytes \<Rightarrow> bytes \<Rightarrow> bytes \<Rightarrow> bytes \<Rightarrow> ResourceSender option" where
  "ResourceSender_new C data key r prefix iv =
     (let stream = prefix @ data in
      case Token_new key of
        Inl _ \<Rightarrow> None
      | Inr t \<Rightarrow>
          let ciphertext = encrypt_with_iv C t stream iv;
              parts = chunks RESOURCE_SDU ciphertext;
              hash = full_hash C (data @ r)
          in Some \<lparr>rs_hash = hash, rs_expected_proof = full_hash C (data @ hash), rs_random_hash = r,
               rs_parts = parts, rs_map_hashes = map (\<lambda>c. part_hash C c r) parts,
               rs_data_size = length data, rs_transfer_size = length ciphertext\<rparr>)"

definition adv_uint :: "nat \<Rightarrow> bytes" where
  "adv_uint v =
     (if v < 128 then [of_nat v]
      else if v \<le> 0xFF then 0xcc # be_bytes 1 v
      else if v \<le> 0xFFFF then 0xcd # be_bytes 2 v
      else 0xce # be_bytes 4 v)"

definition adv_bin :: "bytes \<Rightarrow> bytes" where
  "adv_bin b =
     (if length b \<le> 0xFF then 0xc4 # be_bytes 1 (length b) else 0xc5 # be_bytes 2 (length b)) @ b"

definition adv_key :: "u8 \<Rightarrow> bytes" where
  "adv_key k = [0xa1, k]"

definition advertisement :: "ResourceSender \<Rightarrow> bytes" where
  "advertisement s =
     (let page0 = concat (take HASHMAP_MAX_LEN (rs_map_hashes s)) in
      [0x8b]
      @ adv_key 0x74 @ adv_uint (rs_transfer_size s)
      @ adv_key 0x64 @ adv_uint (rs_data_size s)
      @ adv_key 0x6E @ adv_uint (length (rs_parts s))
      @ adv_key 0x68 @ adv_bin (rs_hash s)
      @ adv_key 0x72 @ adv_bin (rs_random_hash s)
      @ adv_key 0x6F @ adv_bin (rs_hash s)
      @ adv_key 0x69 @ adv_uint 1
      @ adv_key 0x6C @ adv_uint 1
      @ adv_key 0x71 @ [0xc0]
      @ adv_key 0x66 @ adv_uint 1
      @ adv_key 0x6D @ adv_bin page0)"

fun position :: "'a \<Rightarrow> 'a list \<Rightarrow> nat option" where
  "position x [] = None"
| "position x (y # ys) = (if x = y then Some 0 else map_option Suc (position x ys))"

text \<open>The hashmap page after the one that ends with \<open>lh\<close>.\<close>

definition hashmap_update :: "ResourceSender \<Rightarrow> bytes \<Rightarrow> bytes option" where
  "hashmap_update s lh =
     (case position lh (rs_map_hashes s) of
        None \<Rightarrow> None
      | Some idx \<Rightarrow>
          if (idx + 1) mod HASHMAP_MAX_LEN \<noteq> 0 then None
          else
            let page = (idx + 1) div HASHMAP_MAX_LEN;
                bs = concat (take HASHMAP_MAX_LEN (drop (page * HASHMAP_MAX_LEN) (rs_map_hashes s)))
            in Some (rs_hash s @ [0x92]
                 @ (if page < 128 then [of_nat page] else 0xcd # be_bytes 2 page)
                 @ (if length bs \<le> 0xFF then 0xc4 # be_bytes 1 (length bs) else 0xc5 # be_bytes 2 (length bs))
                 @ bs))"

definition handle_request :: "ResourceSender \<Rightarrow> bytes \<Rightarrow> bytes list \<times> bytes option" where
  "handle_request s req =
     (if req = [] then ([], None)
      else
        let exhausted = (req ! 0 = HASHMAP_EXHAUSTED);
            body = drop 1 req
        in if length body < (if exhausted then MAPHASH_LEN + 32 else 32) then ([], None)
           else
             let (last_hash, body) =
                   (if exhausted then (Some (take MAPHASH_LEN body), drop MAPHASH_LEN body) else (None, body))
             in if take 32 body \<noteq> rs_hash s then ([], None)
                else
                  (concat (map (\<lambda>w. case position w (rs_map_hashes s) of
                                      Some i \<Rightarrow> [rs_parts s ! i]
                                    | None \<Rightarrow> [])
                            (chunks_exact MAPHASH_LEN (drop 32 body))),
                   (case last_hash of None \<Rightarrow> None | Some lh \<Rightarrow> hashmap_update s lh)))"

definition proof_is_valid :: "ResourceSender \<Rightarrow> bytes \<Rightarrow> bool" where
  "proof_is_valid s proof_data \<longleftrightarrow>
     length proof_data = 64 \<and> take 32 proof_data = rs_hash s \<and> drop 32 proof_data = rs_expected_proof s"

section \<open>The receiver's invariant\<close>

definition arrived :: "'a option list \<Rightarrow> nat" where
  "arrived ps = length (filter (\<lambda>p. p \<noteq> None) ps)"

lemma arrived_update:
  "i < length ps \<Longrightarrow> ps ! i = None \<Longrightarrow> arrived (ps[i := Some x]) = Suc (arrived ps)"
proof (induction ps arbitrary: i)
  case (Cons p ps)
  then show ?case by (cases i) (auto simp: arrived_def)
qed simp

lemma arrived_le: "arrived ps \<le> length ps"
  by (simp add: arrived_def)

lemma arrived_all: "arrived ps = length ps \<longleftrightarrow> (\<forall>i < length ps. ps ! i \<noteq> None)"
proof
  assume "arrived ps = length ps"
  then have "filter (\<lambda>p. p \<noteq> None) ps = ps"
    unfolding arrived_def by (metis filter_True length_filter_less less_irrefl)
  then have "\<forall>x\<in>set ps. x \<noteq> None" by (simp only: filter_id_conv)
  then show "\<forall>i < length ps. ps ! i \<noteq> None" by (simp only: all_set_conv_all_nth)
next
  assume "\<forall>i < length ps. ps ! i \<noteq> None"
  then have "\<forall>x\<in>set ps. x \<noteq> None" by (simp only: all_set_conv_all_nth)
  then show "arrived ps = length ps" unfolding arrived_def by (simp only: filter_True)
qed

lemma skip_received_props:
  assumes "c \<le> length ps" "\<forall>i < c. ps ! i \<noteq> None"
  shows "c \<le> skip_received ps c" "skip_received ps c \<le> length ps"
    "\<forall>i < skip_received ps c. ps ! i \<noteq> None"
    "skip_received ps c < length ps \<Longrightarrow> ps ! skip_received ps c = None"
proof -
  have "c \<le> skip_received ps c \<and> skip_received ps c \<le> length ps \<and>
      (\<forall>i < skip_received ps c. ps ! i \<noteq> None) \<and>
      (skip_received ps c < length ps \<longrightarrow> ps ! skip_received ps c = None)"
    using assms
  proof (induction ps c rule: skip_received.induct)
    case (1 ps c)
    show ?case
    proof (cases "c < length ps \<and> ps ! c \<noteq> None")
      case True
      then have "skip_received ps c = skip_received ps (c + 1)" by (simp add: skip_received.simps [of ps c])
      moreover have "\<forall>i < c + 1. ps ! i \<noteq> None" using True "1.prems" by (auto simp: less_Suc_eq)
      ultimately show ?thesis using "1.IH" [OF True] True by simp
    next
      case False
      with "1.prems" show ?thesis by (auto simp: skip_received.simps [of ps c])
    qed
  qed
  then show "c \<le> skip_received ps c" "skip_received ps c \<le> length ps"
    "\<forall>i < skip_received ps c. ps ! i \<noteq> None"
    "skip_received ps c < length ps \<Longrightarrow> ps ! skip_received ps c = None" by auto
qed

definition receiver_ok :: "crypto \<Rightarrow> ResourceReceiver \<Rightarrow> bool" where
  "receiver_ok C r \<longleftrightarrow>
     length (rr_map_hashes r) = length (rr_parts r) \<and>
     rr_hashmap_height r = arrived (rr_map_hashes r) \<and> 0 < rr_hashmap_height r \<and>
     rr_received r = arrived (rr_parts r) \<and>
     rr_consecutive r \<le> length (rr_parts r) \<and>
     (\<forall>i < rr_consecutive r. rr_parts r ! i \<noteq> None) \<and>
     (rr_consecutive r < length (rr_parts r) \<longrightarrow> rr_parts r ! rr_consecutive r = None) \<and>
     WINDOW_START \<le> rr_window r \<and> rr_window r \<le> WINDOW_MAX \<and>
     length (rr_parts r) \<le> MAX_TRANSFER_BYTES div RESOURCE_SDU + 1 \<and>
     (\<forall>i d. i < length (rr_parts r) \<and> rr_parts r ! i = Some d \<longrightarrow>
        rr_map_hashes r ! i = Some (part_hash C d (rr_random_hash r)))"

lemma find_upt_Some:
  "find P [a..<b] = Some i \<Longrightarrow> a \<le> i \<and> i < b \<and> P i"
  by (auto simp: find_Some_iff)

lemma receive_part_cases:
  obtains (none) "receive_part C r d = (False, r)"
      "\<And>i. rr_consecutive r \<le> i \<Longrightarrow> i < window_end r \<Longrightarrow>
         \<not> (rr_map_hashes r ! i = Some (part_hash C d (rr_random_hash r)) \<and> rr_parts r ! i = None)"
  | (stored) i where "rr_consecutive r \<le> i" "i < window_end r"
      "rr_map_hashes r ! i = Some (part_hash C d (rr_random_hash r))" "rr_parts r ! i = None"
      "rr_parts (snd (receive_part C r d)) = (rr_parts r)[i := Some d]"
      "rr_received (snd (receive_part C r d)) = rr_received r + 1"
      "rr_consecutive (snd (receive_part C r d)) =
         skip_received ((rr_parts r)[i := Some d]) (rr_consecutive r)"
      "rr_window (snd (receive_part C r d)) \<in> {rr_window r, min (rr_window r + 1) WINDOW_MAX}"
      "rr_map_hashes (snd (receive_part C r d)) = rr_map_hashes r"
      "rr_hashmap_height (snd (receive_part C r d)) = rr_hashmap_height r"
      "rr_random_hash (snd (receive_part C r d)) = rr_random_hash r"
      "rr_hash (snd (receive_part C r d)) = rr_hash r"
      "rr_waiting_for_hmu (snd (receive_part C r d)) = rr_waiting_for_hmu r"
      "rr_compressed (snd (receive_part C r d)) = rr_compressed r"
proof (cases "find (\<lambda>i. rr_map_hashes r ! i = Some (part_hash C d (rr_random_hash r)) \<and> rr_parts r ! i = None)
    [rr_consecutive r..<window_end r]")
  case None
  have "\<not> (rr_map_hashes r ! i = Some (part_hash C d (rr_random_hash r)) \<and> rr_parts r ! i = None)"
    if "rr_consecutive r \<le> i" "i < window_end r" for i
    using None that by (auto simp: find_None_iff)
  then show thesis
    by (intro none) (simp_all add: receive_part_def Let_def None)
next
  case (Some i)
  note i = find_upt_Some [OF Some]
  show thesis
    using i by (intro stored [of i]) (auto simp: receive_part_def Let_def Some)
qed

lemma receive_part_ok:
  assumes "receiver_ok C r"
  shows "receiver_ok C (snd (receive_part C r d))"
proof (cases rule: receive_part_cases [of C r d])
  case none
  with assms show ?thesis by simp
next
  case (stored i)
  note ok = assms [unfolded receiver_ok_def]
  have i: "i < length (rr_parts r)" using stored(2) by simp
  have "rr_consecutive r \<le> length ((rr_parts r)[i := Some d])"
    "\<forall>k < rr_consecutive r. (rr_parts r)[i := Some d] ! k \<noteq> None"
    using ok stored(1) by auto
  note skip = skip_received_props [OF this]
  have "rr_map_hashes r ! k = Some (part_hash C e (rr_random_hash r))"
    if "k < length (rr_parts r)" "(rr_parts r)[i := Some d] ! k = Some e" for k e
    using ok stored(3) that by (cases "k = i") auto
  moreover have "WINDOW_START \<le> rr_window (snd (receive_part C r d))"
    "rr_window (snd (receive_part C r d)) \<le> WINDOW_MAX" using ok stored(8) by auto
  ultimately show ?thesis
    using ok skip arrived_update [OF i stored(4), of d]
    by (simp add: receiver_ok_def stored)
qed

lemma receiver_ok_update [simp]:
  "receiver_ok C (r\<lparr>rr_outstanding := n\<rparr>) = receiver_ok C r"
  "receiver_ok C (r\<lparr>rr_waiting_for_hmu := b\<rparr>) = receiver_ok C r"
  by (simp_all add: receiver_ok_def)

lemma next_request_ok:
  "receiver_ok C r \<Longrightarrow> next_request r = Ok (q, r') \<Longrightarrow> receiver_ok C r'"
  by (auto simp: next_request_def Let_def split: if_splits option.splits prod.splits)

lemma fill_hashes_props:
  "fill_hashes W base k cs (mh, h) = (mh', h') \<Longrightarrow> h = arrived mh \<Longrightarrow>
     length mh' = length mh \<and> h' = arrived mh' \<and> h \<le> h' \<and>
     (\<forall>i < length mh. mh ! i \<noteq> None \<longrightarrow> mh' ! i = mh ! i)"
proof (induction W base k cs "(mh, h)" arbitrary: mh h rule: fill_hashes.induct)
  case (2 W base k c cs mh h)
  then show ?case
    by (auto simp: Let_def arrived_update nth_list_update split: if_splits)
qed simp

lemma receive_hashmap_update_ok:
  assumes "receiver_ok C r" "receive_hashmap_update W r pt = Ok r'"
  shows "receiver_ok C r'"
proof -
  from assms(2) obtain page bs where
    pt: "(let base = page * HASHMAP_MAX_LEN mod 2 ^ W; (mh, height) =
        fill_hashes W base 0 (chunks_exact MAPHASH_LEN bs) (rr_map_hashes r, rr_hashmap_height r)
      in Ok (r\<lparr>rr_map_hashes := mh, rr_hashmap_height := height, rr_waiting_for_hmu := False\<rparr>)) = Ok r'"
    by (auto simp: receive_hashmap_update_def obind_eq_Ok split: if_splits)
  obtain mh h where f: "fill_hashes W (page * HASHMAP_MAX_LEN mod 2 ^ W) 0 (chunks_exact MAPHASH_LEN bs)
      (rr_map_hashes r, rr_hashmap_height r) = (mh, h)" by fastforce
  with pt have r': "r' = r\<lparr>rr_map_hashes := mh, rr_hashmap_height := h, rr_waiting_for_hmu := False\<rparr>"
    by simp
  have "rr_hashmap_height r = arrived (rr_map_hashes r)"
    using assms(1) by (simp add: receiver_ok_def)
  from fill_hashes_props [OF f this] assms(1) show ?thesis
    unfolding receiver_ok_def r' by auto
qed

lemma arrived_append: "arrived (xs @ ys) = arrived xs + arrived ys"
  by (simp add: arrived_def)

lemma arrived_prefix:
  assumes "k \<le> n"
  shows "arrived (map (\<lambda>i. if i < k then Some (f i) else None) [0..<n]) = k"
proof -
  have "[0..<n] = [0..<k] @ [k..<n]" using assms by (metis le0 le_add_diff_inverse upt_add_eq_append)
  moreover have "arrived (map (\<lambda>i. if i < k then Some (f i) else None) [0..<k]) = k"
    by (simp add: arrived_def filter_map o_def)
  moreover have "arrived (map (\<lambda>i. if i < k then Some (f i) else None) [k..<n]) = 0"
    by (simp add: arrived_def filter_empty_conv)
  ultimately show ?thesis by (simp add: arrived_append)
qed

lemma arrived_replicate: "arrived (replicate n None) = 0"
  by (simp add: arrived_def)

lemma accept_ok:
  assumes "accept W adv = Ok r"
  shows "receiver_ok C r"
  using assms
  by (auto simp: accept_def obind_eq_Ok Let_def receiver_ok_def arrived_prefix arrived_replicate
      min_def split: if_splits)

text \<open>Every way a receiver can be driven, by whatever bytes arrive.\<close>

inductive recv_reach :: "nat \<Rightarrow> crypto \<Rightarrow> ResourceReceiver \<Rightarrow> bool" for W C where
  start: "accept W adv = Ok r \<Longrightarrow> recv_reach W C r"
| request: "recv_reach W C r \<Longrightarrow> next_request r = Ok (q, r') \<Longrightarrow> recv_reach W C r'"
| update: "recv_reach W C r \<Longrightarrow> receive_hashmap_update W r pt = Ok r' \<Longrightarrow> recv_reach W C r'"
| part: "recv_reach W C r \<Longrightarrow> recv_reach W C (snd (receive_part C r d))"

lemma recv_reach_ok: "recv_reach W C r \<Longrightarrow> receiver_ok C r"
  by (induction rule: recv_reach.induct)
    (blast intro: accept_ok next_request_ok receive_hashmap_update_ok receive_part_ok)+

section \<open>Reading what the sender writes\<close>

definition reader_at :: "bytes \<Rightarrow> bytes \<Rightarrow> Reader" where
  "reader_at pre rest = \<lparr>rd_b = pre @ rest, rd_i = length pre\<rparr>"

lemma rd_u8_at [codec]: "rd_u8 (reader_at pre (c # ys)) = Ok (c, reader_at (pre @ [c]) ys)"
  by (simp add: rd_u8_def reader_at_def nth_append)

lemma rd_take_at [codec]:
  "length pre + length xs < 2 ^ W \<Longrightarrow> n = length xs \<Longrightarrow>
     rd_take W n (reader_at pre (xs @ ys)) = Ok (xs, reader_at (pre @ xs) ys)"
  by (simp add: rd_take_def reader_at_def slice_def)

lemma rd_be_at [codec]:
  "length pre + k < 2 ^ W \<Longrightarrow>
     rd_be W k (reader_at pre (be_bytes k n @ ys)) = Ok (n mod 256 ^ k, reader_at (pre @ be_bytes k n) ys)"
  by (simp add: rd_be_def rd_take_at of_be_be_bytes)

lemma rd_byte_at [codec]: "rd_byte (reader_at pre (c # ys)) = Ok (unat c, reader_at (pre @ [c]) ys)"
  by (simp add: rd_byte_def rd_u8_at)

lemmas rd_at = rd_u8_at rd_take_at rd_be_at rd_byte_at

lemma unat_word8: "n < 256 \<Longrightarrow> unat (of_nat n :: u8) = n"
  by (simp add: unat_of_nat)

lemma word8_le_127: "n < 128 \<Longrightarrow> (of_nat n :: u8) \<le> 0x7f"
  by (simp add: word_le_nat_alt unat_of_nat)

lemma rd_uint_at [codec]:
  assumes "v < 2 ^ 32" "length pre + 5 < 2 ^ W"
  shows "rd_uint W (reader_at pre (adv_uint v @ ys)) = Ok (v, reader_at (pre @ adv_uint v) ys)"
proof -
  consider "v < 128" | "128 \<le> v" "v \<le> 0xFF" | "0xFF < v" "v \<le> 0xFFFF" | "0xFFFF < v" by linarith
  then show ?thesis
    using assms
    by cases (simp_all add: adv_uint_def rd_uint_def rd_at unat_word8 word8_le_127)
qed

lemma rd_bin_at [codec]:
  assumes "length b < 65536" "length pre + length b + 3 < 2 ^ W"
  shows "rd_bin W (reader_at pre (adv_bin b @ ys)) = Ok (b, reader_at (pre @ adv_bin b) ys)"
  using assms by (cases "length b \<le> 0xFF") (simp_all add: adv_bin_def rd_bin_def rd_at unat_word8)

lemma skip_uint_at:
  assumes "length pre + 5 < 2 ^ W"
  shows "skip_value W (reader_at pre (adv_uint v @ ys)) = Ok ((), reader_at (pre @ adv_uint v) ys)"
proof -
  have "length pre + 1 + 2 < 2 ^ W" "length pre + 1 + 4 < 2 ^ W" using assms by simp_all
  then show ?thesis
    using rd_take_at [of "pre @ [0xcd]" "be_bytes 2 v" W 2 ys] rd_take_at [of "pre @ [0xce]" "be_bytes 4 v" W 4 ys]
    by (simp add: adv_uint_def skip_value_def rd_skip_def rd_at word8_le_127)
qed

lemma skip_bin_at:
  assumes "length b < 65536" "length pre + length b + 3 < 2 ^ W"
  shows "skip_value W (reader_at pre (adv_bin b @ ys)) = Ok ((), reader_at (pre @ adv_bin b) ys)"
  using assms
  by (cases "length b \<le> 0xFF") (simp_all add: adv_bin_def skip_value_def rd_skip_def rd_at unat_word8)

lemma skip_nil_at: "skip_value W (reader_at pre (0xc0 # ys)) = Ok ((), reader_at (pre @ [0xc0]) ys)"
  by (simp add: skip_value_def rd_u8_at)

lemma str_key_at:
  "length pre + 2 < 2 ^ W \<Longrightarrow>
     str_key W (reader_at pre (adv_key k @ ys)) = Ok ([k], reader_at (pre @ adv_key k) ys)"
  using rd_take_at [of "pre @ [0xa1]" "[k]" W 1 ys] by (simp add: adv_key_def str_key_def rd_at)

lemma adv_loop_numeral:
  "adv_loop W (numeral v) a p = obind (adv_entry W a p) (\<lambda>(a, p). adv_loop W (pred_numeral v) a p)"
  by (simp add: numeral_eq_Suc)

text \<open>The length of an advertisement's encoded fields, for the reader's bounds.\<close>

lemma length_adv_key [lens]: "length (adv_key k) = 2"
  by (simp add: adv_key_def)

lemma length_adv_le: "length (adv_uint v) \<le> 5" "length (adv_bin b) \<le> length b + 3"
  by (simp_all add: adv_uint_def adv_bin_def)

definition sender_ok :: "crypto \<Rightarrow> ResourceSender \<Rightarrow> bool" where
  "sender_ok C s \<longleftrightarrow> length (rs_hash s) = 32 \<and> length (rs_random_hash s) = 4 \<and>
     rs_map_hashes s = map (\<lambda>c. part_hash C c (rs_random_hash s)) (rs_parts s) \<and> rs_parts s \<noteq> []"

lemma ResourceSender_new_parts:
  assumes "ResourceSender_new C data key r prefix iv = Some s"
  shows "\<exists>t. Token_new key = Inr t \<and> concat (rs_parts s) = encrypt_with_iv C t (prefix @ data) iv"
    "rs_map_hashes s = map (\<lambda>c. part_hash C c r) (rs_parts s)"
    "rs_hash s = full_hash C (data @ r)" "rs_random_hash s = r"
    "rs_expected_proof s = full_hash C (data @ rs_hash s)"
  using assms by (auto simp: ResourceSender_new_def Let_def concat_chunks split: sum.splits)

lemma ResourceSender_new_sender_ok:
  assumes "ResourceSender_new C data key r prefix iv = Some s" and "sized C" "length r = 4" "length iv = 16"
  shows "sender_ok C s"
proof -
  note p = ResourceSender_new_parts [OF assms(1)]
  obtain t where "concat (rs_parts s) = encrypt_with_iv C t (prefix @ data) iv" using p(1) by blast
  then have "0 < length (concat (rs_parts s))" by (simp add: length_encrypt_with_iv assms(2,4))
  then have "rs_parts s \<noteq> []" by auto
  with p(2-4) assms(2,3) show ?thesis by (simp add: sender_ok_def lens)
qed

lemma length_part_hash [lens]: "sized C \<Longrightarrow> length (part_hash C d r) = 4"
  by (simp add: part_hash_def lens)

lemma length_concat_hashes:
  "\<forall>h\<in>set hs. length h = 4 \<Longrightarrow> length (concat hs) = 4 * length hs"
  by (induction hs) auto

lemma sender_hashes_4: "sized C \<Longrightarrow> sender_ok C s \<Longrightarrow> \<forall>h\<in>set (rs_map_hashes s). length h = 4"
  by (auto simp: sender_ok_def lens)

lemma adv_entry_bin:
  assumes "length b < 65536" "length pre + length b + 8 < 2 ^ W"
  shows "adv_entry W a (reader_at pre (adv_key 0x68 @ adv_bin b @ ys)) =
      Ok (a\<lparr>af_hash := Some b\<rparr>, reader_at (pre @ adv_key 0x68 @ adv_bin b) ys)"
    "adv_entry W a (reader_at pre (adv_key 0x72 @ adv_bin b @ ys)) =
      Ok (a\<lparr>af_random_hash := Some b\<rparr>, reader_at (pre @ adv_key 0x72 @ adv_bin b) ys)"
    "adv_entry W a (reader_at pre (adv_key 0x6D @ adv_bin b @ ys)) =
      Ok (a\<lparr>af_hashmap := Some b\<rparr>, reader_at (pre @ adv_key 0x6D @ adv_bin b) ys)"
    "adv_entry W a (reader_at pre (adv_key 0x6F @ adv_bin b @ ys)) =
      Ok (a, reader_at (pre @ adv_key 0x6F @ adv_bin b) ys)"
  using assms by (simp_all add: adv_entry_def str_key_at rd_bin_at skip_bin_at lens)

lemma adv_entry_uint:
  assumes "length pre + 8 < 2 ^ W"
  shows "v < 2 ^ 32 \<Longrightarrow> adv_entry W a (reader_at pre (adv_key 0x6E @ adv_uint v @ ys)) =
      Ok (a\<lparr>af_parts := Some v\<rparr>, reader_at (pre @ adv_key 0x6E @ adv_uint v) ys)"
    "v < 2 ^ 32 \<Longrightarrow> adv_entry W a (reader_at pre (adv_key 0x6C @ adv_uint v @ ys)) =
      Ok (a\<lparr>af_total_segments := v\<rparr>, reader_at (pre @ adv_key 0x6C @ adv_uint v) ys)"
    "v < 2 ^ 32 \<Longrightarrow> adv_entry W a (reader_at pre (adv_key 0x66 @ adv_uint v @ ys)) =
      Ok (a\<lparr>af_flags := v\<rparr>, reader_at (pre @ adv_key 0x66 @ adv_uint v) ys)"
    "k = 0x74 \<or> k = 0x64 \<or> k = 0x69 \<Longrightarrow> adv_entry W a (reader_at pre (adv_key k @ adv_uint v @ ys)) =
      Ok (a, reader_at (pre @ adv_key k @ adv_uint v) ys)"
    "adv_entry W a (reader_at pre (adv_key 0x71 @ 0xc0 # ys)) =
      Ok (a, reader_at (pre @ adv_key 0x71 @ [0xc0]) ys)"
  using assms
  by (auto simp: adv_entry_def str_key_at rd_uint_at skip_uint_at lens skip_nil_at)

lemma adv_entry_last:
  "length b < 65536 \<Longrightarrow> length pre + length b + 8 < 2 ^ W \<Longrightarrow>
     adv_entry W a (reader_at pre (adv_key 0x6D @ adv_bin b)) =
       Ok (a\<lparr>af_hashmap := Some b\<rparr>, reader_at (pre @ adv_key 0x6D @ adv_bin b) [])"
  using adv_entry_bin(3) [where ys = "[]"] by simp

lemmas adv_entries = adv_entry_bin adv_entry_uint adv_entry_last

lemma parse_advertisement_sender:
  assumes "sized C" "sender_ok C s" "length (rs_parts s) < 2 ^ 16" "16 \<le> W"
  shows "parse_advertisement W (advertisement s) =
    Ok \<lparr>adv_hash = rs_hash s, adv_random_hash = rs_random_hash s, adv_parts = length (rs_parts s),
        adv_hashmap = concat (take HASHMAP_MAX_LEN (rs_map_hashes s)), adv_total_segments = 1,
        adv_compressed = False, adv_encrypted = True\<rparr>"
proof -
  let ?page = "concat (take HASHMAP_MAX_LEN (rs_map_hashes s))"
  have big: "2 ^ 16 \<le> (2 :: nat) ^ W" using assms(4) by (intro power_increasing) auto
  have page: "length ?page \<le> 296"
    using sender_hashes_4 [OF assms(1,2)]
    by (subst length_concat_hashes) (auto dest: in_set_takeD)
  have ok: "length (rs_hash s) = 32" "length (rs_random_hash s) = 4"
    using assms(2) by (simp_all add: sender_ok_def)
  have start: "\<lparr>rd_b = 0x8b # xs, rd_i = 0\<rparr> = reader_at [] (0x8b # xs)" for xs
    by (simp add: reader_at_def)
  have len: "map_len W (reader_at [] (0x8b # xs)) = Ok (11, reader_at [0x8b] xs)" for xs
    by (simp add: map_len_def rd_u8_at)
  note lu = length_adv_le(1) [of "rs_transfer_size s"] length_adv_le(1) [of "rs_data_size s"]
    length_adv_le(1) [of "length (rs_parts s)"] length_adv_le(2) [of "rs_hash s"]
    length_adv_le(2) [of "rs_random_hash s"] length_adv_le(1) [of "Suc 0"]
  have mod: "length (rs_parts s) mod 2 ^ W = length (rs_parts s)"
    using assms(3) big by simp
  show ?thesis
    unfolding parse_advertisement_def advertisement_def Let_def append_Cons append_Nil start len
      obind.simps prod.case adv_loop_numeral
    using ok page big lu assms(3)
    by (simp add: adv_entries adv_loop_numeral lens adv_start_def adv_finish_def mod)
qed

end
