(* ===== verification/Transport.thy ===== *)
theory Transport
  imports Tables Resource
begin

text \<open>
  The leaf-node transport, \<open>libs/reticulum-core/src/transport.rs\<close>: the state of a node (known
  peers, routes, links in both directions, outstanding receipts, resources being served), the
  handler for an inbound packet, and the builders for outbound ones. The six capped tables are
  instances of \<open>bounded_table\<close>.

  Conventions. The closure \<open>gen_ephemeral\<close> is called at most once per frame; \<open>eph\<close> is what the call
  returns. \<open>ord\<close> is the iteration order of a hash map: it permutes its list of keys.
  An outbound random value is an argument, as in the code's \<open>_with\<close> variants. Times are \<open>u64\<close>
  seconds, and \<open>saturating_add\<close> stops at the largest.
\<close>

section \<open>Constants and data\<close>

definition MAX_KNOWN :: nat where [simp]: "MAX_KNOWN = 256"
definition MAX_PATHS :: nat where [simp]: "MAX_PATHS = 256"
definition MAX_LINKS :: nat where [simp]: "MAX_LINKS = 64"
definition MAX_OUT_LINKS :: nat where [simp]: "MAX_OUT_LINKS = 32"
definition MAX_PENDING_OUT :: nat where [simp]: "MAX_PENDING_OUT = 32"
definition MAX_RECEIPTS :: nat where [simp]: "MAX_RECEIPTS = 64"
definition PENDING_LINK_EXPIRY_SECS :: nat where [simp]: "PENDING_LINK_EXPIRY_SECS = 12"
definition PER_HOP_TIMEOUT_SECS :: nat where [simp]: "PER_HOP_TIMEOUT_SECS = 6"
definition OUT_LINK_INACTIVITY_SECS :: nat where [simp]: "OUT_LINK_INACTIVITY_SECS = 540"

definition sat_add64 :: "nat \<Rightarrow> nat \<Rightarrow> nat" where
  "sat_add64 a b = min (a + b) (2 ^ 64 - 1)"

definition sat_add8 :: "u8 \<Rightarrow> u8 \<Rightarrow> u8" where
  "sat_add8 a b = (if unat a + unat b \<ge> 256 then 255 else a + b)"

record LinkState =
  ls_key :: bytes
  ls_proof :: bytes
  ls_peer_sig_pub :: bytes
  ls_peer_identity :: "PublicIdentity option"

record PendingOut =
  po_target :: bytes
  po_eph_secret :: bytes
  po_sig_seed :: bytes
  po_identity :: PublicIdentity
  po_created :: nat
  po_expiry_secs :: nat

record OutLink =
  ol_target :: bytes
  ol_key :: bytes
  ol_sig_seed :: bytes
  ol_identity :: PublicIdentity
  ol_last_activity :: nat

record OppReceipt =
  or_full_hash :: bytes
  or_identity :: PublicIdentity

record KnownDest =
  kd_identity :: PublicIdentity
  kd_name_hash :: bytes
  kd_ratchet :: "bytes option"
  kd_app_data :: bytes

datatype PathIface = Hub | Auto

record PathEntry =
  pe_next_hop :: "bytes option"
  pe_hops :: u8
  pe_learned_on :: PathIface

datatype Event =
    Announce bytes KnownDest
  | Data bytes bytes bytes
  | LinkEstablished bytes bytes
  | LinkData bytes bytes bytes
  | InLinkData bytes u8 bytes
  | LinkIdentified bytes PublicIdentity
  | LinkKeepalive bytes bytes
  | InLinkClosed bytes
  | OutboundLinkUp bytes bytes
  | Delivered bytes
  | OutLinkData bytes u8 bytes
  | OutLinkClosed bytes
  | DataUndecryptable bytes string
  | AddressedUnhandled bytes u8 u8
  | Unhandled bytes u8 u8
  | PathRequest bytes
  | Dropped string

record Transport =
  tr_identity :: PrivateIdentity
  our_dests :: "bytes list"
  known_dests :: "(bytes, KnownDest) hmap"
  known_order :: "bytes list"
  paths :: "(bytes, PathEntry) hmap"
  paths_order :: "bytes list"
  links :: "(bytes, LinkState) hmap"
  links_order :: "bytes list"
  pending_out :: "(bytes, PendingOut) hmap"
  pending_out_order :: "bytes list"
  out_links :: "(bytes, OutLink) hmap"
  out_links_order :: "bytes list"
  receipts :: "(bytes, bytes) hmap"
  receipts_order :: "bytes list"
  out_resources :: "(bytes, ResourceSender) hmap"
  opp_receipts :: "(bytes, OppReceipt) hmap"
  opp_receipts_order :: "bytes list"

definition Transport_new :: "PrivateIdentity \<Rightarrow> Transport" where
  "Transport_new i =
     \<lparr>tr_identity = i, our_dests = [], known_dests = [], known_order = [], paths = [], paths_order = [],
      links = [], links_order = [], pending_out = [], pending_out_order = [],
      out_links = [], out_links_order = [], receipts = [], receipts_order = [], out_resources = [],
      opp_receipts = [], opp_receipts_order = []\<rparr>"

section \<open>The tables\<close>

definition insert_known :: "bytes \<Rightarrow> KnownDest \<Rightarrow> Transport \<Rightarrow> Transport" where
  "insert_known h info t =
     (let (m, os) = capped_insert MAX_KNOWN h info (known_dests t) (known_order t)
      in t\<lparr>known_dests := m, known_order := os\<rparr>)"

definition insert_path :: "bytes \<Rightarrow> PathEntry \<Rightarrow> Transport \<Rightarrow> Transport" where
  "insert_path h e t =
     (let (m, os) = capped_insert MAX_PATHS h e (paths t) (paths_order t)
      in t\<lparr>paths := m, paths_order := os\<rparr>)"

definition drop_paths_on :: "PathIface \<Rightarrow> Transport \<Rightarrow> Transport" where
  "drop_paths_on iface t =
     (let ps = filter (\<lambda>(_, e). pe_learned_on e \<noteq> iface) (paths t)
      in t\<lparr>paths := ps, paths_order := filter (\<lambda>h. hm_get ps h \<noteq> None) (paths_order t)\<rparr>)"

definition expire_path :: "bytes \<Rightarrow> Transport \<Rightarrow> bool \<times> Transport" where
  "expire_path h t =
     (let removed = (hm_get (paths t) h \<noteq> None);
          t = t\<lparr>paths := hm_remove h (paths t)\<rparr>
      in (removed, if removed then t\<lparr>paths_order := filter (\<lambda>x. x \<noteq> h) (paths_order t)\<rparr> else t))"

definition has_path :: "Transport \<Rightarrow> bytes \<Rightarrow> bool" where
  "has_path t h \<longleftrightarrow> hm_get (paths t) h \<noteq> None"

definition path_hops :: "Transport \<Rightarrow> bytes \<Rightarrow> u8 option" where
  "path_hops t h = map_option pe_hops (hm_get (paths t) h)"

text \<open>\<open>raw\<close> is an encoded packet, so the index 1 and the range from 2 are within it.\<close>

definition apply_transport :: "Transport \<Rightarrow> bytes \<Rightarrow> bytes \<Rightarrow> bytes" where
  "apply_transport t dest raw =
     (case hm_get (paths t) dest of
        None \<Rightarrow> raw
      | Some entry \<Rightarrow>
          if pe_hops entry \<le> 1 then raw
          else (case pe_next_hop entry of
                  None \<Rightarrow> raw
                | Some next_hop \<Rightarrow>
                    if raw = [] \<or> drop_bit 6 (raw ! 0 AND 0b01000000) \<noteq> HEADER_1 then raw
                    else
                      let new_flags = push_bit 6 HEADER_2 OR push_bit 4 TRANSPORT_TRANSPORT
                            OR (raw ! 0 AND 0b00001111)
                      in [new_flags, raw ! 1] @ next_hop @ drop 2 raw))"

definition insert_link :: "bytes \<Rightarrow> LinkState \<Rightarrow> Transport \<Rightarrow> Transport" where
  "insert_link lid st t =
     (let (m, os) = capped_insert MAX_LINKS lid st (links t) (links_order t)
      in t\<lparr>links := m, links_order := os\<rparr>)"

definition insert_pending_out :: "bytes \<Rightarrow> PendingOut \<Rightarrow> Transport \<Rightarrow> Transport" where
  "insert_pending_out lid p t =
     (let (m, os) = capped_insert MAX_PENDING_OUT lid p (pending_out t) (pending_out_order t)
      in t\<lparr>pending_out := m, pending_out_order := os\<rparr>)"

definition insert_out_link :: "bytes \<Rightarrow> OutLink \<Rightarrow> Transport \<Rightarrow> Transport" where
  "insert_out_link lid l t =
     (let (m, os) = capped_insert MAX_OUT_LINKS lid l (out_links t) (out_links_order t)
      in t\<lparr>out_links := m, out_links_order := os\<rparr>)"

definition insert_receipt :: "bytes \<Rightarrow> bytes \<Rightarrow> Transport \<Rightarrow> Transport" where
  "insert_receipt phash lid t =
     (let (m, os) = capped_insert MAX_RECEIPTS phash lid (receipts t) (receipts_order t)
      in t\<lparr>receipts := m, receipts_order := os\<rparr>)"

definition insert_opp_receipt :: "bytes \<Rightarrow> OppReceipt \<Rightarrow> Transport \<Rightarrow> Transport" where
  "insert_opp_receipt trunc r t =
     (let (m, os) = capped_insert MAX_RECEIPTS trunc r (opp_receipts t) (opp_receipts_order t)
      in t\<lparr>opp_receipts := m, opp_receipts_order := os\<rparr>)"

definition register_destination :: "bytes \<Rightarrow> Transport \<Rightarrow> Transport" where
  "register_destination h t =
     (if h \<in> set (our_dests t) then t else t\<lparr>our_dests := our_dests t @ [h]\<rparr>)"

definition known :: "Transport \<Rightarrow> bytes \<Rightarrow> KnownDest option" where
  "known t h = hm_get (known_dests t) h"

definition remember :: "bytes \<Rightarrow> KnownDest \<Rightarrow> Transport \<Rightarrow> Transport" where
  "remember h info t = insert_known h info t"

definition remove_out_link :: "bytes \<Rightarrow> Transport \<Rightarrow> Transport" where
  "remove_out_link lid t =
     t\<lparr>out_resources := hm_remove lid (out_resources t),
       out_links := hm_remove lid (out_links t),
       out_links_order := filter (\<lambda>i. i \<noteq> lid) (out_links_order t)\<rparr>"

section \<open>An inbound frame\<close>

text \<open>
  \<open>handle_frame\<close> in the code's order of cases. A case that does not apply, or that the code
  falls through, is \<open>None\<close>.
\<close>

definition on_lrproof :: "crypto \<Rightarrow> Transport \<Rightarrow> Packet \<Rightarrow> (Event \<times> Transport) option" where
  "on_lrproof C t packet =
     (let lid = destination_hash packet in
      if packet_type packet = PACKET_PROOF \<and> pkt_context packet = CONTEXT_LRPROOF
      then (case hm_get (pending_out t) lid of
              None \<Rightarrow> None
            | Some pend \<Rightarrow>
                let t = t\<lparr>pending_out := hm_remove lid (pending_out t)\<rparr> in
                Some (case complete_handshake C lid (po_eph_secret pend) (pkt_data packet) (po_identity pend) of
                        Some key \<Rightarrow>
                          (OutboundLinkUp lid (po_target pend),
                           insert_out_link lid
                             \<lparr>ol_target = po_target pend, ol_key = key, ol_sig_seed = po_sig_seed pend,
                              ol_identity = po_identity pend, ol_last_activity = po_created pend\<rparr> t)
                      | None \<Rightarrow> (Dropped ''invalid LRPROOF for initiated link'', t)))
      else None)"

definition on_resource_proof :: "Transport \<Rightarrow> Packet \<Rightarrow> (Event \<times> Transport) option" where
  "on_resource_proof t packet =
     (if packet_type packet = PACKET_PROOF \<and> pkt_context packet = CONTEXT_RESOURCE_PRF
      then (case hm_get (out_resources t) (destination_hash packet) of
              None \<Rightarrow> None
            | Some tx \<Rightarrow>
                if proof_is_valid tx (pkt_data packet)
                then Some (Delivered (rs_hash tx),
                           t\<lparr>out_resources := hm_remove (destination_hash packet) (out_resources t)\<rparr>)
                else None)
      else None)"

definition on_packet_proof ::
  "crypto \<Rightarrow> (bytes list \<Rightarrow> bytes list) \<Rightarrow> Transport \<Rightarrow> Packet \<Rightarrow> (Event \<times> Transport) option" where
  "on_packet_proof C ord t packet =
     (if packet_type packet = PACKET_PROOF \<and> pkt_context packet = CONTEXT_NONE
      then
        let lid = destination_hash packet;
            known_sig_pub = (case hm_get (out_links t) lid of
                               Some l \<Rightarrow> Some (sig_pub (ol_identity l))
                             | None \<Rightarrow> map_option ls_peer_sig_pub (hm_get (links t) lid))
        in case known_sig_pub of
             None \<Rightarrow> None
           | Some spub \<Rightarrow>
               let candidates =
                     (if length (pkt_data packet) \<ge> 32 + SIG_LENGTH then [take 32 (pkt_data packet)]
                      else filter (\<lambda>h. hm_get (receipts t) h = Some lid) (ord (map fst (receipts t))))
               in Some (case find (\<lambda>ph. hm_get (receipts t) ph = Some lid \<and>
                                    validate_proof_sig C spub ph (pkt_data packet)) candidates of
                          Some ph \<Rightarrow> (Delivered ph, t\<lparr>receipts := hm_remove ph (receipts t)\<rparr>)
                        | None \<Rightarrow> (AddressedUnhandled lid (packet_type packet) (pkt_context packet), t))
      else None)"

definition on_out_link_data :: "crypto \<Rightarrow> Transport \<Rightarrow> Packet \<Rightarrow> (Event \<times> Transport) option" where
  "on_out_link_data C t packet =
     (if packet_type packet = PACKET_DATA
      then (case hm_get (out_links t) (destination_hash packet) of
              None \<Rightarrow> None
            | Some l \<Rightarrow>
                let lid = destination_hash packet in
                Some (if pkt_context packet = CONTEXT_RESOURCE
                      then (OutLinkData lid (pkt_context packet) (pkt_data packet), t)
                      else
                        (case link_decrypt C (ol_key l) (pkt_data packet) of
                           Inr plaintext \<Rightarrow>
                             if pkt_context packet = CONTEXT_LINKCLOSE \<and> plaintext = lid
                             then (OutLinkClosed lid, remove_out_link lid t)
                             else if pkt_context packet = CONTEXT_NONE
                             then (LinkData lid plaintext
                                     (prove_packet_ephemeral C (ol_sig_seed l) lid packet), t)
                             else (OutLinkData lid (pkt_context packet) plaintext, t)
                         | Inl reason \<Rightarrow> (DataUndecryptable lid reason, t))))
      else None)"

definition on_opp_proof :: "crypto \<Rightarrow> Transport \<Rightarrow> Packet \<Rightarrow> (Event \<times> Transport) option" where
  "on_opp_proof C t packet =
     (if packet_type packet = PACKET_PROOF
      then (case hm_get (opp_receipts t) (destination_hash packet) of
              None \<Rightarrow> None
            | Some r \<Rightarrow>
                if validate_proof C (or_identity r) (or_full_hash r) (pkt_data packet)
                then Some (Delivered (or_full_hash r),
                           t\<lparr>opp_receipts := hm_remove (destination_hash packet) (opp_receipts t)\<rparr>)
                else None)
      else None)"

text \<open>A packet on a link a peer opened to us, by context.\<close>

definition on_in_link_identify ::
  "crypto \<Rightarrow> Transport \<Rightarrow> Packet \<Rightarrow> bytes \<Rightarrow> Event \<times> Transport" where
  "on_in_link_identify C t packet pt =
     (let lid = destination_hash packet in
      case validate_identify C lid pt of
        Some identity \<Rightarrow>
          (LinkIdentified lid identity,
           case hm_get (links t) lid of
             Some st \<Rightarrow> t\<lparr>links := hm_insert lid (st\<lparr>ls_peer_identity := Some identity\<rparr>) (links t)\<rparr>
           | None \<Rightarrow> t)
      | None \<Rightarrow> (Dropped ''invalid link identify'', t))"

definition on_in_link_keepalive ::
  "crypto \<Rightarrow> bytes \<Rightarrow> bytes \<Rightarrow> Transport \<Rightarrow> Packet \<Rightarrow> bytes \<Rightarrow> Event \<times> Transport" where
  "on_in_link_keepalive C eph key t packet pt =
     (let lid = destination_hash packet in
      if pt = [0xFF]
      then (case make_link_context_packet C lid key CONTEXT_KEEPALIVE [0xFE] (take IV_LENGTH eph) of
              Inr reply \<Rightarrow> (LinkKeepalive lid reply, t)
            | Inl _ \<Rightarrow> (Dropped ''keepalive echo failed'', t))
      else (AddressedUnhandled lid (packet_type packet) (pkt_context packet), t))"

definition on_in_link_close :: "Transport \<Rightarrow> Packet \<Rightarrow> bytes \<Rightarrow> Event \<times> Transport" where
  "on_in_link_close t packet pt =
     (let lid = destination_hash packet in
      if pt = lid
      then (InLinkClosed lid,
            t\<lparr>links := hm_remove lid (links t), links_order := filter (\<lambda>k. k \<noteq> lid) (links_order t)\<rparr>)
      else (Dropped ''malformed link close'', t))"

definition on_in_link ::
  "crypto \<Rightarrow> bytes \<Rightarrow> Transport \<Rightarrow> Packet \<Rightarrow> (Event \<times> Transport) option" where
  "on_in_link C eph t packet =
     (let lid = destination_hash packet; ctx = pkt_context packet in
      case hm_get (links t) lid of
        None \<Rightarrow> None
      | Some st \<Rightarrow>
          let key = ls_key st;
              decrypted = (\<lambda>k. case link_decrypt C key (pkt_data packet) of
                                 Inr pt \<Rightarrow> k pt
                               | Inl reason \<Rightarrow> (DataUndecryptable lid reason, t))
          in Some (if packet_type packet \<noteq> PACKET_DATA
                   then (AddressedUnhandled lid (packet_type packet) ctx, t)
                   else if ctx = CONTEXT_NONE
                   then decrypted (\<lambda>pt. (LinkData lid pt (prove_packet C (tr_identity t) lid packet), t))
                   else if ctx = CONTEXT_LINKIDENTIFY then decrypted (on_in_link_identify C t packet)
                   else if ctx = CONTEXT_KEEPALIVE then decrypted (on_in_link_keepalive C eph key t packet)
                   else if ctx = CONTEXT_LINKCLOSE then decrypted (on_in_link_close t packet)
                   else if ctx = CONTEXT_RESOURCE then (InLinkData lid ctx (pkt_data packet), t)
                   else if ctx = CONTEXT_RESOURCE_ADV \<or> ctx = CONTEXT_RESOURCE_HMU \<or> ctx = CONTEXT_RESOURCE_REQ
                   then decrypted (\<lambda>pt. (InLinkData lid ctx pt, t))
                   else (AddressedUnhandled lid (packet_type packet) ctx, t)))"

definition on_announce :: "crypto \<Rightarrow> PathIface \<Rightarrow> Transport \<Rightarrow> Packet \<Rightarrow> Event \<times> Transport" where
  "on_announce C iface t packet =
     (case parse_and_validate C packet of
        Some a \<Rightarrow>
          let info = \<lparr>kd_identity = ann_identity a, kd_name_hash = ann_name_hash a,
                      kd_ratchet = ann_ratchet a, kd_app_data = ann_app_data a\<rparr>;
              t = insert_known (ann_destination a) info t;
              t = insert_path (ann_destination a)
                    \<lparr>pe_next_hop = transport_id packet, pe_hops = sat_add8 (hops packet) 1,
                     pe_learned_on = iface\<rparr> t
          in (Announce (ann_destination a) info, t)
      | None \<Rightarrow> (Dropped ''invalid announce'', t))"

definition path_request_dest :: "crypto \<Rightarrow> bytes" where
  "path_request_dest C =
     plain_destination_hash C (ascii ''rnstransport'') [ascii ''path'', ascii ''request'']"

definition on_path_request :: "Transport \<Rightarrow> Packet \<Rightarrow> Event \<times> Transport" where
  "on_path_request t packet =
     (if length (pkt_data packet) < TRUNCATED_HASHLENGTH then (Dropped ''short path request'', t)
      else
        let target = take TRUNCATED_HASHLENGTH (pkt_data packet)
        in if target \<in> set (our_dests t) then (PathRequest target, t)
           else (Unhandled (destination_hash packet) (packet_type packet) (pkt_context packet), t))"

definition on_link_request :: "crypto \<Rightarrow> bytes \<Rightarrow> Transport \<Rightarrow> Packet \<Rightarrow> Event \<times> Transport" where
  "on_link_request C eph t packet =
     (let lid = link_id_of C packet in
      case hm_get (links t) lid of
        Some st \<Rightarrow> (LinkEstablished lid (ls_proof st), t)
      | None \<Rightarrow>
          (case accept_request C packet (tr_identity t) eph of
             Some est \<Rightarrow>
               (LinkEstablished (el_link_id est) (proof_packet est),
                insert_link (el_link_id est)
                  \<lparr>ls_key = derived_key est, ls_proof = proof_packet est,
                   ls_peer_sig_pub = peer_sig_pub est, ls_peer_identity = None\<rparr> t)
           | None \<Rightarrow> (Dropped ''invalid link request'', t)))"

definition on_opportunistic :: "crypto \<Rightarrow> Transport \<Rightarrow> Packet \<Rightarrow> Event \<times> Transport" where
  "on_opportunistic C t packet =
     (case identity_decrypt C (tr_identity t) (pkt_data packet) [] of
        Inr plaintext \<Rightarrow>
          let ph = packet_hash C packet;
              trunc = take TRUNCATED_HASHLENGTH ph;
              proof_data = ph @ sign C (tr_identity t) ph;
              proof = wire (header1 DEST_SINGLE PACKET_PROOF CONTEXT_NONE trunc proof_data)
          in (Data (destination_hash packet) plaintext proof, t)
      | Inl reason \<Rightarrow> (DataUndecryptable (destination_hash packet) reason, t))"

definition on_other :: "crypto \<Rightarrow> bytes \<Rightarrow> PathIface \<Rightarrow> Transport \<Rightarrow> Packet \<Rightarrow> Event \<times> Transport" where
  "on_other C eph iface t packet =
     (if packet_type packet = PACKET_ANNOUNCE then on_announce C iface t packet
      else if packet_type packet = PACKET_DATA \<and> destination_hash packet = path_request_dest C
      then on_path_request t packet
      else if destination_hash packet \<in> set (our_dests t)
      then (if packet_type packet = PACKET_LINKREQUEST then on_link_request C eph t packet
            else if packet_type packet = PACKET_DATA then on_opportunistic C t packet
            else (AddressedUnhandled (destination_hash packet) (packet_type packet) (pkt_context packet), t))
      else (Unhandled (destination_hash packet) (packet_type packet) (pkt_context packet), t))"

fun first_some :: "'a option list \<Rightarrow> 'a \<Rightarrow> 'a" where
  "first_some [] d = d"
| "first_some (Some x # xs) d = x"
| "first_some (None # xs) d = first_some xs d"

definition handle_packet ::
  "crypto \<Rightarrow> (bytes list \<Rightarrow> bytes list) \<Rightarrow> bytes \<Rightarrow> PathIface \<Rightarrow> Transport \<Rightarrow> Packet \<Rightarrow> Event \<times> Transport" where
  "handle_packet C ord eph iface t packet =
     first_some [on_lrproof C t packet, on_resource_proof t packet, on_packet_proof C ord t packet,
                 on_out_link_data C t packet, on_opp_proof C t packet, on_in_link C eph t packet]
       (on_other C eph iface t packet)"

definition handle_frame ::
  "crypto \<Rightarrow> (bytes list \<Rightarrow> bytes list) \<Rightarrow> bytes \<Rightarrow> PathIface \<Rightarrow> bytes \<Rightarrow> Transport \<Rightarrow> Event \<times> Transport" where
  "handle_frame C ord eph iface raw t =
     (case packet_decode raw of
        Inl e \<Rightarrow> (Dropped e, t)
      | Inr packet \<Rightarrow> handle_packet C ord eph iface t packet)"

section \<open>Announces and path requests\<close>

definition make_announce_with ::
  "crypto \<Rightarrow> Transport \<Rightarrow> bytes \<Rightarrow> bytes list \<Rightarrow> bytes \<Rightarrow> bytes \<Rightarrow> nat \<Rightarrow> bytes" where
  "make_announce_with C t app_name aspects app_data random5 unix_time =
     (let rh = random_hash random5 unix_time
      in wire (build_announce C (tr_identity t) app_name aspects app_data rh None))"

text \<open>\<open>fill n g\<close> draws \<open>n\<close> random bytes from the generator state \<open>g\<close>.\<close>

definition make_announce ::
  "crypto \<Rightarrow> (nat \<Rightarrow> 'g \<Rightarrow> bytes \<times> 'g) \<Rightarrow> Transport \<Rightarrow> bytes \<Rightarrow> bytes list \<Rightarrow> bytes \<Rightarrow> 'g \<Rightarrow> nat \<Rightarrow> bytes \<times> 'g" where
  "make_announce C fill t app_name aspects app_data g unix_time =
     (let (r5, g) = fill 5 g
      in (make_announce_with C t app_name aspects app_data r5 unix_time, g))"

definition make_path_response_with ::
  "crypto \<Rightarrow> Transport \<Rightarrow> bytes \<Rightarrow> bytes list \<Rightarrow> bytes \<Rightarrow> bytes \<Rightarrow> nat \<Rightarrow> bytes" where
  "make_path_response_with C t app_name aspects app_data random5 unix_time =
     (let rh = random_hash random5 unix_time;
          p = build_announce C (tr_identity t) app_name aspects app_data rh None
      in wire (p\<lparr>pkt_context := CONTEXT_PATH_RESPONSE\<rparr>))"

definition make_path_request :: "crypto \<Rightarrow> bytes \<Rightarrow> bytes \<Rightarrow> bytes" where
  "make_path_request C target tag =
     wire (header1 DEST_PLAIN PACKET_DATA CONTEXT_NONE (path_request_dest C) (target @ tag))"

section \<open>Opportunistic delivery\<close>

definition make_opportunistic_with ::
  "crypto \<Rightarrow> Transport \<Rightarrow> bytes \<Rightarrow> PublicIdentity \<Rightarrow> bytes option \<Rightarrow> bytes \<Rightarrow> bytes \<Rightarrow> bytes \<Rightarrow> bytes" where
  "make_opportunistic_with C t recipient_hash recipient ratchet plaintext ephemeral_secret iv =
     (let ciphertext = identity_encrypt C recipient plaintext ephemeral_secret iv ratchet;
          raw = wire (header1 DEST_SINGLE PACKET_DATA CONTEXT_NONE recipient_hash ciphertext)
      in apply_transport t recipient_hash raw)"

definition make_opportunistic ::
  "crypto \<Rightarrow> (nat \<Rightarrow> 'g \<Rightarrow> bytes \<times> 'g) \<Rightarrow> Transport \<Rightarrow> bytes \<Rightarrow> PublicIdentity \<Rightarrow> bytes option \<Rightarrow> bytes \<Rightarrow> 'g
     \<Rightarrow> bytes \<times> 'g" where
  "make_opportunistic C fill t recipient_hash recipient ratchet plaintext g =
     (let (eph, g) = fill KEY_HALF g; (iv, g) = fill IV_LENGTH g
      in (make_opportunistic_with C t recipient_hash recipient ratchet plaintext eph iv, g))"

definition make_opportunistic_tracked ::
  "crypto \<Rightarrow> Transport \<Rightarrow> bytes \<Rightarrow> PublicIdentity \<Rightarrow> bytes option \<Rightarrow> bytes \<Rightarrow> bytes \<Rightarrow> bytes
     \<Rightarrow> (bytes \<times> bytes) \<times> Transport" where
  "make_opportunistic_tracked C t recipient_hash recipient ratchet plaintext ephemeral_secret iv =
     (let ciphertext = identity_encrypt C recipient plaintext ephemeral_secret iv ratchet;
          packet = header1 DEST_SINGLE PACKET_DATA CONTEXT_NONE recipient_hash ciphertext;
          full = packet_hash C packet;
          trunc = take TRUNCATED_HASHLENGTH full;
          t = insert_opp_receipt trunc \<lparr>or_full_hash = full, or_identity = recipient\<rparr> t;
          raw = apply_transport t recipient_hash (wire packet)
      in ((raw, full), t))"

section \<open>Links we initiate\<close>

definition pending_expiry_secs :: "Transport \<Rightarrow> bytes \<Rightarrow> nat" where
  "pending_expiry_secs t target =
     (let hs = unat (max (case path_hops t target of Some h \<Rightarrow> h | None \<Rightarrow> 1) 1)
      in max PENDING_LINK_EXPIRY_SECS (PER_HOP_TIMEOUT_SECS * (hs + 1)))"

definition make_link_request ::
  "crypto \<Rightarrow> Transport \<Rightarrow> bytes \<Rightarrow> PublicIdentity \<Rightarrow> bytes \<Rightarrow> bytes \<Rightarrow> nat \<Rightarrow> (bytes \<times> bytes) \<times> Transport" where
  "make_link_request C t target peer_identity eph_x25519 eph_ed25519 now =
     (let (raw, lid) = initiate_request C target eph_x25519 eph_ed25519;
          raw = apply_transport t target raw;
          expiry_secs = pending_expiry_secs t target;
          t = insert_pending_out lid
                \<lparr>po_target = target, po_eph_secret = eph_x25519, po_sig_seed = eph_ed25519,
                 po_identity = peer_identity, po_created = now, po_expiry_secs = expiry_secs\<rparr> t
      in ((raw, lid), t))"

definition outbound_link_for ::
  "(bytes list \<Rightarrow> bytes list) \<Rightarrow> bytes \<Rightarrow> nat \<Rightarrow> Transport \<Rightarrow> bytes option \<times> Transport" where
  "outbound_link_for ord target now t =
     (let expired = map fst (filter (\<lambda>(_, l). now > sat_add64 (ol_last_activity l) OUT_LINK_INACTIVITY_SECS)
                       (out_links t));
          t = foldl (\<lambda>t lid. remove_out_link lid t) t expired;
          lid = find (\<lambda>k. map_option ol_target (hm_get (out_links t) k) = Some target)
                  (ord (map fst (out_links t)))
      in (lid,
          case lid of
            None \<Rightarrow> t
          | Some k \<Rightarrow>
              (case hm_get (out_links t) k of
                 Some l \<Rightarrow> t\<lparr>out_links := hm_insert k (l\<lparr>ol_last_activity := now\<rparr>) (out_links t)\<rparr>
               | None \<Rightarrow> t)))"

definition any_link_key :: "Transport \<Rightarrow> bytes \<Rightarrow> bytes option" where
  "any_link_key t lid =
     (case hm_get (out_links t) lid of
        Some l \<Rightarrow> Some (ol_key l)
      | None \<Rightarrow> map_option ls_key (hm_get (links t) lid))"

definition forget_pending_link :: "bytes \<Rightarrow> Transport \<Rightarrow> Transport" where
  "forget_pending_link lid t =
     t\<lparr>pending_out := hm_remove lid (pending_out t),
       pending_out_order := filter (\<lambda>i. i \<noteq> lid) (pending_out_order t)\<rparr>"

text \<open>The loop body of \<open>pending_link_to\<close> is that of \<open>forget_pending_link\<close>.\<close>

definition pending_link_to :: "bytes \<Rightarrow> nat \<Rightarrow> Transport \<Rightarrow> bool \<times> Transport" where
  "pending_link_to target now t =
     (let expired = map fst (filter (\<lambda>(_, p). now > sat_add64 (po_created p) (po_expiry_secs p)) (pending_out t));
          t = foldl (\<lambda>t lid. t\<lparr>pending_out := hm_remove lid (pending_out t),
                              pending_out_order := filter (\<lambda>i. i \<noteq> lid) (pending_out_order t)\<rparr>) t expired
      in (list_ex (\<lambda>(_, p). po_target p = target) (pending_out t), t))"

definition drop_out_link :: "bytes \<Rightarrow> Transport \<Rightarrow> Transport" where
  "drop_out_link lid t = remove_out_link lid t"

definition connection_reset :: "Transport \<Rightarrow> Transport" where
  "connection_reset t =
     t\<lparr>links := [], links_order := [], pending_out := [], pending_out_order := [],
       out_links := [], out_links_order := [], receipts := [], receipts_order := [],
       opp_receipts := [], opp_receipts_order := [], out_resources := []\<rparr>"

section \<open>Packets on a link\<close>

definition ok_option :: "'a result \<Rightarrow> 'a option" where
  "ok_option r = (case r of Inr x \<Rightarrow> Some x | Inl _ \<Rightarrow> None)"

text \<open>The \<open>f64\<close> constant 0.1.\<close>

definition RTT_GUESS :: u64 where
  "RTT_GUESS = 0x3FB999999999999A"

definition make_link_rtt :: "crypto \<Rightarrow> Transport \<Rightarrow> bytes \<Rightarrow> bytes \<Rightarrow> bytes option" where
  "make_link_rtt C t lid iv =
     Option.bind (hm_get (out_links t) lid) (\<lambda>l. ok_option (make_rtt_packet C lid (ol_key l) RTT_GUESS iv))"

definition make_link_data ::
  "crypto \<Rightarrow> bytes \<Rightarrow> bytes \<Rightarrow> bytes \<Rightarrow> Transport \<Rightarrow> (bytes \<times> bytes) option \<times> Transport" where
  "make_link_data C lid plaintext iv t =
     (case hm_get (out_links t) lid of
        None \<Rightarrow> (None, t)
      | Some l \<Rightarrow>
          (case encrypt_data C (ol_key l) plaintext iv of
             Inl _ \<Rightarrow> (None, t)
           | Inr ciphertext \<Rightarrow>
               let packet = header1 DEST_LINK PACKET_DATA CONTEXT_NONE lid ciphertext;
                   phash = packet_hash C packet
               in (Some (wire packet, phash), insert_receipt phash lid t)))"

definition make_out_link_identify :: "crypto \<Rightarrow> Transport \<Rightarrow> bytes \<Rightarrow> bytes \<Rightarrow> bytes option" where
  "make_out_link_identify C t lid iv =
     Option.bind (hm_get (out_links t) lid) (\<lambda>l. ok_option (make_identify C lid (ol_key l) (tr_identity t) iv))"

definition decrypt_out_link :: "crypto \<Rightarrow> Transport \<Rightarrow> bytes \<Rightarrow> bytes \<Rightarrow> bytes option" where
  "decrypt_out_link C t lid data =
     Option.bind (hm_get (out_links t) lid) (\<lambda>l. ok_option (link_decrypt C (ol_key l) data))"

definition make_out_link_resource_proof :: "Transport \<Rightarrow> bytes \<Rightarrow> bytes \<Rightarrow> bytes option" where
  "make_out_link_resource_proof t lid proof_data =
     (if hm_get (out_links t) lid = None then None
      else Some (wire (header1 DEST_LINK PACKET_PROOF CONTEXT_RESOURCE_PRF lid proof_data)))"

definition make_out_link_context ::
  "crypto \<Rightarrow> Transport \<Rightarrow> bytes \<Rightarrow> u8 \<Rightarrow> bytes \<Rightarrow> bytes \<Rightarrow> bytes option" where
  "make_out_link_context C t lid ctx plaintext iv =
     Option.bind (hm_get (out_links t) lid)
       (\<lambda>l. ok_option (make_link_context_packet C lid (ol_key l) ctx plaintext iv))"

text \<open>
  The panic of \<open>ResourceSender::new\<close> on a key that is not 64 bytes is shown here as \<open>None\<close>; the keys of
  links have that length (see \<open>transport_ok\<close>).
\<close>

definition make_link_resource ::
  "crypto \<Rightarrow> bytes \<Rightarrow> bytes \<Rightarrow> bytes \<Rightarrow> bytes \<Rightarrow> bytes \<Rightarrow> bytes \<Rightarrow> Transport
     \<Rightarrow> (bytes \<times> bytes) option \<times> Transport" where
  "make_link_resource C lid data r prefix iv adv_iv t =
     (case any_link_key t lid of
        None \<Rightarrow> (None, t)
      | Some key \<Rightarrow>
          (case ResourceSender_new C data key r prefix iv of
             None \<Rightarrow> (None, t)
           | Some tx \<Rightarrow>
               (case make_link_context_packet C lid key CONTEXT_RESOURCE_ADV (advertisement tx) adv_iv of
                  Inl _ \<Rightarrow> (None, t)
                | Inr adv \<Rightarrow>
                    (Some (adv, rs_hash tx), t\<lparr>out_resources := hm_insert lid tx (out_resources t)\<rparr>))))"

definition serve_link_resource ::
  "crypto \<Rightarrow> Transport \<Rightarrow> bytes \<Rightarrow> bytes \<Rightarrow> bytes \<Rightarrow> bytes list" where
  "serve_link_resource C t lid req_plaintext hmu_iv =
     (case (hm_get (out_resources t) lid, any_link_key t lid) of
        (Some tx, Some key) \<Rightarrow>
          let (ps, hmu) = handle_request tx req_plaintext;
              out = map (\<lambda>p. wire (header1 DEST_LINK PACKET_DATA CONTEXT_RESOURCE lid p)) ps
          in out @ (case hmu of
                      None \<Rightarrow> []
                    | Some h \<Rightarrow>
                        (case make_link_context_packet C lid key CONTEXT_RESOURCE_HMU h hmu_iv of
                           Inr raw \<Rightarrow> [raw]
                         | Inl _ \<Rightarrow> []))
      | _ \<Rightarrow> [])"

definition make_in_link_context ::
  "crypto \<Rightarrow> Transport \<Rightarrow> bytes \<Rightarrow> u8 \<Rightarrow> bytes \<Rightarrow> bytes \<Rightarrow> bytes option" where
  "make_in_link_context C t lid ctx plaintext iv =
     Option.bind (hm_get (links t) lid)
       (\<lambda>st. ok_option (make_link_context_packet C lid (ls_key st) ctx plaintext iv))"

definition make_in_link_data ::
  "crypto \<Rightarrow> bytes \<Rightarrow> bytes \<Rightarrow> bytes \<Rightarrow> Transport \<Rightarrow> (bytes \<times> bytes) option \<times> Transport" where
  "make_in_link_data C lid plaintext iv t =
     (case hm_get (links t) lid of
        None \<Rightarrow> (None, t)
      | Some st \<Rightarrow>
          if ls_peer_identity st = None then (None, t)
          else (case encrypt_data C (ls_key st) plaintext iv of
                  Inl _ \<Rightarrow> (None, t)
                | Inr ciphertext \<Rightarrow>
                    let packet = header1 DEST_LINK PACKET_DATA CONTEXT_NONE lid ciphertext;
                        phash = packet_hash C packet
                    in (Some (wire packet, phash), insert_receipt phash lid t)))"

definition decrypt_in_link :: "crypto \<Rightarrow> Transport \<Rightarrow> bytes \<Rightarrow> bytes \<Rightarrow> bytes option" where
  "decrypt_in_link C t lid data =
     Option.bind (hm_get (links t) lid) (\<lambda>st. ok_option (link_decrypt C (ls_key st) data))"

definition make_in_link_resource_proof :: "Transport \<Rightarrow> bytes \<Rightarrow> bytes \<Rightarrow> bytes option" where
  "make_in_link_resource_proof t lid proof_data =
     (if hm_get (links t) lid = None then None
      else Some (wire (header1 DEST_LINK PACKET_PROOF CONTEXT_RESOURCE_PRF lid proof_data)))"

section \<open>The tables keep their contract\<close>

interpretation known_table: bounded_table MAX_KNOWN "\<lambda>t. table_ok MAX_KNOWN (known_dests t) (known_order t)"
    known_dests insert_known
  by unfold_locales
    (auto simp: insert_known_def Let_def table_ok_size split: prod.splits dest: capped_insert_ok)

interpretation path_table: bounded_table MAX_PATHS "\<lambda>t. table_ok MAX_PATHS (paths t) (paths_order t)"
    paths insert_path
  by unfold_locales
    (auto simp: insert_path_def Let_def table_ok_size split: prod.splits dest: capped_insert_ok)

interpretation link_table: bounded_table MAX_LINKS "\<lambda>t. table_ok MAX_LINKS (links t) (links_order t)"
    links insert_link
  by unfold_locales
    (auto simp: insert_link_def Let_def table_ok_size split: prod.splits dest: capped_insert_ok)

interpretation pending_table: bounded_table MAX_PENDING_OUT
    "\<lambda>t. table_ok MAX_PENDING_OUT (pending_out t) (pending_out_order t)" pending_out insert_pending_out
  by unfold_locales
    (auto simp: insert_pending_out_def Let_def table_ok_size split: prod.splits dest: capped_insert_ok)

interpretation out_link_table: bounded_table MAX_OUT_LINKS
    "\<lambda>t. table_ok MAX_OUT_LINKS (out_links t) (out_links_order t)" out_links insert_out_link
  by unfold_locales
    (auto simp: insert_out_link_def Let_def table_ok_size split: prod.splits dest: capped_insert_ok)

interpretation receipt_table: bounded_table MAX_RECEIPTS
    "\<lambda>t. table_ok MAX_RECEIPTS (receipts t) (receipts_order t)" receipts insert_receipt
  by unfold_locales
    (auto simp: insert_receipt_def Let_def table_ok_size split: prod.splits dest: capped_insert_ok)

interpretation opp_table: bounded_table MAX_RECEIPTS
    "\<lambda>t. table_ok MAX_RECEIPTS (opp_receipts t) (opp_receipts_order t)" opp_receipts insert_opp_receipt
  by unfold_locales
    (auto simp: insert_opp_receipt_def Let_def table_ok_size split: prod.splits dest: capped_insert_ok)

section \<open>The invariant\<close>

definition link_ok :: "bytes \<Rightarrow> LinkState \<Rightarrow> bool" where
  "link_ok lid st \<longleftrightarrow> length lid = 16 \<and> length (ls_key st) = 64 \<and> length (ls_peer_sig_pub st) = 32"

definition pending_ok :: "bytes \<Rightarrow> PendingOut \<Rightarrow> bool" where
  "pending_ok lid p \<longleftrightarrow> length lid = 16 \<and> length (po_target p) = 16 \<and> length (po_eph_secret p) = 32 \<and>
     length (po_sig_seed p) = 32"

definition out_link_ok :: "bytes \<Rightarrow> OutLink \<Rightarrow> bool" where
  "out_link_ok lid l \<longleftrightarrow> length lid = 16 \<and> length (ol_target l) = 16 \<and> length (ol_key l) = 64 \<and>
     length (ol_sig_seed l) = 32"

definition receipt_ok :: "bytes \<Rightarrow> bytes \<Rightarrow> bool" where
  "receipt_ok phash lid \<longleftrightarrow> length phash = 32 \<and> length lid = 16"

definition opp_receipt_ok :: "bytes \<Rightarrow> OppReceipt \<Rightarrow> bool" where
  "opp_receipt_ok trunc r \<longleftrightarrow> length (or_full_hash r) = 32 \<and> trunc = take 16 (or_full_hash r)"

definition path_ok :: "bytes \<Rightarrow> PathEntry \<Rightarrow> bool" where
  "path_ok dest e \<longleftrightarrow> (\<forall>nh. pe_next_hop e = Some nh \<longrightarrow> length nh = 16)"

definition transport_ok :: "crypto \<Rightarrow> Transport \<Rightarrow> bool" where
  "transport_ok C t \<longleftrightarrow> identity_ok C (tr_identity t) \<and> distinct (our_dests t) \<and>
     table_all MAX_KNOWN (\<lambda>_ _. True) (known_dests t) (known_order t) \<and>
     table_all MAX_PATHS path_ok (paths t) (paths_order t) \<and>
     table_all MAX_LINKS link_ok (links t) (links_order t) \<and>
     table_all MAX_PENDING_OUT pending_ok (pending_out t) (pending_out_order t) \<and>
     table_all MAX_OUT_LINKS out_link_ok (out_links t) (out_links_order t) \<and>
     table_all MAX_RECEIPTS receipt_ok (receipts t) (receipts_order t) \<and>
     table_all MAX_RECEIPTS opp_receipt_ok (opp_receipts t) (opp_receipts_order t) \<and>
     hm_wf (out_resources t) \<and>
     (\<forall>lid tx. hm_get (out_resources t) lid = Some tx \<longrightarrow> sender_ok C tx)"

lemma insert_ok:
  assumes "transport_ok C t"
  shows "transport_ok C (insert_known h info t)" "path_ok h e \<Longrightarrow> transport_ok C (insert_path h e t)"
    "link_ok h st \<Longrightarrow> transport_ok C (insert_link h st t)"
    "pending_ok h po \<Longrightarrow> transport_ok C (insert_pending_out h po t)"
    "out_link_ok h ol \<Longrightarrow> transport_ok C (insert_out_link h ol t)"
    "receipt_ok h lid \<Longrightarrow> transport_ok C (insert_receipt h lid t)"
    "opp_receipt_ok h r \<Longrightarrow> transport_ok C (insert_opp_receipt h r t)"
  using assms
  by (simp_all add: transport_ok_def table_all_insert insert_known_def insert_path_def insert_link_def
      insert_pending_out_def insert_out_link_def insert_receipt_def insert_opp_receipt_def split_beta)

lemma remove_out_link_ok: "transport_ok C t \<Longrightarrow> transport_ok C (remove_out_link lid t)"
  by (simp add: transport_ok_def remove_out_link_def)

lemma forget_pending_ok: "transport_ok C t \<Longrightarrow> transport_ok C (forget_pending_link lid t)"
  by (simp add: transport_ok_def forget_pending_link_def)

lemma complete_handshake_64: "sized C \<Longrightarrow> complete_handshake C lid ex d peer = Some k \<Longrightarrow> length k = 64"
  by (auto dest!: complete_handshake_Some(3) simp: lens)

lemma accept_request_lengths:
  assumes "accept_request C p i eph = Some l" "sized C"
  shows "length (el_link_id l) = 16" "length (derived_key l) = 64" "length (peer_sig_pub l) = 32"
  using assms accept_requestD(1-3) [OF assms] by (auto simp: accept_request_def lens split: if_splits)

lemma first_some_holds: "(\<And>x. Some x \<in> set xs \<Longrightarrow> P x) \<Longrightarrow> P d \<Longrightarrow> P (first_some xs d)"
  by (induction xs d rule: first_some.induct) auto

lemma on_lrproof_ok:
  assumes "sized C" "transport_ok C t" "length (destination_hash p) = 16" "on_lrproof C t p = Some (e, t')"
  shows "transport_ok C t'"
proof -
  let ?t = "t\<lparr>pending_out := hm_remove (destination_hash p) (pending_out t)\<rparr>"
  obtain pend where pend: "hm_get (pending_out t) (destination_hash p) = Some pend"
    using assms(4) by (auto simp: on_lrproof_def Let_def split: if_splits option.splits)
  then have "pending_ok (destination_hash p) pend"
    using assms(2) by (auto simp: transport_ok_def dest: table_allD)
  moreover have "transport_ok C ?t" using assms(2) by (simp add: transport_ok_def)
  ultimately show ?thesis
    using assms(4) pend complete_handshake_64 [OF assms(1)]
    by (auto simp: on_lrproof_def Let_def pending_ok_def out_link_ok_def intro!: insert_ok(5)
        split: if_splits option.splits)
qed

lemma on_proofs_ok:
  assumes "transport_ok C t"
  shows "on_resource_proof t p = Some (e, t') \<Longrightarrow> transport_ok C t'"
    "on_packet_proof C ord t p = Some (e, t') \<Longrightarrow> transport_ok C t'"
    "on_opp_proof C t p = Some (e, t') \<Longrightarrow> transport_ok C t'"
    "on_out_link_data C t p = Some (e, t') \<Longrightarrow> transport_ok C t'"
  using assms
  by (auto simp: on_resource_proof_def on_packet_proof_def on_opp_proof_def on_out_link_data_def Let_def
      transport_ok_def remove_out_link_def split: if_splits option.splits sum.splits)

lemma on_in_link_ok:
  assumes "transport_ok C t" "on_in_link C eph t p = Some (e, t')"
  shows "transport_ok C t'"
proof -
  obtain st where st: "hm_get (links t) (destination_hash p) = Some st"
    using assms(2) by (auto simp: on_in_link_def Let_def split: option.splits)
  then have lo: "link_ok (destination_hash p) st" using assms(1) by (auto simp: transport_ok_def dest: table_allD)
  have "transport_ok C (snd (on_in_link_identify C t p pt))" for pt
    using assms(1) st lo
    by (auto simp: on_in_link_identify_def Let_def transport_ok_def link_ok_def intro!: table_all_update
        split: option.splits)
  moreover have "transport_ok C (snd (on_in_link_close t p pt))" for pt
    using assms(1) by (simp add: on_in_link_close_def Let_def transport_ok_def)
  moreover have "snd (on_in_link_keepalive C eph k t p pt) = t" for k pt
    by (simp add: on_in_link_keepalive_def Let_def split: sum.splits)
  ultimately show ?thesis
    using assms st by (fastforce simp: on_in_link_def Let_def split: if_splits sum.splits dest!: sndI)
qed

lemma on_other_ok:
  assumes "sized C" "transport_ok C t" "packet_ok p"
  shows "transport_ok C (snd (on_other C eph iface t p))"
proof -
  have "transport_ok C (snd (on_announce C iface t p))"
    using assms(2,3)
    by (auto simp: on_announce_def Let_def path_ok_def packet_ok_def intro!: insert_ok(1,2)
        split: option.splits HeaderType.splits)
  moreover have "transport_ok C (snd (on_link_request C eph t p))"
    using assms(2) accept_request_lengths [OF _ assms(1)]
    by (auto simp: on_link_request_def Let_def link_ok_def intro!: insert_ok(3) split: option.splits)
  ultimately show ?thesis
    using assms(2) by (auto simp: on_other_def on_path_request_def on_opportunistic_def Let_def split: sum.splits)
qed

lemma handle_frame_ok:
  assumes "sized C" "transport_ok C t"
  shows "transport_ok C (snd (handle_frame C ord eph iface raw t))"
proof (cases "packet_decode raw")
  case (Inr p)
  then have ok: "packet_ok p" by (rule packet_decode_ok)
  then have "length (destination_hash p) = 16" by (simp add: packet_ok_def)
  then have "transport_ok C (snd (handle_packet C ord eph iface t p))"
    unfolding handle_packet_def
    by (intro first_some_holds [where P = "\<lambda>x. transport_ok C (snd x)"] on_other_ok [OF assms ok])
      (auto dest!: sym [of "Some _"] dest: on_lrproof_ok [OF assms] on_proofs_ok [OF assms(2)] on_in_link_ok [OF assms(2)])
  then show ?thesis by (simp add: handle_frame_def Inr)
qed (simp add: handle_frame_def assms)

section \<open>Every reachable node\<close>

lemma foldl_keeps: "(\<And>x t. P t \<Longrightarrow> P (f t x)) \<Longrightarrow> P t \<Longrightarrow> P (foldl f t xs)"
  by (induction xs arbitrary: t) auto

lemma outbound_link_for_ok:
  assumes "transport_ok C t"
  shows "transport_ok C (snd (outbound_link_for ord target now t))"
proof -
  define t' where "t' = foldl (\<lambda>t lid. remove_out_link lid t) t (map fst
      (filter (\<lambda>(_, l). now > sat_add64 (ol_last_activity l) OUT_LINK_INACTIVITY_SECS) (out_links t)))"
  have ok: "transport_ok C t'" unfolding t'_def by (rule foldl_keeps) (simp_all add: remove_out_link_ok assms)
  have "transport_ok C (t'\<lparr>out_links := hm_insert k (l\<lparr>ol_last_activity := now\<rparr>) (out_links t')\<rparr>)"
    if "hm_get (out_links t') k = Some l" for k l
    using that ok
    by (auto simp: transport_ok_def intro!: table_all_update dest: table_allD)
      (auto simp: out_link_ok_def dest: table_allD)
  with ok show ?thesis
    unfolding outbound_link_for_def Let_def t'_def [symmetric] by (auto split: option.splits)
qed

lemma pending_link_to_eq:
  "pending_link_to target now t =
     (let t' = foldl (\<lambda>t lid. forget_pending_link lid t) t (map fst
        (filter (\<lambda>(_, p). now > sat_add64 (po_created p) (po_expiry_secs p)) (pending_out t)))
      in (list_ex (\<lambda>(_, p). po_target p = target) (pending_out t'), t'))"
  by (simp add: pending_link_to_def forget_pending_link_def Let_def)

text \<open>
  The public operations that change a node, in any order, with any argument of the Rust types.
\<close>

inductive node :: "crypto \<Rightarrow> Transport \<Rightarrow> bool" for C where
  start: "identity_ok C i \<Longrightarrow> node C (Transport_new i)"
| frame: "node C t \<Longrightarrow> node C (snd (handle_frame C ord eph iface raw t))"
| register: "node C t \<Longrightarrow> node C (register_destination h t)"
| remembered: "node C t \<Longrightarrow> node C (remember h info t)"
| interface_off: "node C t \<Longrightarrow> node C (drop_paths_on iface t)"
| path_expired: "node C t \<Longrightarrow> node C (snd (expire_path h t))"
| tracked: "node C t \<Longrightarrow> node C (snd (make_opportunistic_tracked C t h recipient ratchet pt ex iv))"
| request: "node C t \<Longrightarrow> length target = 16 \<Longrightarrow> length ex = 32 \<Longrightarrow> length es = 32 \<Longrightarrow>
    node C (snd (make_link_request C t target peer ex es now))"
| reuse: "node C t \<Longrightarrow> node C (snd (outbound_link_for ord target now t))"
| pending: "node C t \<Longrightarrow> node C (snd (pending_link_to target now t))"
| dropped: "node C t \<Longrightarrow> node C (drop_out_link lid t)"
| forgotten: "node C t \<Longrightarrow> node C (forget_pending_link lid t)"
| reset: "node C t \<Longrightarrow> node C (connection_reset t)"
| data: "node C t \<Longrightarrow> length lid = 16 \<Longrightarrow> node C (snd (make_link_data C lid pt iv t))"
| in_data: "node C t \<Longrightarrow> length lid = 16 \<Longrightarrow> node C (snd (make_in_link_data C lid pt iv t))"
| resource: "node C t \<Longrightarrow> length r = 4 \<Longrightarrow> length iv = 16 \<Longrightarrow>
    node C (snd (make_link_resource C lid d r prefix iv adv_iv t))"

lemma make_ok:
  assumes "sized C" "transport_ok C t"
  shows "transport_ok C (snd (make_opportunistic_tracked C t h recipient ratchet pt ex iv))"
    "length target = 16 \<Longrightarrow> length ex = 32 \<Longrightarrow> length es = 32 \<Longrightarrow>
       transport_ok C (snd (make_link_request C t target peer ex es now))"
    "length lid = 16 \<Longrightarrow> transport_ok C (snd (make_link_data C lid pt iv t))"
    "length lid = 16 \<Longrightarrow> transport_ok C (snd (make_in_link_data C lid pt iv t))"
  using assms
  by (auto simp: make_opportunistic_tracked_def make_link_request_def make_link_data_def
      make_in_link_data_def Let_def initiate_request_eq lens opp_receipt_ok_def pending_ok_def receipt_ok_def
      intro!: insert_ok split: option.splits sum.splits)

lemma make_link_resource_ok:
  assumes "sized C" "transport_ok C t" "length r = 4" "length iv = 16"
  shows "transport_ok C (snd (make_link_resource C lid d r prefix iv adv_iv t))"
proof -
  have "transport_ok C (t\<lparr>out_resources := hm_insert lid tx (out_resources t)\<rparr>)"
    if "ResourceSender_new C d key r prefix iv = Some tx" for key tx
    using ResourceSender_new_sender_ok [OF that assms(1,3,4)] assms(2) by (auto simp: transport_ok_def)
  then show ?thesis
    using assms(2) by (auto simp: make_link_resource_def split: option.splits sum.splits)
qed

lemma transport_ok_paths:
  "transport_ok C t \<Longrightarrow> table_all MAX_PATHS path_ok m os \<Longrightarrow> transport_ok C (t\<lparr>paths := m, paths_order := os\<rparr>)"
  by (simp add: transport_ok_def)

lemma drop_paths_on_ok: "transport_ok C t \<Longrightarrow> transport_ok C (drop_paths_on iface t)"
  unfolding drop_paths_on_def Let_def
  by (rule transport_ok_paths, assumption, rule table_all_filter, simp add: transport_ok_def)

lemma node_ok:
  assumes "sized C"
  shows "node C t \<Longrightarrow> transport_ok C t"
proof (induction rule: node.induct)
  case (interface_off t iface)
  show ?case by (rule drop_paths_on_ok [OF interface_off.IH])
next
  case (pending t target now)
  show ?case
    unfolding pending_link_to_eq Let_def snd_conv
    by (rule foldl_keeps [where P = "transport_ok C"]) (simp_all add: forget_pending_ok pending.IH)
next
  case (path_expired t h)
  then show ?case by (simp add: transport_ok_def expire_path_def Let_def)
qed (simp_all add: handle_frame_ok make_ok make_link_resource_ok outbound_link_for_ok assms insert_ok(1)
      remember_def drop_out_link_def remove_out_link_ok forget_pending_ok,
    simp_all add: transport_ok_def Transport_new_def register_destination_def connection_reset_def)

end
