(* ===== verification/ResourceTransfer.thy ===== *)
theory ResourceTransfer
  imports Resource
begin

text \<open>
  A whole resource transfer: our sender against our receiver. The receiver drives it, one request
  at a time; the sender answers with parts and, when asked, with a hashmap page. The network between
  them may reorder and repeat parts. The theory shows that such a transfer ends, with the
  sender's data at the receiver and a proof the sender accepts, and states what the receiver can
  rely on whatever it is fed.
\<close>

section \<open>One exchange\<close>

text \<open>The parts a request asked for arrive in some order, possibly more than once.\<close>

definition feed :: "crypto \<Rightarrow> ResourceReceiver \<Rightarrow> bytes list \<Rightarrow> ResourceReceiver" where
  "feed C = foldl (\<lambda>r p. snd (receive_part C r p))"

definition exchange ::
  "nat \<Rightarrow> crypto \<Rightarrow> (bytes list \<Rightarrow> bytes list) \<Rightarrow> ResourceSender \<Rightarrow> ResourceReceiver
     \<Rightarrow> ResourceReceiver outcome" where
  "exchange W C deliver s r =
     obind (next_request r) (\<lambda>(q, r).
       case q of
         None \<Rightarrow> Ok r
       | Some req \<Rightarrow>
           let (ps, hmu) = handle_request s req; r = feed C r (deliver ps)
           in case hmu of None \<Rightarrow> Ok r | Some h \<Rightarrow> receive_hashmap_update W r h)"

fun exchanges ::
  "nat \<Rightarrow> nat \<Rightarrow> crypto \<Rightarrow> (bytes list \<Rightarrow> bytes list) \<Rightarrow> ResourceSender \<Rightarrow> ResourceReceiver
     \<Rightarrow> ResourceReceiver outcome" where
  "exchanges 0 W C deliver s r = Ok r"
| "exchanges (Suc k) W C deliver s r = obind (exchange W C deliver s r) (exchanges k W C deliver s)"

section \<open>A receiver that tracks a sender\<close>

definition tracks :: "crypto \<Rightarrow> ResourceSender \<Rightarrow> ResourceReceiver \<Rightarrow> bool" where
  "tracks C s r \<longleftrightarrow> receiver_ok C r \<and>
     rr_hash r = rs_hash s \<and> rr_random_hash r = rs_random_hash s \<and>
     length (rr_parts r) = length (rs_parts s) \<and>
     (\<forall>i < length (rs_parts s). rr_map_hashes r ! i =
        (if i < rr_hashmap_height r then Some (rs_map_hashes s ! i) else None)) \<and>
     (rr_hashmap_height r = length (rs_parts s) \<or> rr_hashmap_height r mod HASHMAP_MAX_LEN = 0) \<and>
     (\<forall>i < length (rs_parts s). rr_parts r ! i = None \<or> rr_parts r ! i = Some (rs_parts s ! i)) \<and>
     \<not> rr_compressed r"

text \<open>What a transfer needs of its sender: sound hashes, and no two parts with the same map-hash.\<close>

definition transfer_ok :: "crypto \<Rightarrow> ResourceSender \<Rightarrow> bool" where
  "transfer_ok C s \<longleftrightarrow> sized C \<and> sender_ok C s \<and> distinct (rs_map_hashes s)"

abbreviation nparts :: "ResourceSender \<Rightarrow> nat" where
  "nparts s \<equiv> length (rs_parts s)"

lemma length_hashes: "transfer_ok C s \<Longrightarrow> length (rs_map_hashes s) = nparts s"
  by (simp add: transfer_ok_def sender_ok_def)

lemma hash_nth:
  "transfer_ok C s \<Longrightarrow> i < nparts s \<Longrightarrow> rs_map_hashes s ! i = part_hash C (rs_parts s ! i) (rs_random_hash s)"
  by (simp add: transfer_ok_def sender_ok_def)

lemma hash_inj:
  "transfer_ok C s \<Longrightarrow> i < nparts s \<Longrightarrow> j < nparts s \<Longrightarrow> rs_map_hashes s ! i = rs_map_hashes s ! j \<Longrightarrow> i = j"
  using length_hashes [of C s] by (simp add: transfer_ok_def nth_eq_iff_index_eq)

lemma tracksD:
  assumes "tracks C s r"
  shows "receiver_ok C r" "rr_hash r = rs_hash s" "rr_random_hash r = rs_random_hash s"
    "length (rr_parts r) = nparts s" "length (rr_map_hashes r) = nparts s"
    "\<And>i. i < nparts s \<Longrightarrow> rr_map_hashes r ! i =
       (if i < rr_hashmap_height r then Some (rs_map_hashes s ! i) else None)"
    "rr_hashmap_height r = nparts s \<or> rr_hashmap_height r mod 74 = 0"
    "\<And>i. i < nparts s \<Longrightarrow> rr_parts r ! i = None \<or> rr_parts r ! i = Some (rs_parts s ! i)"
    "rr_consecutive r \<le> nparts s" "\<And>i. i < rr_consecutive r \<Longrightarrow> rr_parts r ! i \<noteq> None"
    "rr_consecutive r < nparts s \<Longrightarrow> rr_parts r ! rr_consecutive r = None"
    "0 < rr_hashmap_height r" "rr_hashmap_height r \<le> nparts s" "4 \<le> rr_window r" "rr_window r \<le> 75"
    "nparts s \<le> 566" "rr_received r = arrived (rr_parts r)" "\<not> rr_compressed r"
  using assms arrived_le [of "rr_map_hashes r"] by (auto simp: tracks_def receiver_ok_def)

lemma incomplete_missing:
  assumes "tracks C s r" "\<not> is_complete r"
  shows "rr_consecutive r < nparts s"
proof (rule ccontr)
  assume "\<not> rr_consecutive r < nparts s"
  then have "arrived (rr_parts r) = length (rr_parts r)"
    unfolding arrived_all using tracksD(4,9,10) [OF assms(1)] by auto
  with assms(2) tracksD(17) [OF assms(1)] show False by (simp add: is_complete_def)
qed

section \<open>Receiving genuine parts\<close>

lemma receive_genuine:
  assumes ok: "transfer_ok C s" and t: "tracks C s r" and j: "j < nparts s"
  defines "r' \<equiv> snd (receive_part C r (rs_parts s ! j))"
  shows "tracks C s r'" "rr_hashmap_height r' = rr_hashmap_height r"
    "rr_waiting_for_hmu r' = rr_waiting_for_hmu r" "rr_received r \<le> rr_received r'"
    "rr_consecutive r \<le> rr_consecutive r'" "rr_window r \<le> rr_window r'"
    "\<And>i. rr_parts r ! i \<noteq> None \<Longrightarrow> i < nparts s \<Longrightarrow> rr_parts r' ! i \<noteq> None"
    "rr_consecutive r \<le> j \<Longrightarrow> j < window_end r \<Longrightarrow> j < rr_hashmap_height r \<Longrightarrow> rr_parts r' ! j \<noteq> None"
proof -
  note T = tracksD [OF t]
  have all: "tracks C s r' \<and> rr_hashmap_height r' = rr_hashmap_height r \<and>
    rr_waiting_for_hmu r' = rr_waiting_for_hmu r \<and> rr_received r \<le> rr_received r' \<and>
    rr_consecutive r \<le> rr_consecutive r' \<and> rr_window r \<le> rr_window r' \<and>
    (\<forall>i. rr_parts r ! i \<noteq> None \<longrightarrow> i < nparts s \<longrightarrow> rr_parts r' ! i \<noteq> None) \<and>
    (rr_consecutive r \<le> j \<longrightarrow> j < window_end r \<longrightarrow> j < rr_hashmap_height r \<longrightarrow> rr_parts r' ! j \<noteq> None)"
  proof (cases rule: receive_part_cases [of C r "rs_parts s ! j"])
    case none
    then have "r' = r" by (simp add: r'_def)
    moreover have "rr_parts r ! j \<noteq> None"
      if "rr_consecutive r \<le> j" "j < window_end r" "j < rr_hashmap_height r"
      using none(2) [OF that(1,2)] T(3) T(6) [OF j] that(3) hash_nth [OF ok j] by simp
    ultimately show ?thesis using t by simp
  next
    case (stored i)
    have i: "i < nparts s" using stored(2) T(4) by simp
    have "rr_map_hashes r ! i = Some (rs_map_hashes s ! j)"
      using stored(3) T(3) hash_nth [OF ok j] by simp
    with T(6) [OF i] have "rs_map_hashes s ! i = rs_map_hashes s ! j" by (auto split: if_splits)
    with hash_inj [OF ok i j] have ij: "i = j" by simp
    note st = stored [folded r'_def, unfolded ij]
    have rok: "receiver_ok C r'" using T(1) unfolding r'_def by (rule receive_part_ok)
    have pre: "rr_consecutive r \<le> length ((rr_parts r)[j := Some (rs_parts s ! j)])"
      "\<forall>k < rr_consecutive r. (rr_parts r)[j := Some (rs_parts s ! j)] ! k \<noteq> None"
      using T(4,9,10) st(1) by auto
    have parts: "rr_parts r' ! k = None \<or> rr_parts r' ! k = Some (rs_parts s ! k)" if "k < nparts s" for k
      using T(8) [OF that] T(4) that st(5) by (cases "k = j") auto
    have "tracks C s r'"
      unfolding tracks_def using rok T(2,3,4,5,6,7,18) st parts by simp
    moreover have "rr_consecutive r \<le> rr_consecutive r'"
      using skip_received_props(1) [OF pre] st(7) by simp
    moreover have "rr_window r \<le> rr_window r'" using st(8) T(15) by auto
    ultimately show ?thesis using st j T(4) by (auto simp: nth_list_update)
  qed
  then show "tracks C s r'" "rr_hashmap_height r' = rr_hashmap_height r"
    "rr_waiting_for_hmu r' = rr_waiting_for_hmu r" "rr_received r \<le> rr_received r'"
    "rr_consecutive r \<le> rr_consecutive r'" "rr_window r \<le> rr_window r'"
    "\<And>i. rr_parts r ! i \<noteq> None \<Longrightarrow> i < nparts s \<Longrightarrow> rr_parts r' ! i \<noteq> None"
    "rr_consecutive r \<le> j \<Longrightarrow> j < window_end r \<Longrightarrow> j < rr_hashmap_height r \<Longrightarrow> rr_parts r' ! j \<noteq> None"
    by auto
qed

lemma missing_after:
  "tracks C s r \<Longrightarrow> i < nparts s \<Longrightarrow> rr_parts r ! i = None \<Longrightarrow> rr_consecutive r \<le> i"
  using tracksD(10) by (metis not_less)

lemma feed_genuine:
  assumes ok: "transfer_ok C s" and "set ps \<subseteq> set (rs_parts s)" "tracks C s r"
  shows "tracks C s (feed C r ps) \<and> rr_hashmap_height (feed C r ps) = rr_hashmap_height r \<and>
    rr_waiting_for_hmu (feed C r ps) = rr_waiting_for_hmu r \<and> rr_received r \<le> rr_received (feed C r ps) \<and>
    (\<forall>i < nparts s. rr_parts r ! i \<noteq> None \<longrightarrow> rr_parts (feed C r ps) ! i \<noteq> None)"
  using assms(2-)
proof (induction ps arbitrary: r)
  case Nil
  then show ?case by (simp add: feed_def)
next
  case (Cons p ps)
  then obtain j where j: "j < nparts s" "p = rs_parts s ! j" by (auto simp: in_set_conv_nth)
  note g = receive_genuine [OF ok Cons.prems(2) j(1), folded j(2)]
  have f: "feed C r (p # ps) = feed C (snd (receive_part C r p)) ps" by (simp add: feed_def)
  from Cons.IH [OF _ g(1)] Cons.prems(1) g show ?case unfolding f by fastforce
qed

lemma feed_gets:
  assumes ok: "transfer_ok C s" and "set ps \<subseteq> set (rs_parts s)" "tracks C s r" "rs_parts s ! i \<in> set ps" "i < nparts s"
    "rr_consecutive r \<le> i" "i < window_end r" "i < rr_hashmap_height r"
  shows "rr_parts (feed C r ps) ! i \<noteq> None"
  using assms(2-)
proof (induction ps arbitrary: r)
  case Nil
  then show ?case by simp
next
  case (Cons p ps)
  then obtain j where j: "j < nparts s" "p = rs_parts s ! j" by (auto simp: in_set_conv_nth)
  let ?r = "snd (receive_part C r p)"
  note g = receive_genuine [OF ok Cons.prems(2) j(1), folded j(2)]
  have f: "feed C r (p # ps) = feed C ?r ps" by (simp add: feed_def)
  have sub: "set ps \<subseteq> set (rs_parts s)" using Cons.prems(1) by simp
  show ?case
  proof (cases "rr_parts ?r ! i = None")
    case True
    have "rr_consecutive ?r \<le> i" using missing_after [OF g(1) \<open>i < nparts s\<close> True] .
    moreover have "i < window_end ?r"
      using Cons.prems(6) g(5,6) tracksD(4) [OF g(1)] tracksD(4) [OF Cons.prems(2)] by auto
    moreover have "rs_parts s ! i \<in> set ps"
    proof (rule ccontr)
      assume "rs_parts s ! i \<notin> set ps"
      with Cons.prems(3) j(2) have "rs_parts s ! i = rs_parts s ! j" by simp
      with hash_nth [OF ok \<open>i < nparts s\<close>] hash_nth [OF ok j(1)] hash_inj [OF ok \<open>i < nparts s\<close> j(1)] have "i = j" by simp
      with g(8) Cons.prems(5-7) True show False by simp
    qed
    ultimately show ?thesis
      unfolding f using Cons.IH [OF sub g(1)] Cons.prems(4,7) g(2) by simp
  next
    case False
    with feed_genuine [OF ok sub g(1)] \<open>i < nparts s\<close> show ?thesis unfolding f by blast
  qed
qed

section \<open>Requests and answers\<close>

lemma request_walk_tracks:
  assumes "tracks C s r" "set is \<subseteq> {..<nparts s}" "request_walk r is = (req, m, ex)"
  shows "\<exists>idxs. req = concat (map ((!) (rs_map_hashes s)) idxs) \<and>
    set idxs \<subseteq> {i \<in> set is. i < rr_hashmap_height r \<and> rr_parts r ! i = None} \<and>
    (ex \<longrightarrow> (\<exists>i\<in>set is. rr_hashmap_height r \<le> i)) \<and>
    (is \<noteq> [] \<longrightarrow> rr_parts r ! hd is = None \<longrightarrow>
       (if hd is < rr_hashmap_height r then hd is \<in> set idxs else ex \<and> req = []))"
  using assms(2,3)
proof (induction "is" arbitrary: req m ex)
  case Nil
  then show ?case by (intro exI [of _ "[]"]) simp
next
  case (Cons i "is")
  have i: "i < nparts s" and sub: "set is \<subseteq> {..<nparts s}" using Cons.prems(1) by auto
  obtain req' m' ex' where w: "request_walk r is = (req', m', ex')" by (metis prod_cases3)
  from Cons.IH [OF sub w] obtain idxs where idxs: "req' = concat (map ((!) (rs_map_hashes s)) idxs)"
      "set idxs \<subseteq> {i \<in> set is. i < rr_hashmap_height r \<and> rr_parts r ! i = None}"
      "ex' \<longrightarrow> (\<exists>i\<in>set is. rr_hashmap_height r \<le> i)" by blast
  consider (got) "rr_parts r ! i \<noteq> None" | (known) "rr_parts r ! i = None" "i < rr_hashmap_height r"
    | (unknown) "rr_parts r ! i = None" "rr_hashmap_height r \<le> i" by fastforce
  then show ?case
  proof cases
    case got
    with Cons.prems(2) w have "req = req'" "ex = ex'" by auto
    with got idxs show ?thesis by (intro exI [of _ idxs]) auto
  next
    case known
    with tracksD(6) [OF assms(1) i] Cons.prems(2) w have "req = rs_map_hashes s ! i @ req'" "ex = ex'" by auto
    with known idxs show ?thesis by (intro exI [of _ "i # idxs"]) auto
  next
    case unknown
    with tracksD(6) [OF assms(1) i] Cons.prems(2) have "req = []" ex by auto
    with unknown show ?thesis by (intro exI [of _ "[]"]) auto
  qed
qed

lemma position_nth: "distinct xs \<Longrightarrow> i < length xs \<Longrightarrow> position (xs ! i) xs = Some i"
proof (induction xs arbitrary: i)
  case (Cons x xs)
  then show ?case by (cases i) auto
qed simp

lemma served_parts:
  assumes "transfer_ok C s" "set idxs \<subseteq> {..<nparts s}"
  shows "concat (map (\<lambda>w. case position w (rs_map_hashes s) of Some i \<Rightarrow> [rs_parts s ! i] | None \<Rightarrow> [])
      (chunks_exact 4 (concat (map ((!) (rs_map_hashes s)) idxs)))) = map ((!) (rs_parts s)) idxs"
proof -
  have four: "\<forall>h\<in>set (rs_map_hashes s). length h = 4"
    using assms(1) by (auto simp: transfer_ok_def intro: sender_hashes_4 [THEN bspec])
  have "chunks_exact 4 (concat (map ((!) (rs_map_hashes s)) idxs)) = map ((!) (rs_map_hashes s)) idxs"
    using assms(2) four length_hashes [OF assms(1)] by (intro chunks_exact_concat) auto
  moreover have "position (rs_map_hashes s ! i) (rs_map_hashes s) = Some i" if "i \<in> set idxs" for i
    using that assms length_hashes [OF assms(1)] by (intro position_nth) (auto simp: transfer_ok_def)
  ultimately show ?thesis by (simp add: o_def) (simp add: concat_map_singleton cong: map_cong)
qed

text \<open>The page after height \<open>h\<close>, and what the receiver makes of it.\<close>

definition page_bytes :: "ResourceSender \<Rightarrow> nat \<Rightarrow> bytes" where
  "page_bytes s h = concat (take 74 (drop h (rs_map_hashes s)))"

lemma hashmap_update_page:
  assumes "transfer_ok C s" "0 < h" "h \<le> nparts s" "h mod 74 = 0" "nparts s \<le> 566"
  shows "hashmap_update s (rs_map_hashes s ! (h - 1)) =
    Some (rs_hash s @ 0x92 # adv_uint (h div 74) @ adv_bin (page_bytes s h))"
proof -
  have "position (rs_map_hashes s ! (h - 1)) (rs_map_hashes s) = Some (h - 1)"
    using assms length_hashes [OF assms(1)] by (intro position_nth) (auto simp: transfer_ok_def)
  moreover have "h div 74 < 128" using assms(3,5) by (simp add: div_less_iff_less_mult)
  moreover have "h div 74 * 74 = h" using assms(4) by (simp add: mod_0_imp_dvd)
  ultimately show ?thesis
    using assms(2,4)
    by (simp add: hashmap_update_def Let_def page_bytes_def adv_uint_def adv_bin_def)
qed

lemma parse_hashmap_update_page:
  assumes "page < 128" "length bs \<le> 296" "16 \<le> W"
  shows "parse_hashmap_update W (0x92 # adv_uint page @ adv_bin bs) = Ok (page, bs)"
proof -
  have big: "2 ^ 16 \<le> (2 :: nat) ^ W" using assms(3) by (intro power_increasing) auto
  have start: "\<lparr>rd_b = 0x92 # xs, rd_i = 0\<rparr> = reader_at [] (0x92 # xs)" for xs
    by (simp add: reader_at_def)
  have "array_len W (reader_at [] (0x92 # xs)) = Ok (2, reader_at [0x92] xs)" for xs
    by (simp add: array_len_def rd_u8_at)
  moreover have "rd_uint W (reader_at [0x92] (adv_uint page @ xs)) =
      Ok (page, reader_at ([0x92] @ adv_uint page) xs)" for xs
    using assms(1) big by (intro rd_uint_at) auto
  moreover have "rd_bin W (reader_at ([0x92] @ adv_uint page) (adv_bin bs @ [])) =
      Ok (bs, reader_at (([0x92] @ adv_uint page) @ adv_bin bs) [])"
    using assms(2) big length_adv_le(1) [of page] by (intro rd_bin_at) auto
  moreover have "page mod 2 ^ W = page" using assms(1) big by simp
  ultimately show ?thesis unfolding parse_hashmap_update_def start by simp
qed

lemma fill_hashes_fresh:
  assumes "length mh < 2 ^ W"
  shows "base + k + length cs \<le> length mh \<Longrightarrow> (\<forall>i. base + k \<le> i \<and> i < length mh \<longrightarrow> mh ! i = None) \<Longrightarrow>
    fill_hashes W base k cs (mh, h) =
      (take (base + k) mh @ map Some cs @ drop (base + k + length cs) mh, h + length cs)"
  using assms
proof (induction cs arbitrary: mh h k)
  case (Cons c cs)
  have m: "(base + k) mod 2 ^ W = base + k" using Cons.prems by simp
  have "fill_hashes W base k (c # cs) (mh, h) = fill_hashes W base (k + 1) cs (mh[base + k := Some c], h + 1)"
    using Cons.prems(1,2) m by (simp add: Let_def)
  also have "\<dots> = (take (base + (k + 1)) (mh[base + k := Some c]) @ map Some cs @
      drop (base + (k + 1) + length cs) (mh[base + k := Some c]), h + 1 + length cs)"
    using Cons.prems by (intro Cons.IH) auto
  also have "take (base + (k + 1)) (mh[base + k := Some c]) = take (base + k) mh @ [Some c]"
    using Cons.prems(1) by (simp add: take_Suc_conv_app_nth)
  finally show ?case using Cons.prems(1) by simp
qed simp

lemma receive_page:
  assumes ok: "transfer_ok C s" and t: "tracks C s r" and W: "16 \<le> W"
    and h: "h = rr_hashmap_height r" "h < nparts s"
  shows "\<exists>r'. receive_hashmap_update W r (rs_hash s @ 0x92 # adv_uint (h div 74) @ adv_bin (page_bytes s h)) = Ok r' \<and>
    tracks C s r' \<and> h < rr_hashmap_height r' \<and> \<not> rr_waiting_for_hmu r' \<and> rr_received r' = rr_received r"
proof -
  note T = tracksD [OF t]
  define cs where "cs = take 74 (drop h (rs_map_hashes s))"
  have hl: "length (rs_map_hashes s) = nparts s" using ok by (rule length_hashes)
  have four: "\<forall>x\<in>set cs. length x = 4"
    using ok sender_hashes_4 [of C s] by (auto simp: cs_def transfer_ok_def dest!: in_set_takeD in_set_dropD)
  have cs: "chunks_exact 4 (page_bytes s h) = cs" "length (page_bytes s h) \<le> 296" "length cs = min 74 (nparts s - h)"
    using four length_concat_hashes [OF four] hl
    by (auto simp: page_bytes_def cs_def [symmetric] intro!: chunks_exact_concat) (auto simp: cs_def)
  have m: "h mod 74 = 0" using T(7) h by auto
  have d: "h div 74 * 74 = h" using m by (simp add: mod_0_imp_dvd)
  have big: "2 ^ 16 \<le> (2 :: nat) ^ W" using W by (intro power_increasing) auto
  have hd: "h div 74 < 128" using h(2) T(16) by (simp add: div_less_iff_less_mult)
  let ?mh = "take h (rr_map_hashes r) @ map Some cs @ drop (h + length cs) (rr_map_hashes r)"
  have fill: "fill_hashes W h 0 cs (rr_map_hashes r, h) = (?mh, h + length cs)"
    using fill_hashes_fresh [of "rr_map_hashes r" W h 0 cs h] T(5,6,16) h big cs(3) by auto
  let ?r = "r\<lparr>rr_map_hashes := ?mh, rr_hashmap_height := h + length cs, rr_waiting_for_hmu := False\<rparr>"
  have hw: "h mod 2 ^ W = h" using h(2) T(16) big by simp
  have len: "length (rs_hash s) = 32" using ok by (simp add: transfer_ok_def sender_ok_def)
  have upd: "receive_hashmap_update W r (rs_hash s @ 0x92 # adv_uint (h div 74) @ adv_bin (page_bytes s h)) = Ok ?r"
    using T(2) len fill [unfolded h(1)] parse_hashmap_update_page [OF hd cs(2) W] cs(1) d hw
    by (simp add: receive_hashmap_update_def h(1))
  have nth: "?mh ! i = (if i < h + length cs then Some (rs_map_hashes s ! i) else None)" if "i < nparts s" for i
    using T(5) T(6) [OF that] h(1) that cs(3) hl h(2)
    by (auto simp: nth_append cs_def not_less less_diff_conv2)
  have "h + length cs = nparts s \<or> (h + length cs) mod 74 = 0" using cs(3) h(2) m by (auto simp: min_def)
  then have "tracks C s ?r"
    using receive_hashmap_update_ok [OF T(1) upd] T nth by (simp add: tracks_def)
  with upd cs(3) h(2) show ?thesis by auto
qed

lemma arrived_strict:
  assumes "length qs = length ps" "\<And>i. i < length ps \<Longrightarrow> ps ! i \<noteq> None \<Longrightarrow> qs ! i \<noteq> None"
    and "c < length ps" "ps ! c = None" "qs ! c \<noteq> None"
  shows "arrived ps < arrived qs"
proof -
  let ?P = "{i. i < length ps \<and> ps ! i \<noteq> None}" and ?Q = "{i. i < length qs \<and> qs ! i \<noteq> None}"
  have "?P \<subseteq> ?Q" using assms(1,2) by auto
  moreover have "c \<in> ?Q" "c \<notin> ?P" using assms(1,3-5) by simp_all
  ultimately have "?P \<subset> ?Q" by blast
  then have "card ?P < card ?Q" by (intro psubset_card_mono) auto
  then show ?thesis unfolding arrived_def length_filter_conv_card .
qed

lemma tracks_update [simp]:
  "tracks C s (r\<lparr>rr_outstanding := m\<rparr>) = tracks C s r"
  "tracks C s (r\<lparr>rr_waiting_for_hmu := b\<rparr>) = tracks C s r"
  by (simp_all add: tracks_def)

text \<open>What a request of a tracking receiver asks for, and what the sender returns.\<close>

lemma next_request_tracks:
  assumes ok: "transfer_ok C s" and t: "tracks C s r" and inc: "\<not> is_complete r" "\<not> rr_waiting_for_hmu r"
  obtains req m ps ex where
    "next_request r = Ok (Some req, r\<lparr>rr_outstanding := m, rr_waiting_for_hmu := ex\<rparr>)"
    "set ps \<subseteq> set (rs_parts s)"
    "handle_request s req = (ps, if ex
        then Some (rs_hash s @ 0x92 # adv_uint (rr_hashmap_height r div 74)
          @ adv_bin (page_bytes s (rr_hashmap_height r))) else None)"
    "ex \<Longrightarrow> rr_hashmap_height r < nparts s"
    "if rr_consecutive r < rr_hashmap_height r then rs_parts s ! rr_consecutive r \<in> set ps else ex"
proof -
  note T = tracksD [OF t]
  let ?c = "rr_consecutive r" and ?h = "rr_hashmap_height r"
  have c: "?c < nparts s" using incomplete_missing [OF t inc(1)] .
  define js where "js = [?c..<window_end r]"
  have js: "set js \<subseteq> {..<nparts s}" "js \<noteq> []" "hd js = ?c" using T(4,14) c by (auto simp: js_def)
  obtain req m ex where w: "request_walk r js = (req, m, ex)" by (rule prod_cases3)
  obtain idxs where idxs: "req = concat (map ((!) (rs_map_hashes s)) idxs)"
      "set idxs \<subseteq> {i \<in> set js. i < ?h \<and> rr_parts r ! i = None}"
      "ex \<longrightarrow> (\<exists>i\<in>set js. ?h \<le> i)" "if ?c < ?h then ?c \<in> set idxs else ex \<and> req = []"
    using request_walk_tracks [OF t js(1) w] T(11) [OF c] js(2,3) by (elim exE conjE) (simp only: simp_thms)
  have sub: "set idxs \<subseteq> {..<nparts s}" using idxs(2) js(1) by auto
  have exh: "?h < nparts s" if ex using idxs(3) that js(1) by fastforce
  have last: "rr_map_hashes r ! (?h - 1) = Some (rs_map_hashes s ! (?h - 1))"
    using T(6) [of "?h - 1"] T(12,13) by simp
  have four: "\<forall>h\<in>set (rs_map_hashes s). length h = 4"
    using ok by (auto simp: transfer_ok_def intro: sender_hashes_4 [THEN bspec])
  have len: "length (rs_hash s) = 32" using ok by (simp add: transfer_ok_def sender_ok_def)
  have l4: "length (rs_map_hashes s ! (?h - 1)) = 4"
    using four T(12,13) length_hashes [OF ok] by (simp add: Suc_le_eq)
  have ne: "req \<noteq> [] \<or> ex"
  proof (cases "?c < ?h")
    case True
    then have "rs_map_hashes s ! ?c \<noteq> []" "?c \<in> set idxs"
      using idxs(4) four c length_hashes [OF ok] nth_mem [of ?c "rs_map_hashes s"] by force+
    then show ?thesis using idxs(1) by auto
  qed (use idxs(4) in auto)
  let ?req = "if ex then HASHMAP_EXHAUSTED # rs_map_hashes s ! (?h - 1) @ rs_hash s @ req
    else HASHMAP_NOT_EXHAUSTED # rs_hash s @ req"
  have nr: "next_request r = Ok (Some ?req, r\<lparr>rr_outstanding := m, rr_waiting_for_hmu := ex\<rparr>)"
    using inc ne w [unfolded js_def] last T(2,5,12,13) by (cases ex) (auto simp: next_request_def)
  have upd: "hashmap_update s (rs_map_hashes s ! (?h - 1)) =
      Some (rs_hash s @ 0x92 # adv_uint (?h div 74) @ adv_bin (page_bytes s ?h))" if ex
    using hashmap_update_page [OF ok T(12,13) _ T(16)] T(7) exh [OF that] by auto
  have hr: "handle_request s ?req = (map ((!) (rs_parts s)) idxs, if ex
      then Some (rs_hash s @ 0x92 # adv_uint (?h div 74) @ adv_bin (page_bytes s ?h)) else None)"
    using served_parts [OF ok sub] len l4 upd idxs(1) by (cases ex) (simp_all add: handle_request_def)
  show thesis
  proof (rule that [OF nr _ hr])
    show "set (map ((!) (rs_parts s)) idxs) \<subseteq> set (rs_parts s)" using sub by auto
    show "ex \<Longrightarrow> ?h < nparts s" by (rule exh)
    show "if ?c < ?h then rs_parts s ! ?c \<in> set (map ((!) (rs_parts s)) idxs) else ex"
      using idxs(4) by (auto split: if_splits)
  qed
qed

section \<open>Progress\<close>

definition delivers_all :: "(bytes list \<Rightarrow> bytes list) \<Rightarrow> bool" where
  "delivers_all deliver \<longleftrightarrow> (\<forall>ps. set (deliver ps) = set ps)"

lemma exchange_progress:
  assumes ok: "transfer_ok C s" and t: "tracks C s r" and inc: "\<not> is_complete r" "\<not> rr_waiting_for_hmu r"
    and W: "16 \<le> W" and D: "delivers_all deliver"
  shows "\<exists>r'. exchange W C deliver s r = Ok r' \<and> tracks C s r' \<and> \<not> rr_waiting_for_hmu r' \<and>
    rr_received r + rr_hashmap_height r < rr_received r' + rr_hashmap_height r'"
proof -
  note T = tracksD [OF t]
  have c: "rr_consecutive r < nparts s" using incomplete_missing [OF t inc(1)] .
  obtain req m ps ex where q: "next_request r = Ok (Some req, r\<lparr>rr_outstanding := m, rr_waiting_for_hmu := ex\<rparr>)"
    "set ps \<subseteq> set (rs_parts s)"
    "handle_request s req = (ps, if ex
        then Some (rs_hash s @ 0x92 # adv_uint (rr_hashmap_height r div 74)
          @ adv_bin (page_bytes s (rr_hashmap_height r))) else None)"
    "ex \<Longrightarrow> rr_hashmap_height r < nparts s"
    "if rr_consecutive r < rr_hashmap_height r then rs_parts s ! rr_consecutive r \<in> set ps else ex"
    by (rule next_request_tracks [OF ok t inc]) blast
  define r1 where "r1 = r\<lparr>rr_outstanding := m, rr_waiting_for_hmu := ex\<rparr>"
  define r2 where "r2 = feed C r1 (deliver ps)"
  have r1: "tracks C s r1" "rr_parts r1 = rr_parts r" "rr_hashmap_height r1 = rr_hashmap_height r"
    "rr_received r1 = rr_received r" "rr_consecutive r1 = rr_consecutive r" "rr_window r1 = rr_window r"
    "rr_waiting_for_hmu r1 = ex"
    using t by (simp_all add: r1_def tracks_def)
  have sub: "set (deliver ps) \<subseteq> set (rs_parts s)" using q(2) D by (simp add: delivers_all_def)
  have g: "tracks C s r2" "rr_hashmap_height r2 = rr_hashmap_height r" "rr_waiting_for_hmu r2 = ex"
    "rr_received r \<le> rr_received r2" "\<And>i. i < nparts s \<Longrightarrow> rr_parts r ! i \<noteq> None \<Longrightarrow> rr_parts r2 ! i \<noteq> None"
    using feed_genuine [OF ok sub r1(1), folded r2_def] r1 by simp_all
  have more: "rr_received r < rr_received r2" if h: "rr_consecutive r < rr_hashmap_height r"
  proof -
    have "rr_parts r2 ! rr_consecutive r \<noteq> None"
      using feed_gets [OF ok sub r1(1) _ c] q(5) h r1 D T(4,14) c by (auto simp: r2_def delivers_all_def)
    then show ?thesis
      using arrived_strict [of "rr_parts r2" "rr_parts r" "rr_consecutive r"] g(5) tracksD(4,17) [OF g(1)] T(4,11,17) c
      by simp
  qed
  have ex: "exchange W C deliver s r = (if ex then receive_hashmap_update W r2 (rs_hash s @ 0x92
      # adv_uint (rr_hashmap_height r div 74) @ adv_bin (page_bytes s (rr_hashmap_height r))) else Ok r2)"
    using q(1,3) by (simp add: exchange_def r2_def r1_def)
  show ?thesis
  proof (cases ex)
    case True
    then show ?thesis using receive_page [OF ok g(1) W g(2) [symmetric] q(4)] ex g(4) by fastforce
  next
    case False
    then show ?thesis using ex g more q(5) by (auto split: if_splits)
  qed
qed

lemma exchange_done: "is_complete r \<Longrightarrow> exchange W C deliver s r = Ok r"
  by (simp add: exchange_def next_request_def)

lemma exchanges_complete:
  assumes ok: "transfer_ok C s" and W: "16 \<le> W" and D: "delivers_all deliver"
  shows "tracks C s r \<Longrightarrow> \<not> rr_waiting_for_hmu r \<Longrightarrow>
    2 * nparts s \<le> k + rr_received r + rr_hashmap_height r \<Longrightarrow>
    \<exists>r'. exchanges k W C deliver s r = Ok r' \<and> tracks C s r' \<and> is_complete r'"
proof (induction k arbitrary: r)
  case 0
  then have "is_complete r"
    using tracksD(4,13,17) [OF 0(1)] arrived_le [of "rr_parts r"] by (simp add: is_complete_def)
  with 0 show ?case by simp
next
  case (Suc k)
  show ?case
  proof (cases "is_complete r")
    case True
    have "exchanges n W C deliver s r = Ok r" for n
      by (induction n) (simp_all add: exchange_done True)
    with True Suc.prems show ?thesis by blast
  next
    case False
    then obtain r' where "exchange W C deliver s r = Ok r'" "tracks C s r'" "\<not> rr_waiting_for_hmu r'"
      "rr_received r + rr_hashmap_height r < rr_received r' + rr_hashmap_height r'"
      using exchange_progress [OF ok Suc.prems(1) _ Suc.prems(2) W D] by blast
    with Suc.IH [of r'] Suc.prems(3) show ?thesis by simp
  qed
qed

section \<open>From the advertisement to the data\<close>

lemma slice_concat_4:
  assumes "\<forall>x\<in>set xs. length x = 4" "i < length xs"
  shows "slice (i * 4) ((i + 1) * 4) (concat xs) = xs ! i"
  using assms
proof (induction xs arbitrary: i)
  case (Cons x xs)
  then show ?case by (cases i) (auto simp: slice_def algebra_simps)
qed simp

lemma accept_tracks:
  assumes ok: "transfer_ok C s" and n: "nparts s \<le> 565" and W: "16 \<le> W"
  shows "\<exists>r. accept W (advertisement s) = Ok r \<and> tracks C s r \<and> \<not> rr_waiting_for_hmu r"
proof -
  have s: "sized C" "sender_ok C s" using ok by (simp_all add: transfer_ok_def)
  have four: "\<forall>h\<in>set (rs_map_hashes s). length h = 4" using sender_hashes_4 [OF s] .
  let ?page = "concat (take 74 (rs_map_hashes s))"
  have pl: "length ?page = 4 * min (nparts s) 74"
    using four length_hashes [OF ok] by (subst length_concat_hashes) (auto dest: in_set_takeD)
  have pos: "0 < nparts s" using s(2) by (simp add: sender_ok_def)
  have sl: "slice (i * 4) ((i + 1) * 4) ?page = rs_map_hashes s ! i" if "i < min 74 (nparts s)" for i
    using slice_concat_4 [of "take 74 (rs_map_hashes s)" i] four that length_hashes [OF ok]
    by (auto dest: in_set_takeD)
  have p: "parse_advertisement W (advertisement s) =
    Ok \<lparr>adv_hash = rs_hash s, adv_random_hash = rs_random_hash s, adv_parts = nparts s,
        adv_hashmap = ?page, adv_total_segments = 1, adv_compressed = False, adv_encrypted = True\<rparr>"
    using parse_advertisement_sender [OF s _ W] n by simp
  obtain r where r: "accept W (advertisement s) = Ok r" "rr_hash r = rs_hash s"
      "rr_random_hash r = rs_random_hash s" "rr_hashmap_height r = min 74 (nparts s)"
      "rr_parts r = replicate (nparts s) None" "\<not> rr_compressed r" "\<not> rr_waiting_for_hmu r"
      "\<And>i. i < nparts s \<Longrightarrow> rr_map_hashes r ! i =
         (if i < min 74 (nparts s) then Some (slice (i * 4) ((i + 1) * 4) ?page) else None)"
    using p pos n by (auto simp: accept_def Let_def pl min.commute)
  have "tracks C s r"
    using accept_ok [OF r(1), of C] r(2-6) r(8) sl by (auto simp: tracks_def min_def)
  with r(1,7) show ?thesis by blast
qed

lemma ResourceSender_new_ok:
  assumes "ResourceSender_new C data key r prefix iv = Some s" and "sized C" "length r = 4" "length iv = 16"
  shows "rs_hash s = full_hash C (data @ r)" "rs_random_hash s = r"
    "rs_expected_proof s = full_hash C (data @ rs_hash s)"
    "aes_inverts C \<Longrightarrow> link_decrypt C key (concat (rs_parts s)) = Inr (prefix @ data)"
proof -
  note parts = ResourceSender_new_parts [OF assms(1)]
  obtain t where t: "Token_new key = Inr t" and s: "concat (rs_parts s) = encrypt_with_iv C t (prefix @ data) iv"
    using parts by blast
  show "rs_hash s = full_hash C (data @ r)" "rs_random_hash s = r"
    "rs_expected_proof s = full_hash C (data @ rs_hash s)" using parts by blast+
  have "length (encryption_key t) = 32" using t by (auto simp: Token_new_def split: if_splits)
  then show "aes_inverts C \<Longrightarrow> link_decrypt C key (concat (rs_parts s)) = Inr (prefix @ data)"
    using token_roundtrip [OF assms(2) _ assms(4)] t s by (simp add: link_decrypt_def)
qed

lemma complete_concat:
  assumes "tracks C s r" "is_complete r"
  shows "concat_parts r = concat (rs_parts s)"
proof -
  have "map (\<lambda>slot. case slot of Some p \<Rightarrow> p | None \<Rightarrow> []) (rr_parts r) = rs_parts s"
  proof (rule nth_equalityI)
    fix i assume i: "i < length (map (\<lambda>slot. case slot of Some p \<Rightarrow> p | None \<Rightarrow> []) (rr_parts r))"
    then have "rr_parts r ! i \<noteq> None"
      using assms(2) tracksD(17) [OF assms(1)] by (simp add: is_complete_def arrived_all)
    with i show "map (\<lambda>slot. case slot of Some p \<Rightarrow> p | None \<Rightarrow> []) (rr_parts r) ! i = rs_parts s ! i"
      using tracksD(4) [OF assms(1)] tracksD(8) [OF assms(1), of i] by auto
  qed (simp add: tracksD(4) [OF assms(1)])
  then show ?thesis by (simp add: concat_parts_def)
qed

text \<open>
  C8. A resource transfer completes: when every part the receiver asks for arrives (in any order,
  any number of times), the receiver accepts the advertisement, has all parts after at most two
  exchanges per part, decrypts and accepts the sender's data, and returns a proof the sender accepts.\<close>

theorem transfer_completes:
  assumes "sized C" "aes_inverts C" and s: "ResourceSender_new C data key salt prefix iv = Some s"
    and "length salt = 4" "length prefix = 4" "length iv = 16"
    and "length (rs_parts s) \<le> 565" "distinct (rs_map_hashes s)" "16 \<le> W" "delivers_all deliver"
  shows "\<exists>r0 r1 proof. accept W (advertisement s) = Ok r0 \<and>
    exchanges (2 * length (rs_parts s)) W C deliver s r0 = Ok r1 \<and> is_complete r1 \<and>
    link_decrypt C key (concat_parts r1) = Inr (prefix @ data) \<and>
    finish bz2 C r1 (prefix @ data) = Inr (data, proof) \<and> proof_is_valid s proof"
proof -
  note new = ResourceSender_new_ok [OF s assms(1,4,6)]
  have ok: "transfer_ok C s"
    using assms(1,8) ResourceSender_new_sender_ok [OF s assms(1,4,6)] by (simp add: transfer_ok_def)
  obtain r0 where r0: "accept W (advertisement s) = Ok r0" "tracks C s r0" "\<not> rr_waiting_for_hmu r0"
    using accept_tracks [OF ok assms(7,9)] by blast
  obtain r1 where r1: "exchanges (2 * nparts s) W C deliver s r0 = Ok r1" "tracks C s r1" "is_complete r1"
    using exchanges_complete [OF ok assms(9,10) r0(2,3), of "2 * nparts s"] by (auto simp: add.assoc)
  have "finish bz2 C r1 (prefix @ data) = Inr (data, rs_hash s @ full_hash C (data @ rs_hash s))"
    using tracksD(2,3,18) [OF r1(2)] new(1,2) assms(5) by (simp add: finish_def)
  moreover have "proof_is_valid s (rs_hash s @ full_hash C (data @ rs_hash s))"
    using new(1,3) assms(1) by (simp add: proof_is_valid_def lens)
  moreover have "link_decrypt C key (concat_parts r1) = Inr (prefix @ data)"
    using new(4) [OF assms(2)] complete_concat [OF r1(2,3)] by simp
  ultimately show ?thesis using r0(1) r1(1,3) by blast
qed

lemma chunks_pair: "length xs = n \<Longrightarrow> 0 < n \<Longrightarrow> ys \<noteq> [] \<Longrightarrow> length ys \<le> n \<Longrightarrow> chunks n (xs @ ys) = [xs, ys]"
  by (simp add: chunks.simps [of n "xs @ ys"] chunks.simps [of n ys])

definition demo_sender :: "ResourceSender option" where
  "demo_sender = ResourceSender_new demo (replicate 500 1) (replicate 64 8) [1, 2, 3, 4] [5, 6, 7, 8] (replicate 16 7)"

lemma demo_two_parts:
  "\<exists>s. demo_sender = Some s \<and> length (rs_parts s) = 2 \<and> distinct (rs_map_hashes s)"
proof -
  let ?t = "\<lparr>signing_key = replicate 32 8, encryption_key = replicate 32 8\<rparr>"
  have t: "Token_new (replicate 64 8) = Inr ?t" by (simp add: Token_new_def)
  define mac where "mac = hmac demo (replicate 32 8) (replicate 16 7 @ [6, 7, 8, 9] @ replicate 500 2)"
  define p1 p2 :: bytes where "p1 = replicate 16 7 @ [6, 7, 8, 9] @ replicate 444 2" and "p2 = replicate 56 2 @ mac"
  have mac: "length mac = 32" using length_hmac [OF demo_sized] by (simp add: mac_def)
  have "replicate (444 + 56) 2 = replicate 444 (2 :: u8) @ replicate 56 2" by (rule replicate_add)
  then have ct: "encrypt_with_iv demo ?t ([5, 6, 7, 8] @ replicate 500 1) (replicate 16 7) = p1 @ p2"
    by (simp add: encrypt_with_iv_def Let_def p1_def p2_def mac_def demo_def)
  have ch: "chunks 464 (p1 @ p2) = [p1, p2]" using mac by (intro chunks_pair) (simp_all add: p1_def p2_def)
  have h: "part_hash demo p1 r = replicate 4 7" "part_hash demo p2 r = replicate 4 2" for r
    using mac by (simp_all add: part_hash_def full_hash_def demo_def pad_to_def p1_def p2_def take_Cons')
  show ?thesis
    unfolding demo_sender_def ResourceSender_new_def Let_def t sum.case ct
    using ch h by simp
qed

theorem transfer_completes_witness:
  "\<exists>s. demo_sender = Some s \<and>
     (\<exists>r0 r1 proof. accept 64 (advertisement s) = Ok r0 \<and>
        exchanges 4 64 demo rev s r0 = Ok r1 \<and> is_complete r1 \<and>
        finish (\<lambda>n d. None) demo r1 ([5, 6, 7, 8] @ replicate 500 1) = Inr (replicate 500 1, proof) \<and>
        proof_is_valid s proof)"
proof -
  obtain s where s: "demo_sender = Some s" "length (rs_parts s) = 2" "distinct (rs_map_hashes s)"
    using demo_two_parts by blast
  from transfer_completes [OF demo_sized demo_aes s(1) [unfolded demo_sender_def], of 64 rev "\<lambda>n d. None"] s
  show ?thesis by (auto simp: delivers_all_def)
qed

section \<open>What the wire can do to a receiver\<close>

definition tight :: "nat \<Rightarrow> nat \<Rightarrow> bool" where
  "tight W n \<longleftrightarrow> 2 ^ W < n + 2 ^ 32"

definition reads :: "nat \<Rightarrow> bytes \<Rightarrow> ('a \<Rightarrow> bool) \<Rightarrow> ('a \<times> Reader) outcome \<Rightarrow> bool" where
  "reads W b Q = outcome_sat (tight W (length b)) False
     (\<lambda>(x, p). Q x \<and> rd_b p = b \<and> rd_i p \<le> length b)"

definition short :: "nat \<Rightarrow> bool" where
  "short n \<longleftrightarrow> n < 2 ^ 32"

lemma reads_simps [simp]:
  "reads W b Q (Ok (x, p)) \<longleftrightarrow> Q x \<and> rd_b p = b \<and> rd_i p \<le> length b" "reads W b Q (Err e)"
  by (simp_all add: reads_def)

lemma reads_if:
  "(c \<Longrightarrow> reads W b Q x) \<Longrightarrow> (\<not> c \<Longrightarrow> reads W b Q y) \<Longrightarrow> reads W b Q (if c then x else y)"
  by simp

lemma reads_cont:
  assumes "reads W b P m" "\<And>x p. P x \<Longrightarrow> rd_b p = b \<Longrightarrow> rd_i p \<le> length b \<Longrightarrow> reads W b Q (f (x, p))"
  shows "reads W b Q (obind m f)"
  using assms by (auto simp: reads_def elim!: outcome_sat_bind)

lemma reads_weaken: "reads W b P m \<Longrightarrow> (\<And>x. P x \<Longrightarrow> Q x) \<Longrightarrow> reads W b Q m"
  unfolding reads_def by (erule outcome_sat_mono) auto

lemma reads_u8: "rd_b p = b \<Longrightarrow> rd_i p \<le> length b \<Longrightarrow> reads W b (\<lambda>_. True) (rd_u8 p)"
  by (auto simp: rd_u8_def)

lemma reads_take:
  "rd_b p = b \<Longrightarrow> rd_i p \<le> length b \<Longrightarrow> short n \<Longrightarrow> reads W b (\<lambda>s. length s = n) (rd_take W n p)"
  by (auto simp: rd_take_def reads_def short_def tight_def)

lemma reads_be:
  assumes "rd_b p = b" "rd_i p \<le> length b" "short k"
  shows "reads W b (\<lambda>n. n < 256 ^ k) (rd_be W k p)"
  unfolding rd_be_def by (rule reads_cont [OF reads_take [OF assms]]) (use of_be_bound in auto)

lemma short_small [simp]:
  "short 2" "short 4" "short 8" "short (unat (c :: u8))"
  using unsigned_less [of c, where 'a = nat] by (simp_all add: short_def)

lemma reads_byte:
  assumes "rd_b p = b" "rd_i p \<le> length b"
  shows "reads W b short (rd_byte p)"
  unfolding rd_byte_def by (rule reads_cont [OF reads_u8 [OF assms]]) simp

lemma reads_len:
  assumes "rd_b p = b" "rd_i p \<le> length b"
  shows "reads W b short (rd_be W 2 p)" "reads W b short (rd_be W 4 p)"
  by (rule reads_weaken [OF reads_be [OF assms]]; simp add: short_def)+

lemmas reads_lens = reads_len reads_byte

lemma reads_fields:
  assumes "rd_b p = b" "rd_i p \<le> length b"
  shows "reads W b (\<lambda>_. True) (str_key W p)" "reads W b (\<lambda>_. True) (rd_bin W p)"
    "reads W b (\<lambda>_. True) (rd_uint W p)" "reads W b (\<lambda>_. True) (skip_value W p)"
    "reads W b (\<lambda>_. True) (map_len W p)" "reads W b (\<lambda>_. True) (array_len W p)"
proof -
  have skip: "reads W b (\<lambda>_. True) (rd_skip W m)" if "reads W b short m" for m
    unfolding rd_skip_def by (rule reads_cont [OF that]) (simp add: reads_cont [OF reads_take])
  note u8 = reads_cont [OF reads_u8 [OF assms]]
  show "reads W b (\<lambda>_. True) (str_key W p)" "reads W b (\<lambda>_. True) (rd_bin W p)"
    unfolding str_key_def rd_bin_def
    by (rule u8, simp only: prod.case, rule reads_cont [where P = short],
        (intro reads_if reads_lens; simp), simp add: reads_weaken [OF reads_take])+
  show "reads W b (\<lambda>_. True) (rd_uint W p)" "reads W b (\<lambda>_. True) (map_len W p)"
    "reads W b (\<lambda>_. True) (array_len W p)"
    unfolding rd_uint_def map_len_def array_len_def
    by (rule u8, simp only: prod.case, intro reads_if; simp add: reads_weaken [OF reads_be] reads_weaken [OF reads_byte])+
  show "reads W b (\<lambda>_. True) (skip_value W p)"
    unfolding skip_value_def
    by (rule u8, simp only: prod.case, intro reads_if skip reads_lens; simp add: reads_cont [OF reads_u8])
qed

lemma reads_adv_loop:
  "rd_b p = b \<Longrightarrow> rd_i p \<le> length b \<Longrightarrow> reads W b (\<lambda>_. True) (adv_loop W n a p)"
proof (induction n arbitrary: a p)
  case (Suc n)
  have "reads W b (\<lambda>_. True) (adv_entry W a p)"
    unfolding adv_entry_def
    by (rule reads_cont [OF reads_fields(1) [OF Suc.prems]], simp only: prod.case, intro reads_if;
        rule reads_cont [OF reads_fields(2)] reads_cont [OF reads_fields(3)] reads_cont [OF reads_fields(4)]; simp)
  then show ?case unfolding adv_loop.simps by (rule reads_cont) (simp add: Suc.IH)
qed simp

lemma reads_end:
  assumes "reads W b P m"
    "\<And>x p. rd_b p = b \<Longrightarrow> rd_i p \<le> length b \<Longrightarrow> outcome_sat (tight W (length b)) False Q (f (x, p))"
  shows "outcome_sat (tight W (length b)) False Q (obind m f)"
  using assms by (auto simp: reads_def elim!: outcome_sat_bind)

lemma accept_sat: "outcome_sat (tight W (length adv)) False (\<lambda>_. True) (accept W adv)"
proof -
  have *: "outcome_sat pn False (\<lambda>_. True) (adv_finish W a)" for pn a
    by (simp add: adv_finish_def outcome_sat_def split: option.splits)
  have "outcome_sat (tight W (length adv)) False (\<lambda>_. True) (parse_advertisement W adv)"
    unfolding parse_advertisement_def
    by (rule reads_end [OF reads_fields(5)]) (simp_all add: reads_end [OF reads_adv_loop] *)
  then show ?thesis unfolding accept_def by (rule outcome_sat_bind) (simp add: Let_def)
qed

lemma update_sat: "outcome_sat (tight W (length pt)) False (\<lambda>_. True) (receive_hashmap_update W r pt)"
proof (cases "length pt < 32 \<or> take 32 pt \<noteq> rr_hash r")
  case False
  have "outcome_sat (tight W (length b)) False (\<lambda>_. True) (parse_hashmap_update W b)" for b
    unfolding parse_hashmap_update_def
    by (rule reads_end [OF reads_fields(6)])
      (simp_all add: reads_end [OF reads_fields(3)] reads_end [OF reads_fields(2)])
  from this [of "drop 32 pt"]
  have "outcome_sat (tight W (length pt)) False (\<lambda>_. True) (parse_hashmap_update W (drop 32 pt))"
    by (rule outcome_sat_mono) (auto simp: tight_def)
  with False show ?thesis
    unfolding receive_hashmap_update_def by (auto elim!: outcome_sat_bind simp: Let_def split_beta)
qed (simp add: receive_hashmap_update_def)

text \<open>
  C12. Whatever advertisement, parts and hashmap updates arrive, in whatever order, the receiver's
  state stays sound: the part and hash tables agree in length (at most 565), the counters count them, the
  window is within its bounds, no stored part lacks its announced map-hash, and a complete
  receiver has every part. With 64-bit pointers no such input makes a parser panic.\<close>

theorem receiver_invariant:
  "recv_reach W C r \<Longrightarrow> receiver_ok C r \<and>
     (is_complete r \<longrightarrow> (\<forall>i < length (rr_parts r). \<exists>d. rr_parts r ! i = Some d \<and>
        rr_map_hashes r ! i = Some (part_hash C d (rr_random_hash r)))) \<and>
     (length m < 2 ^ 63 \<longrightarrow> accept 64 m \<noteq> Panic \<and> receive_hashmap_update 64 r m \<noteq> Panic)"
  using recv_reach_ok [of W C r] accept_sat [of 64 m] update_sat [of 64 m r]
  by (force simp: outcome_sat_def tight_def receiver_ok_def is_complete_def arrived_all)

theorem receiver_invariant_witness:
  "\<exists>s r. demo_sender = Some s \<and> accept 64 (advertisement s) = Ok r \<and> receiver_ok demo r \<and>
     receive_hashmap_update 64 r [] \<noteq> Panic"
proof -
  obtain s where s: "demo_sender = Some s" "length (rs_parts s) = 2" "distinct (rs_map_hashes s)"
    using demo_two_parts by blast
  then have "transfer_ok demo s"
    using ResourceSender_new_sender_ok [OF s(1) [unfolded demo_sender_def] demo_sized] demo_sized
    by (simp add: transfer_ok_def)
  then obtain r where "accept 64 (advertisement s) = Ok r" using accept_tracks [of demo s 64] s(2) by auto
  with s(1) receiver_invariant [OF recv_reach.start, of 64 _ r demo "[]"] show ?thesis by auto
qed

definition gap_advertisement :: bytes where
  "gap_advertisement = 0x84 # adv_key 0x6E @ adv_uint 200 @ adv_key 0x68 @ adv_bin (replicate 32 7)
     @ adv_key 0x72 @ adv_bin [1, 2, 3, 4] @ adv_key 0x6D @ adv_bin [9, 9, 9, 9]"

definition gap_update :: bytes where
  "gap_update = replicate 32 7 @ 0x92 # adv_uint 1 @ adv_bin [8, 8, 8, 8]"

lemma gap_accept:
  "\<exists>r. accept 64 gap_advertisement = Ok r \<and> rr_hash r = replicate 32 7 \<and> rr_hashmap_height r = 1 \<and>
     rr_map_hashes r = Some [9, 9, 9, 9] # replicate 199 None \<and> rr_parts r = replicate 200 None \<and>
     rr_window r = 4 \<and> rr_consecutive r = 0 \<and> rr_received r = 0 \<and> \<not> rr_waiting_for_hmu r"
proof -
  have m: "parse_advertisement 64 gap_advertisement =
    Ok \<lparr>adv_hash = replicate 32 7, adv_random_hash = [1, 2, 3, 4], adv_parts = 200,
        adv_hashmap = [9, 9, 9, 9], adv_total_segments = 1, adv_compressed = False, adv_encrypted = False\<rparr>"
  proof -
    have start: "\<lparr>rd_b = 0x84 # xs, rd_i = 0\<rparr> = reader_at [] (0x84 # xs)" for xs
      by (simp add: reader_at_def)
    have ls: "length (adv_uint 200) = 2" "length xs < 256 \<Longrightarrow> length (adv_bin xs) = length xs + 2" for xs
      by (simp_all add: adv_uint_def adv_bin_def)
    show ?thesis
      unfolding parse_advertisement_def gap_advertisement_def start map_len_def rd_at obind.simps prod.case
      by (simp add: adv_entries adv_loop_numeral lens ls adv_start_def adv_finish_def)
  qed
  show ?thesis using m by (simp add: accept_def Let_def) (rule nth_equalityI; auto simp: slice_def nth_Cons')
qed

lemma gap_update_reads: "receive_hashmap_update 64 r gap_update =
    (if rr_hash r = replicate 32 7
     then case fill_hashes 64 74 0 [[8, 8, 8, 8]] (rr_map_hashes r, rr_hashmap_height r) of (mh, height) \<Rightarrow>
       Ok (r\<lparr>rr_map_hashes := mh, rr_hashmap_height := height, rr_waiting_for_hmu := False\<rparr>)
     else Err ''hashmap update for a different resource'')"
  using parse_hashmap_update_page [of 1 "[8, 8, 8, 8]" 64]
  by (auto simp: receive_hashmap_update_def gap_update_def chunks_exact.simps)

text \<open>
  C23. Two ways a peer can make the receiving code panic. On a 32-bit target an advertisement
  of eight bytes whose first value claims a length near \<open>2 ^ 32\<close> overflows the reader's bounds check.
  On any target, a resource announced with one known map-hash and followed by the second hashmap page
  first leaves a gap below the hashmap height, and the next request runs into
  \<open>expect("known prefix")\<close>.\<close>


theorem receiver_hazards:
  "accept 32 [0x81, 0xa1, 0x68, 0xc6, 0xff, 0xff, 0xff, 0xff] = Panic \<and>
   (\<exists>r r'. accept 64 gap_advertisement = Ok r \<and> receive_hashmap_update 64 r gap_update = Ok r' \<and>
      next_request r' = Panic)"
proof
  show "accept 32 [0x81, 0xa1, 0x68, 0xc6, 0xff, 0xff, 0xff, 0xff] = Panic"
    by (simp add: accept_def parse_advertisement_def map_len_def rd_u8_def adv_entry_def str_key_def
        rd_bin_def rd_take_def rd_be_def of_be_def slice_def)
next
  obtain r where r: "accept 64 gap_advertisement = Ok r" "rr_hash r = replicate 32 7" "rr_hashmap_height r = 1"
     "rr_map_hashes r = Some [9, 9, 9, 9] # replicate 199 None" "rr_parts r = replicate 200 None"
     "rr_window r = 4" "rr_consecutive r = 0" "rr_received r = 0"
    using gap_accept by blast
  let ?mh = "(rr_map_hashes r)[74 := Some [8, 8, 8, 8]]"
  let ?r = "r\<lparr>rr_map_hashes := ?mh, rr_hashmap_height := 2, rr_waiting_for_hmu := False\<rparr>"
  have "receive_hashmap_update 64 r gap_update = Ok ?r"
    using r by (simp add: gap_update_reads)
  moreover have "next_request ?r = Panic"
    using r by (simp add: next_request_def is_complete_def upt_rec)
  ultimately show "\<exists>r r'. accept 64 gap_advertisement = Ok r \<and> receive_hashmap_update 64 r gap_update = Ok r' \<and>
      next_request r' = Panic" using r(1) by blast
qed

end
