(* ===== verification/Session.thy ===== *)
theory Session
  imports Transport ResourceTransfer
begin

text \<open>
  Two nodes talking: the transport of \<open>transport.rs\<close> at both ends of a network whose relays may
  rewrite packet headers. The theory composes the builders of one node with the handler of the
  other: announces and routes, opportunistic messages, links opened, used, identified and replied
  on, resources carried over a link, and the receipts that come back.
\<close>

section \<open>Packets in flight\<close>

text \<open>What relays make of a sent packet: the same packet under another header.\<close>

definition in_flight :: "bytes \<Rightarrow> bytes \<Rightarrow> bool" where
  "in_flight raw raw' \<longleftrightarrow>
     (\<exists>p q. packet_decode raw = Inr p \<and> packet_decode raw' = Inr q \<and> relayed p q)"

lemma in_flight_refl: "packet_ok p \<Longrightarrow> in_flight (wire p) (wire p)"
  by (auto simp: in_flight_def packet_decode_wire relayed_refl)

lemma relayed_trans: "relayed p q \<Longrightarrow> relayed q r \<Longrightarrow> relayed p r"
  by (simp add: relayed_def)

lemma in_flight_wire:
  assumes "in_flight (wire p) raw" "packet_ok p"
  obtains q where "packet_decode raw = Inr q" "relayed p q"
  using assms by (auto simp: in_flight_def packet_decode_wire)

text \<open>Injecting a packet into transport is such a rewriting.\<close>

lemma rewritten_wire:
  assumes ok: "packet_ok (header1 dt pt ctx dest d)"
    and e: "hm_get (paths t) to = Some e" "pe_next_hop e = Some nh" "\<not> pe_hops e \<le> 1"
  shows "apply_transport t to (wire (header1 dt pt ctx dest d)) =
    wire ((header1 dt pt ctx dest d)\<lparr>header_type := Two, transport_type := 1, transport_id := Some nh\<rparr>)"
proof -
  let ?p = "header1 dt pt ctx dest d"
  let ?q = "?p\<lparr>header_type := Two, transport_type := 1, transport_id := Some nh\<rparr>"
  have flags: "packed_flags ?q = push_bit 6 1 OR push_bit 4 1 OR (packed_flags ?p AND 0x0F)"
    using packed_flags_low [OF ok] by (simp add: packed_flags_def)
  have w: "wire ?p = packed_flags ?p # 0 # dest @ [ctx] @ d" by (simp add: wire_def header1_def)
  have "drop_bit 6 (packed_flags ?p AND 0b01000000) = 0" using flags_unpack(1) [OF ok] by simp
  then show ?thesis
    using e unfolding w by (simp add: apply_transport_def wire_def flags)
qed

lemma apply_transport_relayed:
  assumes t: "transport_ok C t" and ok: "packet_ok (header1 dt pt ctx dest d)"
  shows "\<exists>q. apply_transport t to (wire (header1 dt pt ctx dest d)) = wire q \<and> packet_ok q \<and>
    relayed (header1 dt pt ctx dest d) q"
proof -
  let ?p = "header1 dt pt ctx dest d"
  have same: ?thesis if "apply_transport t to (wire ?p) = wire ?p"
    using that ok relayed_refl by metis
  show ?thesis
  proof (cases "hm_get (paths t) to")
    case None
    then show ?thesis by (intro same) (simp add: apply_transport_def)
  next
    case (Some e)
    show ?thesis
    proof (cases "pe_hops e \<le> 1 \<or> pe_next_hop e = None")
      case True
      then show ?thesis using Some by (intro same) (auto simp: apply_transport_def)
    next
      case False
      then obtain nh where nh: "pe_next_hop e = Some nh" by blast
      then have len: "length nh = 16"
        using t Some by (auto simp: transport_ok_def path_ok_def dest: table_allD)
      let ?q = "?p\<lparr>header_type := Two, transport_type := 1, transport_id := Some nh\<rparr>"
      have q: "packet_ok ?q" using ok len by (simp add: packet_ok_def)
      have "apply_transport t to (wire ?p) = wire ?q" using rewritten_wire [OF ok Some nh] False by blast
      moreover have "relayed ?p ?q" using ok q by (simp add: relayed_def)
      ultimately show ?thesis using q by blast
    qed
  qed
qed

lemma sent_in_flight:
  assumes "transport_ok C t" "packet_ok (header1 dt pt ctx dest d)"
    and "in_flight (apply_transport t to (wire (header1 dt pt ctx dest d))) raw"
  obtains q where "packet_decode raw = Inr q" "relayed (header1 dt pt ctx dest d) q"
proof -
  obtain r where r: "apply_transport t to (wire (header1 dt pt ctx dest d)) = wire r" "packet_ok r"
      "relayed (header1 dt pt ctx dest d) r"
    using apply_transport_relayed [OF assms(1,2)] by blast
  with assms(3) obtain q where "packet_decode raw = Inr q" "relayed r q" by (auto elim: in_flight_wire)
  with that r(3) relayed_trans show thesis by blast
qed

lemma relayed_sel:
  assumes "relayed (header1 dt pt ctx dest d) q"
  shows "packet_type q = pt" "pkt_context q = ctx" "destination_hash q = dest" "pkt_data q = d"
    "packet_ok q"
  using assms by (simp_all add: relayed_def)

section \<open>Links\<close>

lemmas case_defs = on_lrproof_def on_resource_proof_def on_packet_proof_def on_out_link_data_def
  on_opp_proof_def on_in_link_def

lemma accept_request_proof:
  "accept_request C p i eph = Some l \<Longrightarrow>
     \<exists>d. proof_packet l = wire (header1 DEST_LINK PACKET_PROOF CONTEXT_LRPROOF (link_id C p) d)"
  by (auto simp: accept_request_def Let_def split: if_splits)

text \<open>A link request reaches its responder; the responder's answer reaches the initiator.\<close>

lemma link_request_answered:
  assumes C: "sized C" "signs C" "dh_agrees C"
    and ok: "transport_ok C A" "transport_ok C B"
    and dest: "dest \<in> set (our_dests B)" "length dest = 16" "hm_get (links B) dest = None"
    and len: "length ex = 32" "length eph = 32"
    and req: "make_link_request C A dest (public (tr_identity B)) ex es now = ((raw, lid), A')"
    and fresh: "hm_get (links B) lid = None" and flight: "in_flight raw raw'"
  shows "\<exists>st. handle_frame C ord eph iface raw' B = (LinkEstablished lid (ls_proof st), insert_link lid st B) \<and>
    ls_peer_identity st = None \<and> ls_peer_sig_pub st = dalek_pub C es \<and> length (ls_key st) = 64 \<and>
    (\<exists>pr. ls_proof st = wire (header1 DEST_LINK PACKET_PROOF CONTEXT_LRPROOF lid pr) \<and>
      complete_handshake C lid ex pr (public (tr_identity B)) = Some (ls_key st))"
proof -
  let ?p = "request_packet C dest ex es"
  have lid: "lid = link_id C ?p" and raw: "raw = apply_transport A dest (wire ?p)"
    using req by (auto simp: make_link_request_def initiate_request_eq Let_def)
  obtain q where q: "packet_decode raw' = Inr q" "relayed ?p q"
    using sent_in_flight [OF ok(1) _ flight [unfolded raw request_packet_def]] dest(2)
    unfolding request_packet_def by auto
  note sel = relayed_sel [OF q(2) [unfolded request_packet_def]]
  have i: "identity_ok C (tr_identity B)" using ok(2) by (simp add: transport_ok_def)
  have pok: "packet_ok ?p" using dest(2) by (rule request_packet_ok)
  obtain l pr where l: "accept_request C q (tr_identity B) eph = Some l" "el_link_id l = lid"
      "peer_sig_pub l = dalek_pub C es" "packet_decode (proof_packet l) = Inr pr"
      "complete_handshake C lid ex (pkt_data pr) (public (tr_identity B)) = Some (derived_key l)"
    using handshake_keys_agree [OF C i dest(2) len initiate_request_eq packet_decode_wire [OF pok] q(2)] lid
    by blast
  have lq: "link_id C q = lid" using relayed_link_id [OF q(2)] lid by simp
  have "length lid = 16" using C(1) lid by (simp add: lens)
  then obtain d where d: "proof_packet l = wire (header1 DEST_LINK PACKET_PROOF CONTEXT_LRPROOF lid d)" "pkt_data pr = d"
    using accept_request_proof [OF l(1)] l(4) lq by (auto simp: packet_decode_wire)
  let ?st = "\<lparr>ls_key = derived_key l, ls_proof = proof_packet l, ls_peer_sig_pub = peer_sig_pub l,
    ls_peer_identity = None\<rparr>"
  have "handle_frame C ord eph iface raw' B = (LinkEstablished lid (proof_packet l), insert_link lid ?st B)"
    using l(1,2) lq fresh dest(1,3) sel
    by (simp add: handle_frame_def q(1) handle_packet_def case_defs on_other_def on_link_request_def link_id_of_def)
  then show ?thesis
    using l d accept_request_lengths [OF l(1) C(1)] by (intro exI [of _ ?st]) (auto intro: exI [of _ d])
qed

lemma link_proof_completes:
  assumes "hm_get (pending_out A') lid = Some po" "length lid = 16"
    and "complete_handshake C lid (po_eph_secret po) pr (po_identity po) = Some k"
    and "in_flight (wire (header1 DEST_LINK PACKET_PROOF CONTEXT_LRPROOF lid pr)) raw"
  shows "handle_frame C ord eph iface raw A' =
    (OutboundLinkUp lid (po_target po),
     insert_out_link lid \<lparr>ol_target = po_target po, ol_key = k, ol_sig_seed = po_sig_seed po,
       ol_identity = po_identity po, ol_last_activity = po_created po\<rparr>
       (A'\<lparr>pending_out := hm_remove lid (pending_out A')\<rparr>))"
proof -
  obtain q where q: "packet_decode raw = Inr q" "relayed (header1 DEST_LINK PACKET_PROOF CONTEXT_LRPROOF lid pr) q"
    using in_flight_wire [OF assms(4)] assms(2) by auto
  with relayed_sel [OF q(2)] assms(1,3) show ?thesis
    by (simp add: handle_frame_def q(1) handle_packet_def case_defs)
qed

text \<open>Data on the link arrives with its plaintext, and the receipt comes back.\<close>

lemma in_link_data_received:
  assumes C: "sized C" "aes_inverts C" and B: "hm_get (links B) lid = Some st" "hm_get (out_links B) lid = None"
    and len: "length (ls_key st) = 64" "length iv = 16" "length lid = 16"
    and ct: "encrypt_data C (ls_key st) msg iv = Inr ct"
    and f: "in_flight (wire (header1 DEST_LINK PACKET_DATA CONTEXT_NONE lid ct)) raw"
  obtains q where "packet_decode raw = Inr q" "relayed (header1 DEST_LINK PACKET_DATA CONTEXT_NONE lid ct) q"
    "handle_frame C ord eph iface raw B = (LinkData lid msg (prove_packet C (tr_identity B) lid q), B)"
proof -
  obtain q where q: "packet_decode raw = Inr q" "relayed (header1 DEST_LINK PACKET_DATA CONTEXT_NONE lid ct) q"
    using in_flight_wire [OF f] len(3) by auto
  have "link_decrypt C (ls_key st) ct = Inr msg" using link_data_roundtrip [OF C len(1,2) ct] .
  with q B relayed_sel [OF q(2)]
  have "handle_frame C ord eph iface raw B = (LinkData lid msg (prove_packet C (tr_identity B) lid q), B)"
    by (simp add: handle_frame_def handle_packet_def case_defs)
  with that q show thesis by blast
qed

lemma out_link_data_received:
  assumes C: "sized C" "aes_inverts C" and A: "hm_get (out_links A) lid = Some l"
    and len: "length (ol_key l) = 64" "length iv = 16" "length lid = 16"
    and ct: "encrypt_data C (ol_key l) msg iv = Inr ct"
    and f: "in_flight (wire (header1 DEST_LINK PACKET_DATA CONTEXT_NONE lid ct)) raw"
  obtains q where "packet_decode raw = Inr q" "relayed (header1 DEST_LINK PACKET_DATA CONTEXT_NONE lid ct) q"
    "handle_frame C ord eph iface raw A = (LinkData lid msg (prove_packet_ephemeral C (ol_sig_seed l) lid q), A)"
proof -
  obtain q where q: "packet_decode raw = Inr q" "relayed (header1 DEST_LINK PACKET_DATA CONTEXT_NONE lid ct) q"
    using in_flight_wire [OF f] len(3) by auto
  have "link_decrypt C (ol_key l) ct = Inr msg" using link_data_roundtrip [OF C len(1,2) ct] .
  with q A relayed_sel [OF q(2)]
  have "handle_frame C ord eph iface raw A = (LinkData lid msg (prove_packet_ephemeral C (ol_sig_seed l) lid q), A)"
    by (simp add: handle_frame_def handle_packet_def case_defs)
  with that q show thesis by blast
qed

text \<open>A proof addressed to the link retires the receipt of the packet it proves.\<close>

lemma link_proof_received:
  assumes "hm_get (receipts t) ph = Some lid" "length ph = 32" "length lid = 16"
    and key: "case hm_get (out_links t) lid of Some l \<Rightarrow> key = sig_pub (ol_identity l)
      | None \<Rightarrow> map_option ls_peer_sig_pub (hm_get (links t) lid) = Some key"
    and v: "validate_proof_sig C key ph (ph @ sg)" "length sg = 64"
    and f: "in_flight (wire (header1 DEST_LINK PACKET_PROOF CONTEXT_NONE lid (ph @ sg))) raw"
  shows "handle_frame C ord eph iface raw t = (Delivered ph, t\<lparr>receipts := hm_remove ph (receipts t)\<rparr>)"
proof -
  obtain q where q: "packet_decode raw = Inr q" "relayed (header1 DEST_LINK PACKET_PROOF CONTEXT_NONE lid (ph @ sg)) q"
    using in_flight_wire [OF f] assms(3) by auto
  have "on_packet_proof C ord t q = Some (Delivered ph, t\<lparr>receipts := hm_remove ph (receipts t)\<rparr>)"
    using relayed_sel [OF q(2)] assms(1,2) key v
    by (auto simp: on_packet_proof_def split: option.splits)
  then show ?thesis
    using relayed_sel [OF q(2)]
    by (simp add: handle_frame_def q(1) handle_packet_def on_lrproof_def on_resource_proof_def)
qed

lemma prove_packet_eq:
  assumes "sized C" "relayed p q"
  shows "prove_packet C i lid q = wire (header1 DEST_LINK PACKET_PROOF CONTEXT_NONE lid
      (packet_hash C p @ sign C i (packet_hash C p)))"
    "prove_packet_ephemeral C seed lid q = wire (header1 DEST_LINK PACKET_PROOF CONTEXT_NONE lid
      (packet_hash C p @ ed_sign C seed (dalek_pub C seed) (packet_hash C p)))"
  using relayed_packet_hash [OF assms(2), of C]
  by (simp_all add: prove_packet_def prove_packet_ephemeral_def Let_def)

lemma proofs_validate:
  assumes "sized C" "signs C" "length ph = 32"
  shows "identity_ok C i \<Longrightarrow> validate_proof_sig C (sig_pub (public i)) ph (ph @ sign C i ph)"
    "length seed = 32 \<Longrightarrow> validate_proof_sig C (dalek_pub C seed) ph (ph @ ed_sign C seed (dalek_pub C seed) ph)"
  using assms
  by (simp_all add: validate_proof_sig_def slice_def lens)
    (simp_all add: sign_def identity_ok_sel signs_verify)

lemma tables_ok:
  assumes "transport_ok C t"
  shows "table_ok MAX_LINKS (links t) (links_order t)" "table_ok MAX_OUT_LINKS (out_links t) (out_links_order t)"
    "table_ok MAX_RECEIPTS (receipts t) (receipts_order t)"
    "table_ok MAX_PENDING_OUT (pending_out t) (pending_out_order t)"
    "table_ok MAX_RECEIPTS (opp_receipts t) (opp_receipts_order t)"
    "table_ok MAX_KNOWN (known_dests t) (known_order t)" "table_ok MAX_PATHS (paths t) (paths_order t)"
  using assms by (simp_all add: transport_ok_def table_all_def)

lemma insert_others [simp]:
  "out_links (insert_link k v t) = out_links t" "tr_identity (insert_link k v t) = tr_identity t"
  "out_links (insert_receipt h lid t) = out_links t" "links (insert_receipt h lid t) = links t"
  "receipts (insert_out_link k l t) = receipts t" "receipts_order (insert_out_link k l t) = receipts_order t"
  "links (insert_opp_receipt h r t) = links t" "out_links (insert_opp_receipt h r t) = out_links t"
  "paths (insert_known h i t) = paths t" "paths_order (insert_known h i t) = paths_order t"
  "known_dests (insert_path h e t) = known_dests t"
  by (simp_all add: insert_link_def insert_receipt_def insert_out_link_def insert_opp_receipt_def
      insert_known_def insert_path_def split_beta)

text \<open>Sending on a link we opened, to a peer that holds its other end.\<close>

lemma link_data_delivered:
  assumes C: "sized C" "aes_inverts C" "signs C" and A: "transport_ok C A" and B: "identity_ok C (tr_identity B)"
    and l: "hm_get (out_links A) lid = Some l" "ol_identity l = public (tr_identity B)"
    and st: "hm_get (links B) lid = Some st" "ls_key st = ol_key l" "hm_get (out_links B) lid = None"
    and iv: "length iv = 16"
  shows "\<exists>raw ph A'. make_link_data C lid msg iv A = (Some (raw, ph), A') \<and> in_flight raw raw \<and>
    (\<forall>raw'. in_flight raw raw' \<longrightarrow> (\<exists>proof. handle_frame C ordB ephB ifB raw' B = (LinkData lid msg proof, B) \<and>
      in_flight proof proof \<and> (\<forall>proof'. in_flight proof proof' \<longrightarrow>
        handle_frame C ordA ephA ifA proof' A' = (Delivered ph, A'\<lparr>receipts := hm_remove ph (receipts A')\<rparr>))))"
proof -
  have lok: "length (ol_key l) = 64" "length lid = 16"
    using A l(1) by (auto simp: transport_ok_def out_link_ok_def dest: table_allD)
  let ?ct = "encrypt_with_iv C \<lparr>signing_key = take 32 (ol_key l), encryption_key = drop 32 (ol_key l)\<rparr> msg iv"
  let ?p = "header1 DEST_LINK PACKET_DATA CONTEXT_NONE lid ?ct"
  let ?A = "insert_receipt (packet_hash C ?p) lid A"
  have ct: "encrypt_data C (ol_key l) msg iv = Inr ?ct" by (rule encrypt_data_64 [OF lok(1)])
  have made: "make_link_data C lid msg iv A = (Some (wire ?p, packet_hash C ?p), ?A)"
    using l(1) ct by (simp add: make_link_data_def Let_def)
  have rc: "hm_get (receipts ?A) (packet_hash C ?p) = Some lid"
    by (rule receipt_table.get_ins) (rule tables_ok [OF A])
  have ph: "length (packet_hash C ?p) = 32" using C(1) by (simp add: lens)
  have "\<exists>proof. handle_frame C ordB ephB ifB raw' B = (LinkData lid msg proof, B) \<and> in_flight proof proof \<and>
      (\<forall>proof'. in_flight proof proof' \<longrightarrow> handle_frame C ordA ephA ifA proof' ?A =
        (Delivered (packet_hash C ?p), ?A\<lparr>receipts := hm_remove (packet_hash C ?p) (receipts ?A)\<rparr>))"
    if f: "in_flight (wire ?p) raw'" for raw'
  proof -
    obtain q where q: "relayed ?p q"
        "handle_frame C ordB ephB ifB raw' B = (LinkData lid msg (prove_packet C (tr_identity B) lid q), B)"
      using in_link_data_received [OF C(1,2) st(1,3) _ iv lok(2) _ f] st(2) lok(1) ct by metis
    have "handle_frame C ordA ephA ifA proof' ?A =
        (Delivered (packet_hash C ?p), ?A\<lparr>receipts := hm_remove (packet_hash C ?p) (receipts ?A)\<rparr>)"
      if "in_flight (prove_packet C (tr_identity B) lid q) proof'" for proof'
      by (rule link_proof_received [where key = "sig_pub (public (tr_identity B))",
            OF rc ph lok(2) _ proofs_validate(1) [OF C(1,3) ph B] length_sign [OF C(1)]])
        (use l that prove_packet_eq(1) [OF C(1) q(1)] in simp_all)
    moreover have "in_flight (prove_packet C (tr_identity B) lid q) (prove_packet C (tr_identity B) lid q)"
      using prove_packet_eq(1) [OF C(1) q(1)] lok(2) by (simp add: in_flight_refl)
    ultimately show ?thesis using q(2) by blast
  qed
  moreover have "in_flight (wire ?p) (wire ?p)" using lok(2) by (simp add: in_flight_refl)
  ultimately show ?thesis using made by blast
qed

text \<open>Opening the link: both ends hold the same key, each knows how the other proves.\<close>

lemma link_opened:
  assumes C: "sized C" "signs C" "dh_agrees C"
    and ok: "transport_ok C A" "transport_ok C B"
    and dest: "dest \<in> set (our_dests B)" "length dest = 16" "hm_get (links B) dest = None"
    and len: "length ex = 32" "length es = 32" "length eph = 32"
    and req: "make_link_request C A dest (public (tr_identity B)) ex es now = ((raw, lid), A1)"
    and fresh: "hm_get (links B) lid = None" and flight: "in_flight raw raw'"
  shows "\<exists>st. handle_frame C ordB eph ifB raw' B = (LinkEstablished lid (ls_proof st), insert_link lid st B) \<and>
    hm_get (links (insert_link lid st B)) lid = Some st \<and> ls_peer_sig_pub st = dalek_pub C es \<and>
    transport_ok C (insert_link lid st B) \<and> in_flight (ls_proof st) (ls_proof st) \<and>
    (\<forall>pr. in_flight (ls_proof st) pr \<longrightarrow>
      (\<exists>A2 l. handle_frame C ordA ephA ifA pr A1 = (OutboundLinkUp lid dest, A2) \<and> transport_ok C A2 \<and>
        hm_get (out_links A2) lid = Some l \<and> ol_key l = ls_key st \<and> ol_sig_seed l = es \<and> ol_target l = dest \<and>
        ol_identity l = public (tr_identity B)))"
proof -
  let ?po = "\<lparr>po_target = dest, po_eph_secret = ex, po_sig_seed = es, po_identity = public (tr_identity B),
      po_created = now, po_expiry_secs = pending_expiry_secs A dest\<rparr>"
  have A1: "A1 = insert_pending_out lid ?po A" and lid: "length lid = 16"
    using req C(1) by (auto simp: make_link_request_def initiate_request_eq Let_def lens)
  have A1ok: "transport_ok C A1" using make_ok(2) [OF C(1) ok(1) dest(2) len(1,2)] req by (metis snd_conv)
  have po: "hm_get (pending_out A1) lid = Some ?po"
    unfolding A1 by (rule pending_table.get_ins) (rule tables_ok [OF ok(1)])
  obtain st pr where st: "handle_frame C ordB eph ifB raw' B = (LinkEstablished lid (ls_proof st), insert_link lid st B)"
      "ls_peer_sig_pub st = dalek_pub C es" "length (ls_key st) = 64"
      "ls_proof st = wire (header1 DEST_LINK PACKET_PROOF CONTEXT_LRPROOF lid pr)"
      "complete_handshake C lid ex pr (public (tr_identity B)) = Some (ls_key st)"
    using link_request_answered [OF C ok dest len(1,3) req fresh flight] by blast
  have got: "hm_get (links (insert_link lid st B)) lid = Some st"
    by (rule link_table.get_ins) (rule tables_ok [OF ok(2)])
  have Bok: "transport_ok C (insert_link lid st B)" using handle_frame_ok [OF C(1) ok(2)] st(1) by (metis snd_conv)
  have "\<exists>A2 l. handle_frame C ordA ephA ifA r A1 = (OutboundLinkUp lid dest, A2) \<and> transport_ok C A2 \<and>
      hm_get (out_links A2) lid = Some l \<and> ol_key l = ls_key st \<and> ol_sig_seed l = es \<and> ol_target l = dest \<and>
      ol_identity l = public (tr_identity B)" if "in_flight (ls_proof st) r" for r
  proof -
    let ?l = "\<lparr>ol_target = dest, ol_key = ls_key st, ol_sig_seed = es, ol_identity = public (tr_identity B),
      ol_last_activity = now\<rparr>"
    let ?A = "A1\<lparr>pending_out := hm_remove lid (pending_out A1)\<rparr>"
    have h: "handle_frame C ordA ephA ifA r A1 = (OutboundLinkUp lid dest, insert_out_link lid ?l ?A)"
      using link_proof_completes [OF po lid, of C pr "ls_key st" r] st(4,5) that by simp
    moreover have "transport_ok C (insert_out_link lid ?l ?A)"
      using handle_frame_ok [OF C(1) A1ok] h by (metis snd_conv)
    moreover have "hm_get (out_links (insert_out_link lid ?l ?A)) lid = Some ?l"
      by (rule out_link_table.get_ins) (use tables_ok(2) [OF A1ok] in simp)
    ultimately show ?thesis by auto
  qed
  moreover have "in_flight (ls_proof st) (ls_proof st)" using st(4) lid by (simp add: in_flight_refl)
  ultimately show ?thesis using st got Bok by blast
qed

section \<open>Properties: delivery\<close>

text \<open>
  C2. Direct delivery, end to end. A node \<open>A\<close> that knows the identity behind \<open>B\<close>'s destination opens a
  link to it, and whatever headers the relays put on each packet: \<open>B\<close> accepts the link, \<open>A\<close> sees it come up,
  \<open>A\<close>'s message reaches \<open>B\<close> as sent, and \<open>B\<close>'s receipt makes \<open>A\<close> report that very message as
  delivered and retire its receipt. \<open>A\<close> and \<open>B\<close> are any reachable nodes on which the link id is new.\<close>

theorem direct_delivery:
  assumes "sized C" "aes_inverts C" "signs C" "dh_agrees C" and "node C A" "node C B"
    and "dest \<in> set (our_dests B)" "length dest = 16" "hm_get (links B) dest = None"
    and "length ex = 32" "length es = 32" "length eph = 32" "length iv = 16"
    and "make_link_request C A dest (public (tr_identity B)) ex es now = ((raw, lid), A1)"
    and "hm_get (links B) lid = None" "hm_get (out_links B) lid = None" "in_flight raw raw'"
  shows "\<exists>pr B1. handle_frame C ordB eph ifB raw' B = (LinkEstablished lid pr, B1) \<and> in_flight pr pr \<and>
    (\<forall>pr'. in_flight pr pr' \<longrightarrow>
      (\<exists>A2. handle_frame C ordA ephA ifA pr' A1 = (OutboundLinkUp lid dest, A2) \<and>
        (\<exists>pkt ph A3. make_link_data C lid msg iv A2 = (Some (pkt, ph), A3) \<and> in_flight pkt pkt \<and>
          (\<forall>pkt'. in_flight pkt pkt' \<longrightarrow>
            (\<exists>rcpt. handle_frame C ordB ephB ifB pkt' B1 = (LinkData lid msg rcpt, B1) \<and> in_flight rcpt rcpt \<and>
              (\<forall>rcpt'. in_flight rcpt rcpt' \<longrightarrow>
                (\<exists>A4. handle_frame C ordA ephA ifA rcpt' A3 = (Delivered ph, A4) \<and>
                  hm_get (receipts A4) ph = None)))))))"
proof -
  note ok = node_ok [OF assms(1)]
  note A = ok [OF assms(5)] and B = ok [OF assms(6)]
  obtain st where st: "handle_frame C ordB eph ifB raw' B = (LinkEstablished lid (ls_proof st), insert_link lid st B)"
      "hm_get (links (insert_link lid st B)) lid = Some st" "transport_ok C (insert_link lid st B)"
      "in_flight (ls_proof st) (ls_proof st)"
      "\<forall>pr. in_flight (ls_proof st) pr \<longrightarrow>
        (\<exists>A2 l. handle_frame C ordA ephA ifA pr A1 = (OutboundLinkUp lid dest, A2) \<and> transport_ok C A2 \<and>
          hm_get (out_links A2) lid = Some l \<and> ol_key l = ls_key st \<and> ol_sig_seed l = es \<and> ol_target l = dest \<and>
          ol_identity l = public (tr_identity B))"
    using link_opened [OF assms(1,3,4) A B assms(7-12,14,15,17)] by blast
  let ?B = "insert_link lid st B"
  have B1: "identity_ok C (tr_identity ?B)" using st(3) by (simp only: transport_ok_def)
  have "\<exists>A2. handle_frame C ordA ephA ifA pr' A1 = (OutboundLinkUp lid dest, A2) \<and>
      (\<exists>pkt ph A3. make_link_data C lid msg iv A2 = (Some (pkt, ph), A3) \<and> in_flight pkt pkt \<and>
        (\<forall>pkt'. in_flight pkt pkt' \<longrightarrow>
          (\<exists>rcpt. handle_frame C ordB ephB ifB pkt' ?B = (LinkData lid msg rcpt, ?B) \<and> in_flight rcpt rcpt \<and>
            (\<forall>rcpt'. in_flight rcpt rcpt' \<longrightarrow>
              (\<exists>A4. handle_frame C ordA ephA ifA rcpt' A3 = (Delivered ph, A4) \<and>
                hm_get (receipts A4) ph = None)))))"
    if "in_flight (ls_proof st) pr'" for pr'
  proof -
    from that obtain A2 l where A2: "handle_frame C ordA ephA ifA pr' A1 = (OutboundLinkUp lid dest, A2)" "transport_ok C A2"
        "hm_get (out_links A2) lid = Some l" "ol_key l = ls_key st" "ol_identity l = public (tr_identity B)"
      using st(5) by blast
    obtain pkt ph A3 where d: "make_link_data C lid msg iv A2 = (Some (pkt, ph), A3)" "in_flight pkt pkt"
        "\<forall>raw'. in_flight pkt raw' \<longrightarrow> (\<exists>rcpt. handle_frame C ordB ephB ifB raw' ?B = (LinkData lid msg rcpt, ?B) \<and>
          in_flight rcpt rcpt \<and>
          (\<forall>r. in_flight rcpt r \<longrightarrow>
             handle_frame C ordA ephA ifA r A3 = (Delivered ph, A3\<lparr>receipts := hm_remove ph (receipts A3)\<rparr>)))"
      using link_data_delivered [OF assms(1-3) A2(2) B1 A2(3) _ st(2) A2(4) [symmetric] _ assms(13),
          of msg ordB ephB ifB ordA ephA ifA] A2(5) assms(16)
      by auto
    then show ?thesis using A2(1) by fastforce
  qed
  with st(1,4) show ?thesis by blast
qed

definition demo_identity :: "u8 \<Rightarrow> PrivateIdentity" where
  "demo_identity s = from_bytes demo (replicate 32 s) (replicate 32 (s + 1))"

definition demo_node :: "u8 \<Rightarrow> Transport" where
  "demo_node s = register_destination (replicate 16 s) (Transport_new (demo_identity s))"

lemma demo_node: "node demo (demo_node s)"
  unfolding demo_node_def demo_identity_def by (intro node.register node.start) simp

lemma demo_node_sel [simp]:
  "our_dests (demo_node s) = [replicate 16 s]" "links (demo_node s) = []" "out_links (demo_node s) = []"
  "paths (demo_node s) = []" "tr_identity (demo_node s) = demo_identity s"
  by (simp_all add: demo_node_def register_destination_def Transport_new_def)

theorem direct_delivery_witness:
  "\<exists>raw lid A1 pr B1 A2 pkt ph A3 rcpt A4.
     make_link_request demo (demo_node 1) (replicate 16 5) (public (demo_identity 5)) (replicate 32 2)
       (replicate 32 3) 0 = ((raw, lid), A1) \<and>
     handle_frame demo id (replicate 32 7) Hub raw (demo_node 5) = (LinkEstablished lid pr, B1) \<and>
     handle_frame demo id [] Hub pr A1 = (OutboundLinkUp lid (replicate 16 5), A2) \<and>
     make_link_data demo lid [104, 105] (replicate 16 0) A2 = (Some (pkt, ph), A3) \<and>
     handle_frame demo id [] Hub pkt B1 = (LinkData lid [104, 105] rcpt, B1) \<and>
     handle_frame demo id [] Hub rcpt A3 = (Delivered ph, A4)"
proof -
  obtain raw lid A1 where r: "make_link_request demo (demo_node 1) (replicate 16 5) (public (demo_identity 5))
      (replicate 32 2) (replicate 32 3) 0 = ((raw, lid), A1)"
    by (metis surj_pair)
  then have "raw = wire (request_packet demo (replicate 16 5) (replicate 32 2) (replicate 32 3))"
    by (auto simp: make_link_request_def initiate_request_eq Let_def apply_transport_def)
  then have f: "in_flight raw raw" by (simp add: in_flight_refl request_packet_ok)
  from direct_delivery [OF demo_ok demo_node [of 1] demo_node [of 5], where dest = "replicate 16 5"
      and ex = "replicate 32 2" and es = "replicate 32 3" and eph = "replicate 32 7" and iv = "replicate 16 0"
      and raw = raw and raw' = raw and lid = lid and ?A1.0 = A1 and now = 0 and msg = "[104, 105]"
      and ordA = id and ordB = id and ephA = "[]" and ephB = "[]" and ifA = Hub and ifB = Hub] r f
  show ?thesis by simp blast
qed

text \<open>
  C11. Opportunistic delivery, end to end: a tracked single packet to a destination of \<open>B\<close> is decrypted
  there to the plaintext sent, and \<open>B\<close>'s proof, addressed to the truncated packet hash, makes
  \<open>A\<close> report the packet delivered and retire its receipt.\<close>

theorem opportunistic_delivery:
  assumes C: "sized C" "aes_inverts C" "signs C" "dh_agrees C" and n: "node C A" "node C B"
    and dest: "dest \<in> set (our_dests B)" "length dest = 16" "dest \<noteq> path_request_dest C"
      "hm_get (links B) dest = None" "hm_get (out_links B) dest = None"
    and len: "length ex = 32" "length iv = 16"
    and made: "make_opportunistic_tracked C A dest (public (tr_identity B)) None msg ex iv = ((raw, ph), A1)"
    and fresh: "hm_get (links A) (take 16 ph) = None" "hm_get (out_links A) (take 16 ph) = None"
    and f: "in_flight raw raw'"
  shows "\<exists>rcpt. handle_frame C ordB ephB ifB raw' B = (Data dest msg rcpt, B) \<and> in_flight rcpt rcpt \<and>
    (\<forall>rcpt'. in_flight rcpt rcpt' \<longrightarrow>
      (\<exists>A2. handle_frame C ordA ephA ifA rcpt' A1 = (Delivered ph, A2) \<and>
        hm_get (opp_receipts A2) (take 16 ph) = None))"
proof -
  have ok: "transport_ok C A" "transport_ok C B" using n node_ok [OF C(1)] by blast+
  have i: "identity_ok C (tr_identity B)" using ok(2) by (simp add: transport_ok_def)
  let ?ct = "identity_encrypt C (public (tr_identity B)) msg ex iv None"
  let ?p = "header1 DEST_SINGLE PACKET_DATA CONTEXT_NONE dest ?ct"
  let ?r = "\<lparr>or_full_hash = ph, or_identity = public (tr_identity B)\<rparr>"
  have ph: "ph = packet_hash C ?p" and A1: "A1 = insert_opp_receipt (take 16 ph) ?r A"
    and raw: "raw = apply_transport A1 dest (wire ?p)"
    using made by (auto simp: make_opportunistic_tracked_def Let_def)
  have plen: "length ph = 32" using C(1) by (simp add: ph lens)
  have A1ok: "transport_ok C A1" using make_ok(1) [OF C(1) ok(1)] made by (metis snd_conv)
  obtain q where q: "packet_decode raw' = Inr q" "relayed ?p q"
    using sent_in_flight [OF A1ok _ f [unfolded raw]] dest(2) by auto
  let ?rcpt = "wire (header1 DEST_SINGLE PACKET_PROOF CONTEXT_NONE (take 16 ph) (ph @ sign C (tr_identity B) ph))"
  have dec: "identity_decrypt C (tr_identity B) ?ct [] = Inr msg"
    using identity_decrypt_own [OF C(1,2,4) i len(2,1)] .
  have "packet_hash C q = ph" using relayed_packet_hash [OF q(2)] ph by simp
  then have B1: "handle_frame C ordB ephB ifB raw' B = (Data dest msg ?rcpt, B)"
    using relayed_sel [OF q(2)] dest dec
    by (simp add: handle_frame_def q(1) handle_packet_def case_defs on_other_def on_opportunistic_def Let_def)
  have got: "hm_get (opp_receipts A1) (take 16 ph) = Some ?r"
    unfolding A1 by (rule opp_table.get_ins) (rule tables_ok [OF ok(1)])
  have "handle_frame C ordA ephA ifA r A1 =
      (Delivered ph, A1\<lparr>opp_receipts := hm_remove (take 16 ph) (opp_receipts A1)\<rparr>)"
    if rf: "in_flight ?rcpt r" for r
  proof -
    obtain q where q: "packet_decode r = Inr q"
        "relayed (header1 DEST_SINGLE PACKET_PROOF CONTEXT_NONE (take 16 ph) (ph @ sign C (tr_identity B) ph)) q"
      using in_flight_wire [OF rf] plen by auto
    show ?thesis
      using relayed_sel [OF q(2)] got fresh proofs_validate(1) [OF C(1,3) plen i]
      by (simp add: handle_frame_def q(1) handle_packet_def case_defs A1 validate_proof_def)
  qed
  moreover have "in_flight ?rcpt ?rcpt" using plen by (simp add: in_flight_refl)
  ultimately show ?thesis using B1 by fastforce
qed

theorem opportunistic_delivery_witness:
  "\<exists>raw ph A1 rcpt A2.
     make_opportunistic_tracked demo (demo_node 1) (replicate 16 5) (public (demo_identity 5)) None [104, 105]
       (replicate 32 2) (replicate 16 0) = ((raw, ph), A1) \<and>
     handle_frame demo id [] Hub raw (demo_node 5) = (Data (replicate 16 5) [104, 105] rcpt, demo_node 5) \<and>
     handle_frame demo id [] Hub rcpt A1 = (Delivered ph, A2)"
proof -
  obtain raw ph A1 where r: "make_opportunistic_tracked demo (demo_node 1) (replicate 16 5) (public (demo_identity 5))
      None [104, 105] (replicate 32 2) (replicate 16 0) = ((raw, ph), A1)"
    by (metis surj_pair)
  then have f: "in_flight raw raw"
    by (auto simp: make_opportunistic_tracked_def insert_opp_receipt_def split_beta Let_def apply_transport_def
        in_flight_refl)
  have d: "replicate 16 5 \<noteq> path_request_dest demo" by code_simp
  from opportunistic_delivery [OF demo_ok demo_node [of 1] demo_node [of 5], where dest = "replicate 16 5"
      and ex = "replicate 32 2" and iv = "replicate 16 0" and raw = raw and raw' = raw and ?A1.0 = A1
      and msg = "[104, 105]" and ph = ph and ordA = id and ordB = id and ephA = "[]" and ephB = "[]"
      and ifA = Hub and ifB = Hub] r f d
  show ?thesis by simp blast
qed

lemma parse_cong:
  assumes "packet_type q = packet_type p" "pkt_data q = pkt_data p" "destination_hash q = destination_hash p"
    "context_flag q = context_flag p"
  shows "parse_and_validate C q = parse_and_validate C p"
  unfolding parse_and_validate_def assms by (rule refl)

lemma parse_relayed:
  "relayed p q \<Longrightarrow> context_flag q = context_flag p \<Longrightarrow> parse_and_validate C q = parse_and_validate C p"
  by (rule parse_cong) (simp_all add: relayed_def)

lemma parse_context: "parse_and_validate C (p\<lparr>pkt_context := c\<rparr>) = parse_and_validate C p"
  by (rule parse_cong) simp_all

lemma announce_handled:
  assumes C: "sized C" "signs C" "transport_ok C A" "identity_ok C i" "length r5 = 5"
    and p: "p = (build_announce C i app aspects d (random_hash r5 now) None)\<lparr>pkt_context := ctx\<rparr>"
    and q: "packet_decode raw = Inr q" "relayed p q" "context_flag q = False"
    and dest: "dest = single_destination_hash C app aspects (identity_hash i)" "hm_get (links A) dest = None"
  shows "handle_frame C ord eph iface raw A =
    (let info = \<lparr>kd_identity = public i, kd_name_hash = name_hash C app aspects, kd_ratchet = None, kd_app_data = d\<rparr>
     in (Announce dest info,
         insert_path dest \<lparr>pe_next_hop = transport_id q, pe_hops = sat_add8 (hops q) 1, pe_learned_on = iface\<rparr>
           (insert_known dest info A)))"
proof -
  have "packet_type p = PACKET_ANNOUNCE" "destination_hash p = dest" "context_flag p = False"
    by (simp_all add: p build_announce_def Let_def dest)
  then have sel: "packet_type q = PACKET_ANNOUNCE" "destination_hash q = dest" and cf: "context_flag q = context_flag p"
    using q(2,3) by (simp_all add: relayed_def)
  have "parse_and_validate C q = Some \<lparr>ann_destination = dest, ann_identity = public i,
      ann_name_hash = name_hash C app aspects, ann_ratchet = None, ann_app_data = d\<rparr>"
    using parse_build_announce [OF C(1,2,4), of "random_hash r5 now" None app aspects d] C(5)
      parse_relayed [OF q(2) cf, of C]
    by (simp add: p parse_context lens dest)
  with sel dest(2) show ?thesis
    by (simp add: handle_frame_def q(1) handle_packet_def case_defs on_other_def on_announce_def Let_def)
qed

lemma sat_add8_more:
  assumes "1 \<le> h"
  shows "\<not> sat_add8 h 1 \<le> 1"
proof -
  have "1 \<le> unat h" using assms by (simp add: word_le_nat_alt)
  moreover have "unat (h + 1) = unat h + 1" if "unat h + 1 < 256"
    using that by (simp add: unat_word_ariths(1))
  ultimately show ?thesis by (auto simp: sat_add8_def word_le_nat_alt)
qed

lemma apply_transport_learned:
  assumes "hm_get (paths t) dest = Some e" "pe_next_hop e = Some nh" "\<not> pe_hops e \<le> 1" "length nh = 16"
    and "packet_ok (header1 dt pt ctx dest d)"
  shows "\<exists>q. packet_decode (apply_transport t dest (wire (header1 dt pt ctx dest d))) = Inr q \<and>
    relayed (header1 dt pt ctx dest d) q \<and> transport_id q = Some nh \<and> header_type q = Two"
proof -
  let ?p = "header1 dt pt ctx dest d"
  let ?q = "?p\<lparr>header_type := Two, transport_type := 1, transport_id := Some nh\<rparr>"
  have q: "packet_ok ?q" using assms(4,5) by (simp add: packet_ok_def)
  have "apply_transport t dest (wire ?p) = wire ?q" using rewritten_wire [OF assms(5)] assms(1-3) by simp
  with q assms(5) show ?thesis by (intro exI [of _ ?q]) (simp add: packet_decode_wire relayed_def)
qed

lemma announce_decodes:
  assumes "sized C"
    and raw: "raw = make_announce_with C B app aspects d r5 now \<or> raw = make_path_response_with C B app aspects d r5 now"
    and "packet_decode raw = Inr p"
  shows "\<exists>c. p = (build_announce C (tr_identity B) app aspects d (random_hash r5 now) None)\<lparr>pkt_context := c\<rparr>"
proof -
  let ?b = "build_announce C (tr_identity B) app aspects d (random_hash r5 now) None"
  have cc: "?b\<lparr>pkt_context := CONTEXT_NONE\<rparr> = ?b" by (simp add: build_announce_def Let_def header1_def)
  have pok: "packet_ok (?b\<lparr>pkt_context := c\<rparr>)" for c
    using packet_ok_build_announce [OF assms(1), of "tr_identity B" app aspects d "random_hash r5 now" None]
    by (simp add: packet_ok_def split: HeaderType.splits)
  note dec = packet_decode_wire [OF pok]
  have "p = ?b\<lparr>pkt_context := CONTEXT_NONE\<rparr> \<or> p = ?b\<lparr>pkt_context := CONTEXT_PATH_RESPONSE\<rparr>"
    using raw
  proof
    assume "raw = make_announce_with C B app aspects d r5 now"
    then have "raw = wire (?b\<lparr>pkt_context := CONTEXT_NONE\<rparr>)" by (simp only: make_announce_with_def Let_def cc)
    then show ?thesis using assms(3) dec by (simp del: CONTEXT_NONE_def)
  next
    assume "raw = make_path_response_with C B app aspects d r5 now"
    then have "raw = wire (?b\<lparr>pkt_context := CONTEXT_PATH_RESPONSE\<rparr>)"
      by (simp only: make_path_response_with_def Let_def)
    then show ?thesis using assms(3) dec by (simp del: CONTEXT_PATH_RESPONSE_def)
  qed
  then show ?thesis by blast
qed

text \<open>
  C13. An announce teaches identity and route. A node that hears another's announce (or its answer to
  a path request), relayed by any number of hops, reports it and from then on knows the
  announced identity and application data, has a path one hop longer than the packet's count,
  and sends what it addresses there through the relay the announce came from.\<close>


theorem announce_learned:
  assumes C: "sized C" "signs C" and n: "node C A" "node C B" and "length r5 = 5"
    and raw: "raw = make_announce_with C B app aspects d r5 now \<or> raw = make_path_response_with C B app aspects d r5 now"
    and f: "packet_decode raw = Inr p" "packet_decode raw' = Inr q" "relayed p q" "context_flag q = context_flag p"
    and dest: "dest = single_destination_hash C app aspects (identity_hash (tr_identity B))" "hm_get (links A) dest = None"
  shows "\<exists>info A'. handle_frame C ord eph iface raw' A = (Announce dest info, A') \<and>
    known A' dest = Some info \<and> kd_identity info = public (tr_identity B) \<and> kd_app_data info = d \<and>
    path_hops A' dest = Some (sat_add8 (hops q) 1) \<and>
    (\<forall>relay. 1 \<le> hops q \<and> transport_id q = Some relay \<longrightarrow>
      (\<exists>r. packet_decode (make_opportunistic_with C A' dest (kd_identity info) None msg ex iv) = Inr r \<and>
         transport_id r = Some relay \<and> destination_hash r = dest))"
proof -
  have ok: "transport_ok C A" "identity_ok C (tr_identity B)"
    using n node_ok [OF C(1)] by (auto simp: transport_ok_def)
  let ?b = "build_announce C (tr_identity B) app aspects d (random_hash r5 now) None"
  obtain c where p: "p = ?b\<lparr>pkt_context := c\<rparr>" using announce_decodes [OF C(1) raw f(1)] by blast
  have cf: "context_flag q = False" using f(4) by (simp add: p build_announce_def Let_def)
  let ?info = "\<lparr>kd_identity = public (tr_identity B), kd_name_hash = name_hash C app aspects, kd_ratchet = None,
    kd_app_data = d\<rparr>"
  let ?e = "\<lparr>pe_next_hop = transport_id q, pe_hops = sat_add8 (hops q) 1, pe_learned_on = iface\<rparr>"
  let ?A = "insert_path dest ?e (insert_known dest ?info A)"
  have h: "handle_frame C ord eph iface raw' A = (Announce dest ?info, ?A)"
    using announce_handled [OF C ok assms(5) p f(2,3) cf dest] by (simp add: Let_def)
  have k: "known ?A dest = Some ?info"
    using known_table.get_ins [OF tables_ok(6) [OF ok(1)]] by (simp add: known_def)
  have e: "hm_get (paths ?A) dest = Some ?e"
    by (rule path_table.get_ins) (use tables_ok(7) [OF ok(1)] in simp)
  have "\<exists>r. packet_decode (make_opportunistic_with C ?A dest (public (tr_identity B)) None msg ex iv) = Inr r \<and>
      transport_id r = Some relay \<and> destination_hash r = dest"
    if r: "1 \<le> hops q" "transport_id q = Some relay" for relay
  proof -
    have "length relay = 16" using packet_decode_ok [OF f(2)] r(2) by (auto simp: packet_ok_def split: HeaderType.splits)
    moreover have "length dest = 16" using C(1) by (simp add: dest(1) lens)
    ultimately show ?thesis
      using apply_transport_learned [OF e, of relay DEST_SINGLE PACKET_DATA CONTEXT_NONE] r sat_add8_more [OF r(1)]
      by (fastforce simp: make_opportunistic_with_def Let_def relayed_def)
  qed
  with h k e show ?thesis by (auto simp: path_hops_def)
qed

theorem announce_learned_witness:
  "\<exists>p q A' info r. packet_decode (make_announce_with demo (demo_node 5) [0x6C] [[0x64]] [7, 8] [1, 2, 3, 4, 5] 9) = Inr p \<and>
     q = p\<lparr>header_type := Two, hops := 2, transport_type := 1, transport_id := Some (replicate 16 4)\<rparr> \<and>
     handle_frame demo id [] Auto (wire q) (demo_node 1) =
       (Announce (single_destination_hash demo [0x6C] [[0x64]] (identity_hash (demo_identity 5))) info, A') \<and>
     kd_identity info = public (demo_identity 5) \<and>
     packet_decode (make_opportunistic_with demo A' (single_destination_hash demo [0x6C] [[0x64]]
       (identity_hash (demo_identity 5))) (kd_identity info) None [1] (replicate 32 2) (replicate 16 0)) = Inr r \<and>
     transport_id r = Some (replicate 16 4)"
proof -
  let ?b = "build_announce demo (demo_identity 5) [0x6C] [[0x64]] [7, 8] (random_hash [1, 2, 3, 4, 5] 9) None"
  let ?q = "?b\<lparr>header_type := Two, hops := 2, transport_type := 1, transport_id := Some (replicate 16 4)\<rparr>"
  let ?raw = "make_announce_with demo (demo_node 5) [0x6C] [[0x64]] [7, 8] [1, 2, 3, 4, 5] 9"
  have b: "packet_ok ?b" by (rule packet_ok_build_announce [OF demo_sized])
  then have q: "packet_ok ?q" by (simp add: packet_ok_def)
  have d: "packet_decode ?raw = Inr ?b" by (simp add: make_announce_with_def Let_def packet_decode_wire b)
  have "relayed ?b ?q" using b q by (simp add: relayed_def)
  from announce_learned [OF demo_sized demo_signs demo_node [of 1] demo_node [of 5] _ disjI1 [OF refl] d
      packet_decode_wire [OF q] this _ refl, where msg = "[1]" and ex = "replicate 32 2" and iv = "replicate 16 0"
      and ord = id and eph = "[]" and iface = Auto]
  show ?thesis using d by (simp, blast)
qed

section \<open>Properties: what events mean\<close>

lemma first_some_in: "first_some xs d = x \<Longrightarrow> Some x \<in> set xs \<or> x = d"
  by (induction xs d rule: first_some.induct) auto

lemma on_other_not_Delivered: "on_other C eph iface t p \<noteq> (Delivered h, t')"
  by (auto simp: on_other_def on_announce_def on_path_request_def on_link_request_def on_opportunistic_def Let_def
      split: option.splits sum.splits)

lemma on_in_link_not_Delivered: "on_in_link C eph t p \<noteq> Some (Delivered h, t')"
  by (auto simp: on_in_link_def on_in_link_identify_def on_in_link_keepalive_def on_in_link_close_def Let_def
      split: option.splits sum.splits if_splits)

lemma Delivered_cases:
  assumes "handle_packet C ord eph iface t p = (Delivered h, t')"
  shows "on_resource_proof t p = Some (Delivered h, t') \<or> on_packet_proof C ord t p = Some (Delivered h, t') \<or>
    on_opp_proof C t p = Some (Delivered h, t')"
proof -
  have "on_lrproof C t p \<noteq> Some (Delivered h, t')" "on_out_link_data C t p \<noteq> Some (Delivered h, t')"
    by (auto simp: on_lrproof_def on_out_link_data_def Let_def split: option.splits sum.splits if_splits)
  with first_some_in [OF assms [unfolded handle_packet_def]] on_in_link_not_Delivered [of C eph t p h t']
    on_other_not_Delivered [of C eph iface t p h t']
  show ?thesis by (auto simp: eq_commute [of "(Delivered h, t')"])
qed

lemma Delivered_meaning:
  "on_resource_proof t p = Some (Delivered h, t') \<Longrightarrow> packet_type p = PACKET_PROOF \<and>
     t' = t\<lparr>out_resources := hm_remove (destination_hash p) (out_resources t)\<rparr> \<and>
     (\<exists>tx. hm_get (out_resources t) (destination_hash p) = Some tx \<and> rs_hash tx = h \<and>
        pkt_data p = h @ rs_expected_proof tx)"
  "on_packet_proof C ord t p = Some (Delivered h, t') \<Longrightarrow> packet_type p = PACKET_PROOF \<and>
     hm_get (receipts t) h = Some (destination_hash p) \<and> t' = t\<lparr>receipts := hm_remove h (receipts t)\<rparr> \<and>
     (case hm_get (out_links t) (destination_hash p) of
        Some l \<Rightarrow> validate_proof_sig C (sig_pub (ol_identity l)) h (pkt_data p)
      | None \<Rightarrow> \<exists>st. hm_get (links t) (destination_hash p) = Some st \<and>
          validate_proof_sig C (ls_peer_sig_pub st) h (pkt_data p))"
  "on_opp_proof C t p = Some (Delivered h, t') \<Longrightarrow> packet_type p = PACKET_PROOF \<and>
     t' = t\<lparr>opp_receipts := hm_remove (destination_hash p) (opp_receipts t)\<rparr> \<and>
     (\<exists>r. hm_get (opp_receipts t) (destination_hash p) = Some r \<and> or_full_hash r = h \<and>
        validate_proof C (or_identity r) h (pkt_data p))"
proof -
  assume *: "on_resource_proof t p = Some (Delivered h, t')"
  then obtain tx where "packet_type p = PACKET_PROOF" "hm_get (out_resources t) (destination_hash p) = Some tx"
      "rs_hash tx = h" "proof_is_valid tx (pkt_data p)"
      "t' = t\<lparr>out_resources := hm_remove (destination_hash p) (out_resources t)\<rparr>"
    by (auto simp: on_resource_proof_def split: if_splits option.splits)
  moreover have "d = take 32 d @ drop 32 d" for d :: bytes by simp
  ultimately show "packet_type p = PACKET_PROOF \<and>
     t' = t\<lparr>out_resources := hm_remove (destination_hash p) (out_resources t)\<rparr> \<and>
     (\<exists>tx. hm_get (out_resources t) (destination_hash p) = Some tx \<and> rs_hash tx = h \<and>
        pkt_data p = h @ rs_expected_proof tx)"
    unfolding proof_is_valid_def by metis
qed (auto simp: on_packet_proof_def on_opp_proof_def Let_def find_Some_iff split: if_splits option.splits)

text \<open>
  C6. No delivery is reported without proof. A \<open>Delivered\<close> event for \<open>h\<close> means that a PROOF packet
  arrived and either a receipt for \<open>h\<close> was outstanding on the link it was addressed to and its signature
  verifies over \<open>h\<close> under the key that link's peer proves with, or an opportunistic
  packet with hash \<open>h\<close> was outstanding and its recipient's identity signed it, or the resource
  being served on that link has hash \<open>h\<close> and the proof carries its expected digest. In each case
  exactly that receipt or resource is retired.\<close>

theorem delivered_sound:
  assumes "handle_frame C ord eph iface raw t = (Delivered h, t')"
  shows "\<exists>p. packet_decode raw = Inr p \<and> packet_type p = PACKET_PROOF \<and>
    (let to = destination_hash p in
     hm_get (receipts t) h = Some to \<and> t' = t\<lparr>receipts := hm_remove h (receipts t)\<rparr> \<and>
       (case hm_get (out_links t) to of
          Some l \<Rightarrow> validate_proof_sig C (sig_pub (ol_identity l)) h (pkt_data p)
        | None \<Rightarrow> \<exists>st. hm_get (links t) to = Some st \<and> validate_proof_sig C (ls_peer_sig_pub st) h (pkt_data p)) \<or>
     t' = t\<lparr>opp_receipts := hm_remove to (opp_receipts t)\<rparr> \<and>
       (\<exists>r. hm_get (opp_receipts t) to = Some r \<and> or_full_hash r = h \<and>
          validate_proof C (or_identity r) h (pkt_data p)) \<or>
     t' = t\<lparr>out_resources := hm_remove to (out_resources t)\<rparr> \<and>
       (\<exists>tx. hm_get (out_resources t) to = Some tx \<and> rs_hash tx = h \<and>
          pkt_data p = h @ rs_expected_proof tx))"
proof -
  obtain p where p: "packet_decode raw = Inr p" "handle_packet C ord eph iface t p = (Delivered h, t')"
    using assms by (auto simp: handle_frame_def split: sum.splits)
  from Delivered_cases [OF p(2)] show ?thesis
    unfolding Let_def using p(1) Delivered_meaning [where p = p and h = h and t' = t' and t = t]
    by (intro exI [of _ p]) (elim disjE; blast)
qed

theorem delivered_sound_witness:
  "\<exists>raw t' p. raw = wire (header1 DEST_LINK PACKET_PROOF CONTEXT_RESOURCE_PRF (replicate 16 3)
       (replicate 32 1 @ replicate 32 2)) \<and>
     handle_frame demo id [] Hub raw ((demo_node 5)\<lparr>out_resources := [(replicate 16 3, \<lparr>rs_hash = replicate 32 1,
          rs_expected_proof = replicate 32 2, rs_random_hash = [], rs_parts = [], rs_map_hashes = [],
          rs_data_size = 0, rs_transfer_size = 0\<rparr>)]\<rparr>) = (Delivered (replicate 32 1), t') \<and>
     packet_decode raw = Inr p \<and> packet_type p = PACKET_PROOF"
proof -
  let ?p = "header1 DEST_LINK PACKET_PROOF CONTEXT_RESOURCE_PRF (replicate 16 3) (replicate 32 1 @ replicate 32 2)"
  let ?t = "(demo_node 5)\<lparr>out_resources := [(replicate 16 3, \<lparr>rs_hash = replicate 32 1,
          rs_expected_proof = replicate 32 2, rs_random_hash = [], rs_parts = [], rs_map_hashes = [],
          rs_data_size = 0, rs_transfer_size = 0\<rparr>)]\<rparr>"
  have d: "packet_decode (wire ?p) = Inr ?p" by (rule packet_decode_wire) simp
  have h: "handle_frame demo id [] Hub (wire ?p) ?t = (Delivered (replicate 32 1), ?t\<lparr>out_resources := []\<rparr>)"
    unfolding handle_frame_def d by (simp add: handle_packet_def on_lrproof_def on_resource_proof_def proof_is_valid_def)
  from delivered_sound [OF h] h show ?thesis by blast
qed

section \<open>Properties: the node\<close>

text \<open>
  C9. Whatever frames arrive and whatever operations the application calls, in any order, a node's tables
  stay within their caps and well formed: at most 256 peers and 256 routes, 64 inbound links, 32
  pending and 32 established outbound links, 64 receipts of each kind; every key in a table is
  in its eviction queue, every session key has 64 bytes (so no token constructor can fail),
  every resource being served is sound.\<close>

theorem node_invariant:
  assumes "sized C" "node C t"
  shows "transport_ok C t \<and> length (known_dests t) \<le> 256 \<and> length (paths t) \<le> 256 \<and> length (links t) \<le> 64 \<and>
    length (pending_out t) \<le> 32 \<and> length (out_links t) \<le> 32 \<and> length (receipts t) \<le> 64 \<and>
    length (opp_receipts t) \<le> 64"
proof -
  have ok: "transport_ok C t" using node_ok [OF assms] .
  note tabs = tables_ok [OF ok]
  show ?thesis
    using ok known_table.bounded [OF tabs(6)] path_table.bounded [OF tabs(7)] link_table.bounded [OF tabs(1)]
      pending_table.bounded [OF tabs(4)] out_link_table.bounded [OF tabs(2)] receipt_table.bounded [OF tabs(3)]
      opp_table.bounded [OF tabs(5)]
    by simp
qed

theorem node_invariant_witness:
  "node demo (snd (make_link_request demo (demo_node 1) (replicate 16 5) (public (demo_identity 5))
      (replicate 32 2) (replicate 32 3) 0)) \<and>
   length (pending_out (snd (make_link_request demo (demo_node 1) (replicate 16 5) (public (demo_identity 5))
      (replicate 32 2) (replicate 32 3) 0))) \<le> 32"
proof -
  have "node demo (snd (make_link_request demo (demo_node 1) (replicate 16 5) (public (demo_identity 5))
      (replicate 32 2) (replicate 32 3) 0))"
    by (rule node.request [OF demo_node]) simp_all
  with node_invariant [OF demo_sized this] show ?thesis by blast
qed

section \<open>Two ends of a link\<close>

definition linked :: "crypto \<Rightarrow> bytes \<Rightarrow> Transport \<Rightarrow> Transport \<Rightarrow> bool" where
  "linked C lid A B \<longleftrightarrow>
     (\<exists>l st. hm_get (out_links A) lid = Some l \<and> hm_get (links B) lid = Some st \<and> ls_key st = ol_key l \<and>
        ol_identity l = public (tr_identity B) \<and> ls_peer_sig_pub st = dalek_pub C (ol_sig_seed l) \<and>
        hm_get (out_links B) lid = None)"

lemma linked_lengths:
  assumes "transport_ok C A" "hm_get (out_links A) lid = Some l"
  shows "length lid = 16" "length (ol_key l) = 64" "length (ol_sig_seed l) = 32"
  using assms by (auto simp: transport_ok_def out_link_ok_def dest: table_allD)

text \<open>A link packet of any context, decrypted at the other end.\<close>

lemma context_packet_to_in_link:
  assumes C: "sized C" "aes_inverts C" and st: "hm_get (links B) lid = Some st" "hm_get (out_links B) lid = None"
    and len: "length (ls_key st) = 64" "length iv = 16" "length lid = 16"
    and raw: "make_link_context_packet C lid (ls_key st) ctx pt iv = Inr raw" "in_flight raw raw'"
  obtains q where "packet_decode raw' = Inr q" "packet_type q = PACKET_DATA" "pkt_context q = ctx"
    "destination_hash q = lid" "link_decrypt C (ls_key st) (pkt_data q) = Inr pt"
    "handle_frame C ord eph iface raw' B = the (on_in_link C eph B q)"
proof -
  obtain ct where ct: "encrypt_data C (ls_key st) pt iv = Inr ct" "raw = wire (header1 DEST_LINK PACKET_DATA ctx lid ct)"
    using make_link_context_packet_decode [OF len(1,3), of C pt iv ctx] raw(1) by (metis Inr_inject)
  obtain q where q: "packet_decode raw' = Inr q" "relayed (header1 DEST_LINK PACKET_DATA ctx lid ct) q"
    using in_flight_wire [OF raw(2) [unfolded ct(2)]] len(3) by auto
  have d: "link_decrypt C (ls_key st) ct = Inr pt" using link_data_roundtrip [OF C len(1,2) ct(1)] .
  have "\<exists>x. on_in_link C eph B q = Some x" using st(1) relayed_sel(3) [OF q(2)] by (simp add: on_in_link_def Let_def)
  with st(2) relayed_sel [OF q(2)] have "handle_frame C ord eph iface raw' B = the (on_in_link C eph B q)"
    by (auto simp: handle_frame_def q(1) handle_packet_def on_lrproof_def on_resource_proof_def
        on_packet_proof_def on_out_link_data_def on_opp_proof_def)
  with that q relayed_sel [OF q(2)] d show thesis by simp
qed

lemma context_packet_to_out_link:
  assumes C: "sized C" "aes_inverts C" and l: "hm_get (out_links A) lid = Some l"
    and len: "length (ol_key l) = 64" "length iv = 16" "length lid = 16"
    and ctx: "ctx \<noteq> CONTEXT_RESOURCE" "ctx \<noteq> CONTEXT_NONE" "ctx \<noteq> CONTEXT_LINKCLOSE"
    and raw: "make_link_context_packet C lid (ol_key l) ctx pt iv = Inr raw" "in_flight raw raw'"
  shows "handle_frame C ord eph iface raw' A = (OutLinkData lid ctx pt, A)"
proof -
  obtain ct where ct: "encrypt_data C (ol_key l) pt iv = Inr ct" "raw = wire (header1 DEST_LINK PACKET_DATA ctx lid ct)"
    using make_link_context_packet_decode [OF len(1,3), of C pt iv ctx] raw(1) by (metis Inr_inject)
  obtain q where q: "packet_decode raw' = Inr q" "relayed (header1 DEST_LINK PACKET_DATA ctx lid ct) q"
    using in_flight_wire [OF raw(2) [unfolded ct(2)]] len(3) by auto
  have d: "link_decrypt C (ol_key l) ct = Inr pt" using link_data_roundtrip [OF C len(1,2) ct(1)] .
  with relayed_sel [OF q(2)] l ctx show ?thesis
    by (simp add: handle_frame_def q(1) handle_packet_def on_lrproof_def on_resource_proof_def
        on_packet_proof_def on_out_link_data_def Let_def)
qed

lemma make_link_context_packet_64:
  assumes "length k = 64" "length lid = 16"
  shows "\<exists>raw. make_link_context_packet C lid k ctx pt iv = Inr raw \<and> in_flight raw raw"
  using make_link_context_packet_decode [OF assms, of C pt iv ctx] assms(2)
  by (metis in_flight_def packet_decode_ok relayed_refl)

lemma identify_received:
  assumes C: "sized C" "aes_inverts C" "signs C" and A: "identity_ok C (tr_identity A)"
    and st: "hm_get (links B) lid = Some st" "hm_get (out_links B) lid = None"
    and l: "hm_get (out_links A) lid = Some l" "ls_key st = ol_key l"
    and len: "length (ol_key l) = 64" "length iv = 16" "length lid = 16"
    and raw: "make_out_link_identify C A lid iv = Some raw" "in_flight raw raw'"
  shows "handle_frame C ord eph iface raw' B = (LinkIdentified lid (public (tr_identity A)),
    B\<lparr>links := hm_insert lid (st\<lparr>ls_peer_identity := Some (public (tr_identity A))\<rparr>) (links B)\<rparr>)"
proof -
  let ?pt = "public_key (public (tr_identity A)) @ sign C (tr_identity A) (lid @ public_key (public (tr_identity A)))"
  have "make_link_context_packet C lid (ls_key st) CONTEXT_LINKIDENTIFY ?pt iv = Inr raw"
    using raw(1) l by (auto simp: make_out_link_identify_def make_identify_def ok_option_def Let_def split: sum.splits)
  then obtain q where q: "packet_type q = PACKET_DATA" "pkt_context q = CONTEXT_LINKIDENTIFY"
      "destination_hash q = lid" "link_decrypt C (ls_key st) (pkt_data q) = Inr ?pt"
      "handle_frame C ord eph iface raw' B = the (on_in_link C eph B q)"
    using context_packet_to_in_link [OF C(1,2) st _ len(2,3) _ raw(2)] l(2) len(1) by metis
  with st(1) validate_identify_own [OF C(1,3) A, of lid] show ?thesis
    by (simp add: on_in_link_def on_in_link_identify_def Let_def)
qed

lemma in_link_data_delivered:
  assumes C: "sized C" "aes_inverts C" "signs C" and B: "transport_ok C B"
    and l: "hm_get (out_links A) lid = Some l"
    and st: "hm_get (links B) lid = Some st" "ls_key st = ol_key l" "hm_get (out_links B) lid = None"
      "ls_peer_sig_pub st = dalek_pub C (ol_sig_seed l)" "ls_peer_identity st \<noteq> None"
    and len: "length (ol_key l) = 64" "length lid = 16" "length (ol_sig_seed l) = 32" "length iv = 16"
  shows "\<exists>pkt ph B'. make_in_link_data C lid msg iv B = (Some (pkt, ph), B') \<and> in_flight pkt pkt \<and>
    (\<forall>pkt'. in_flight pkt pkt' \<longrightarrow> (\<exists>rcpt. handle_frame C ordA ephA ifA pkt' A = (LinkData lid msg rcpt, A) \<and>
      in_flight rcpt rcpt \<and>
      (\<forall>rcpt'. in_flight rcpt rcpt' \<longrightarrow> fst (handle_frame C ordB ephB ifB rcpt' B') = Delivered ph)))"
proof -
  let ?ct = "encrypt_with_iv C \<lparr>signing_key = take 32 (ol_key l), encryption_key = drop 32 (ol_key l)\<rparr> msg iv"
  let ?p = "header1 DEST_LINK PACKET_DATA CONTEXT_NONE lid ?ct"
  let ?ph = "packet_hash C ?p" and ?B = "insert_receipt (packet_hash C ?p) lid B"
  have ct: "encrypt_data C (ol_key l) msg iv = Inr ?ct" by (rule encrypt_data_64 [OF len(1)])
  have made: "make_in_link_data C lid msg iv B = (Some (wire ?p, ?ph), ?B)"
    using st ct by (simp add: make_in_link_data_def Let_def)
  have rc: "hm_get (receipts ?B) ?ph = Some lid" by (rule receipt_table.get_ins) (rule tables_ok [OF B])
  have ph: "length ?ph = 32" using C(1) by (simp add: lens)
  have "\<exists>rcpt. handle_frame C ordA ephA ifA pkt' A = (LinkData lid msg rcpt, A) \<and> in_flight rcpt rcpt \<and>
      (\<forall>rcpt'. in_flight rcpt rcpt' \<longrightarrow> fst (handle_frame C ordB ephB ifB rcpt' ?B) = Delivered ?ph)"
    if f: "in_flight (wire ?p) pkt'" for pkt'
  proof -
    obtain q where q: "relayed ?p q"
        "handle_frame C ordA ephA ifA pkt' A = (LinkData lid msg (prove_packet_ephemeral C (ol_sig_seed l) lid q), A)"
      using out_link_data_received [OF C(1,2) l len(1,4,2) ct f] by metis
    note rcpt = prove_packet_eq(2) [OF C(1) q(1), of "ol_sig_seed l" lid]
    have "fst (handle_frame C ordB ephB ifB r ?B) = Delivered ?ph"
      if "in_flight (prove_packet_ephemeral C (ol_sig_seed l) lid q) r" for r
      by (subst link_proof_received [where key = "dalek_pub C (ol_sig_seed l)",
            OF rc ph len(2) _ proofs_validate(2) [OF C(1,3) ph len(3)] length_ed_sign [OF C(1)]])
        (use st that rcpt in simp_all)
    moreover have "in_flight (prove_packet_ephemeral C (ol_sig_seed l) lid q) (prove_packet_ephemeral C (ol_sig_seed l) lid q)"
      using rcpt len(2) by (simp add: in_flight_refl)
    ultimately show ?thesis using q(2) by blast
  qed
  moreover have "in_flight (wire ?p) (wire ?p)" using len(2) by (simp add: in_flight_refl)
  ultimately show ?thesis using made by blast
qed

text \<open>
  C16. The backchannel. On a link \<open>A\<close> opened to \<open>B\<close>, \<open>B\<close> cannot send before \<open>A\<close> has identified itself;
  \<open>A\<close>'s identify packet makes \<open>B\<close> record exactly \<open>A\<close>'s identity, and from then on \<open>B\<close>'s data reaches \<open>A\<close> on the
  same link and \<open>A\<close>'s receipt, signed with the link's ephemeral key, makes \<open>B\<close> report it delivered.\<close>

theorem backchannel:
  assumes C: "sized C" "aes_inverts C" "signs C" and n: "transport_ok C A" "transport_ok C B"
    and lk: "linked C lid A B" and iv: "length iv = 16" "length iv' = 16"
    and ident: "make_out_link_identify C A lid iv = Some raw" "in_flight raw raw'"
  shows "\<exists>B1. handle_frame C ordB ephB ifB raw' B = (LinkIdentified lid (public (tr_identity A)), B1) \<and>
    (\<exists>pkt ph B2. make_in_link_data C lid msg iv' B1 = (Some (pkt, ph), B2) \<and> in_flight pkt pkt \<and>
      (\<forall>pkt'. in_flight pkt pkt' \<longrightarrow>
        (\<exists>rcpt. handle_frame C ordA ephA ifA pkt' A = (LinkData lid msg rcpt, A) \<and> in_flight rcpt rcpt \<and>
          (\<forall>rcpt'. in_flight rcpt rcpt' \<longrightarrow>
            fst (handle_frame C ordB ephB ifB rcpt' B2) = Delivered ph)))) \<and>
    (\<forall>st. hm_get (links B) lid = Some st \<and> ls_peer_identity st = None \<longrightarrow> make_in_link_data C lid msg iv' B = (None, B))"
proof -
  obtain l st where l: "hm_get (out_links A) lid = Some l" and st: "hm_get (links B) lid = Some st"
      "ls_key st = ol_key l" "ls_peer_sig_pub st = dalek_pub C (ol_sig_seed l)" "hm_get (out_links B) lid = None"
    using lk by (auto simp: linked_def)
  note len = linked_lengths [OF n(1) l]
  have i: "identity_ok C (tr_identity A)" using n(1) by (simp add: transport_ok_def)
  let ?B = "B\<lparr>links := hm_insert lid (st\<lparr>ls_peer_identity := Some (public (tr_identity A))\<rparr>) (links B)\<rparr>"
  have B1: "handle_frame C ordB ephB ifB raw' B = (LinkIdentified lid (public (tr_identity A)), ?B)"
    by (rule identify_received [OF C i st(1,4) l st(2) len(2) iv(1) len(1) ident])
  have Bok: "transport_ok C ?B" using handle_frame_ok [OF C(1) n(2)] B1 by (metis snd_conv)
  have "make_in_link_data C lid msg iv' B = (None, B)" if "ls_peer_identity st = None"
    using that st(1) by (simp add: make_in_link_data_def)
  moreover note in_link_data_delivered [OF C Bok l, of "st\<lparr>ls_peer_identity := Some (public (tr_identity A))\<rparr>" iv'
      msg ordA ephA ifA ordB ephB ifB]
  ultimately show ?thesis using B1 st len iv(2) by auto
qed

lemma demo_linked: "\<exists>lid A B. transport_ok demo A \<and> transport_ok demo B \<and> linked demo lid A B"
proof -
  obtain raw lid A1 where r: "make_link_request demo (demo_node 1) (replicate 16 5) (public (demo_identity 5))
      (replicate 32 2) (replicate 32 3) 0 = ((raw, lid), A1)"
    by (metis surj_pair)
  then have "raw = wire (request_packet demo (replicate 16 5) (replicate 32 2) (replicate 32 3))"
    by (auto simp: make_link_request_def initiate_request_eq Let_def apply_transport_def)
  then have f: "in_flight raw raw" by (simp add: in_flight_refl request_packet_ok)
  let ?B = "demo_node 5"
  have ok: "transport_ok demo (demo_node 1)" "transport_ok demo ?B" by (simp_all add: node_ok [OF demo_sized] demo_node)
  obtain st where st: "handle_frame demo id (replicate 32 7) Hub raw ?B = (LinkEstablished lid (ls_proof st), insert_link lid st ?B)"
      "hm_get (links (insert_link lid st ?B)) lid = Some st" "ls_peer_sig_pub st = dalek_pub demo (replicate 32 3)"
      "transport_ok demo (insert_link lid st ?B)" "in_flight (ls_proof st) (ls_proof st)"
      "\<forall>pr. in_flight (ls_proof st) pr \<longrightarrow> (\<exists>A2 l. handle_frame demo id [] Hub pr A1 = (OutboundLinkUp lid (replicate 16 5), A2) \<and>
        transport_ok demo A2 \<and> hm_get (out_links A2) lid = Some l \<and> ol_key l = ls_key st \<and> ol_sig_seed l = replicate 32 3 \<and>
        ol_target l = replicate 16 5 \<and> ol_identity l = public (tr_identity ?B))"
    using link_opened [OF demo_sized demo_signs demo_dh ok, of "replicate 16 5" "replicate 32 2" "replicate 32 3"
        "replicate 32 7" 0 raw lid A1 raw id Hub id "[]" Hub] r f
    by auto
  then obtain A2 l where A2: "transport_ok demo A2" "hm_get (out_links A2) lid = Some l" "ol_key l = ls_key st"
      "ol_sig_seed l = replicate 32 3" "ol_identity l = public (tr_identity ?B)"
    by blast
  have "linked demo lid A2 (insert_link lid st ?B)"
    unfolding linked_def using A2 st(2,3) by (intro exI [of _ l] exI [of _ st]) simp
  with A2(1) st(4) show ?thesis by blast
qed

lemma identify_packet_made:
  assumes "transport_ok C A" "linked C lid A B"
  shows "\<exists>raw. make_out_link_identify C A lid iv = Some raw \<and> in_flight raw raw"
proof -
  obtain l where l: "hm_get (out_links A) lid = Some l" using assms(2) by (auto simp: linked_def)
  note len = linked_lengths [OF assms(1) l]
  obtain raw where "make_identify C lid (ol_key l) (tr_identity A) iv = Inr raw" "in_flight raw raw"
    using make_link_context_packet_64 [OF len(2,1)] unfolding make_identify_def Let_def by blast
  with l show ?thesis by (simp add: make_out_link_identify_def ok_option_def)
qed

theorem backchannel_witness:
  "\<exists>lid A B raw B1 pkt ph B2 rcpt.
     make_out_link_identify demo A lid (replicate 16 0) = Some raw \<and>
     handle_frame demo id [] Hub raw B = (LinkIdentified lid (public (tr_identity A)), B1) \<and>
     make_in_link_data demo lid [111, 107] (replicate 16 1) B1 = (Some (pkt, ph), B2) \<and>
     handle_frame demo id [] Hub pkt A = (LinkData lid [111, 107] rcpt, A) \<and>
     fst (handle_frame demo id [] Hub rcpt B2) = Delivered ph"
proof -
  obtain lid A B where l: "transport_ok demo A" "transport_ok demo B" "linked demo lid A B" using demo_linked by blast
  obtain raw where r: "make_out_link_identify demo A lid (replicate 16 0) = Some raw" "in_flight raw raw"
    using identify_packet_made [OF l(1,3)] by blast
  from backchannel [OF demo_sized demo_aes demo_signs l _ _ r, where iv' = "replicate 16 1" and msg = "[111, 107]"
      and ordA = id and ordB = id and ephA = "[]" and ephB = "[]" and ifA = Hub and ifB = Hub] r(1)
  show ?thesis by simp blast
qed

section \<open>Resources over a link\<close>

text \<open>A node that receives on the link exactly what \<open>ctx\<close> and \<open>pt\<close> say, however the packet was relayed.\<close>

definition receives :: "crypto \<Rightarrow> Transport \<Rightarrow> bytes \<Rightarrow> bytes \<Rightarrow> u8 \<Rightarrow> bytes \<Rightarrow> bool" where
  "receives C B raw lid ctx pt \<longleftrightarrow>
     (\<forall>raw' ord eph iface. in_flight raw raw' \<longrightarrow> handle_frame C ord eph iface raw' B = (InLinkData lid ctx pt, B))"

lemma receives_part:
  assumes "hm_get (links B) lid = Some st" "hm_get (out_links B) lid = None" "length lid = 16"
  shows "receives C B (wire (header1 DEST_LINK PACKET_DATA CONTEXT_RESOURCE lid d)) lid CONTEXT_RESOURCE d"
  unfolding receives_def
proof (intro allI impI)
  fix raw ord eph iface assume "in_flight (wire (header1 DEST_LINK PACKET_DATA CONTEXT_RESOURCE lid d)) raw"
  then obtain q where q: "packet_decode raw = Inr q" "relayed (header1 DEST_LINK PACKET_DATA CONTEXT_RESOURCE lid d) q"
    using assms(3) by (auto elim: in_flight_wire)
  with relayed_sel [OF q(2)] assms(1,2)
  show "handle_frame C ord eph iface raw B = (InLinkData lid CONTEXT_RESOURCE d, B)"
    by (simp add: handle_frame_def handle_packet_def case_defs)
qed

lemma receives_context:
  assumes "sized C" "aes_inverts C" "hm_get (links B) lid = Some st" "hm_get (out_links B) lid = None"
    and "length (ls_key st) = 64" "length iv = 16" "length lid = 16"
    and "ctx = CONTEXT_RESOURCE_ADV \<or> ctx = CONTEXT_RESOURCE_HMU"
    and "make_link_context_packet C lid (ls_key st) ctx pt iv = Inr raw"
  shows "receives C B raw lid ctx pt"
  unfolding receives_def
proof (intro allI impI)
  fix raw' ord eph iface assume "in_flight raw raw'"
  then obtain q where "packet_type q = PACKET_DATA" "pkt_context q = ctx" "destination_hash q = lid"
      "link_decrypt C (ls_key st) (pkt_data q) = Inr pt"
      "handle_frame C ord eph iface raw' B = the (on_in_link C eph B q)"
    using context_packet_to_in_link [OF assms(1-7,9)] by metis
  with assms(3,8) show "handle_frame C ord eph iface raw' B = (InLinkData lid ctx pt, B)"
    by (auto simp: on_in_link_def Let_def)
qed

lemma resource_proof_received:
  assumes "hm_get (out_resources A) lid = Some tx" "proof_is_valid tx pr" "length lid = 16"
    and "in_flight (wire (header1 DEST_LINK PACKET_PROOF CONTEXT_RESOURCE_PRF lid pr)) raw"
  shows "handle_frame C ord eph iface raw A = (Delivered (rs_hash tx), A\<lparr>out_resources := hm_remove lid (out_resources A)\<rparr>)"
proof -
  obtain q where q: "packet_decode raw = Inr q" "relayed (header1 DEST_LINK PACKET_PROOF CONTEXT_RESOURCE_PRF lid pr) q"
    using in_flight_wire [OF assms(4)] assms(3) by auto
  with relayed_sel [OF q(2)] assms(1,2) show ?thesis
    by (simp add: handle_frame_def handle_packet_def on_lrproof_def on_resource_proof_def)
qed

lemma serve_link_resource_received:
  assumes C: "sized C" "aes_inverts C" and B: "hm_get (links B) lid = Some st" "hm_get (out_links B) lid = None"
    and A: "hm_get (out_resources A) lid = Some tx" "any_link_key A lid = Some (ls_key st)"
    and len: "length (ls_key st) = 64" "length iv = 16" "length lid = 16"
  shows "list_all2 (\<lambda>raw (ctx, pt). receives C B raw lid ctx pt) (serve_link_resource C A lid req iv)
    (case handle_request tx req of (ps, hmu) \<Rightarrow> map (Pair CONTEXT_RESOURCE) ps @
       (case hmu of None \<Rightarrow> [] | Some h \<Rightarrow> [(CONTEXT_RESOURCE_HMU, h)]))"
proof -
  obtain ps hmu where hr: "handle_request tx req = (ps, hmu)" by fastforce
  have parts: "list_all2 (\<lambda>raw (ctx, pt). receives C B raw lid ctx pt)
      (map (\<lambda>p. wire (header1 DEST_LINK PACKET_DATA CONTEXT_RESOURCE lid p)) ps) (map (Pair CONTEXT_RESOURCE) ps)"
    using receives_part [OF B len(3)] by (simp add: list_all2_conv_all_nth)
  show ?thesis
  proof (cases hmu)
    case None
    then show ?thesis using parts by (simp add: serve_link_resource_def A hr)
  next
    case (Some h)
    obtain raw where raw: "make_link_context_packet C lid (ls_key st) CONTEXT_RESOURCE_HMU h iv = Inr raw"
      using make_link_context_packet_64 [OF len(1,3)] by blast
    have "receives C B raw lid CONTEXT_RESOURCE_HMU h"
      by (rule receives_context [OF C B len _ raw]) simp
    then show ?thesis using parts raw Some by (simp add: serve_link_resource_def A hr list_all2_appendI)
  qed
qed

text \<open>
  C17. A message too large for one packet travels as a resource. Starting one on a link makes the other
  end receive exactly the sender's advertisement; every part request the receiver puts on the
  link reaches the sender as written; the packets the sender serves in answer are received, in order,
  as exactly the parts and the hashmap page that \<open>handle_request\<close> selects; and a valid resource
  proof makes the sender report the resource hash as delivered and forget the resource.\<close>

theorem resource_over_link:
  assumes C: "sized C" "aes_inverts C" and n: "transport_ok C A" "transport_ok C B" and lk: "linked C lid A B"
    and len: "length adv_iv = 16" "length iv' = 16" "length iv'' = 16"
    and made: "make_link_resource C lid d r prefix iv adv_iv A = (Some (adv, h), A1)"
  shows "\<exists>tx. hm_get (out_resources A1) lid = Some tx \<and> rs_hash tx = h \<and>
    receives C B adv lid CONTEXT_RESOURCE_ADV (advertisement tx) \<and>
    (\<forall>req raw raw'. make_in_link_context C B lid CONTEXT_RESOURCE_REQ req iv' = Some raw \<and> in_flight raw raw' \<longrightarrow>
       handle_frame C ordA ephA ifA raw' A1 = (OutLinkData lid CONTEXT_RESOURCE_REQ req, A1)) \<and>
    (\<forall>req. list_all2 (\<lambda>raw (ctx, pt). receives C B raw lid ctx pt) (serve_link_resource C A1 lid req iv'')
       (case handle_request tx req of (ps, hmu) \<Rightarrow> map (Pair CONTEXT_RESOURCE) ps @
          (case hmu of None \<Rightarrow> [] | Some m \<Rightarrow> [(CONTEXT_RESOURCE_HMU, m)]))) \<and>
    (\<forall>pr raw raw'. proof_is_valid tx pr \<and> make_in_link_resource_proof B lid pr = Some raw \<and> in_flight raw raw' \<longrightarrow>
       fst (handle_frame C ordA ephA ifA raw' A1) = Delivered h)"
proof -
  obtain l st where l: "hm_get (out_links A) lid = Some l" and st: "hm_get (links B) lid = Some st"
      "ls_key st = ol_key l" "hm_get (out_links B) lid = None"
    using lk by (auto simp: linked_def)
  note ll = linked_lengths [OF n(1) l]
  have key: "length (ls_key st) = 64" using st(2) ll(2) by simp
  obtain tx where tx: "make_link_context_packet C lid (ol_key l) CONTEXT_RESOURCE_ADV (advertisement tx) adv_iv = Inr adv"
      "h = rs_hash tx" "A1 = A\<lparr>out_resources := hm_insert lid tx (out_resources A)\<rparr>"
    using made l by (auto simp: make_link_resource_def any_link_key_def split: option.splits sum.splits)
  have A1: "hm_get (out_resources A1) lid = Some tx" "hm_get (out_links A1) lid = Some l"
      "any_link_key A1 lid = Some (ls_key st)"
    using tx(3) l st(2) by (simp_all add: any_link_key_def)
  have "receives C B adv lid CONTEXT_RESOURCE_ADV (advertisement tx)"
    by (rule receives_context [OF C st(1,3) key len(1) ll(1) _ tx(1) [folded st(2)]]) simp
  moreover have "handle_frame C ordA ephA ifA raw' A1 = (OutLinkData lid CONTEXT_RESOURCE_REQ req, A1)"
    if "make_in_link_context C B lid CONTEXT_RESOURCE_REQ req iv' = Some raw" "in_flight raw raw'" for req raw raw'
    by (rule context_packet_to_out_link [OF C A1(2) ll(2) len(2) ll(1)])
      (use that st(1,2) in \<open>auto simp: make_in_link_context_def ok_option_def split: sum.splits\<close>)
  moreover have "fst (handle_frame C ordA ephA ifA raw' A1) = Delivered h"
    if "proof_is_valid tx pr" "make_in_link_resource_proof B lid pr = Some raw" "in_flight raw raw'" for pr raw raw'
    using that resource_proof_received [OF A1(1) that(1) ll(1)] tx(2)
    by (auto simp: make_in_link_resource_proof_def split: if_splits)
  ultimately show ?thesis
    using A1(1) tx(2) serve_link_resource_received [OF C st(1,3) A1(1,3) key len(3) ll(1)] by blast
qed

lemma link_resource_made:
  assumes "transport_ok C A" "any_link_key A lid = Some key" "length key = 64" "length lid = 16"
  shows "\<exists>adv h A1. make_link_resource C lid d r prefix iv adv_iv A = (Some (adv, h), A1)"
proof -
  obtain tx where tx: "ResourceSender_new C d key r prefix iv = Some tx"
    using assms(3) by (simp add: ResourceSender_new_def Token_new_def Let_def)
  obtain raw where "make_link_context_packet C lid key CONTEXT_RESOURCE_ADV (advertisement tx) adv_iv = Inr raw"
    using make_link_context_packet_64 [OF assms(3,4)] by blast
  with tx assms(2) show ?thesis by (simp add: make_link_resource_def)
qed

theorem resource_over_link_witness:
  "\<exists>lid A B adv h A1 tx. make_link_resource demo lid [1, 2, 3] [1, 2, 3, 4] [5, 6, 7, 8] (replicate 16 7)
       (replicate 16 0) A = (Some (adv, h), A1) \<and>
     hm_get (out_resources A1) lid = Some tx \<and> rs_hash tx = h \<and>
     receives demo B adv lid CONTEXT_RESOURCE_ADV (advertisement tx)"
proof -
  obtain lid A B where l: "transport_ok demo A" "transport_ok demo B" "linked demo lid A B" using demo_linked by blast
  then obtain ol where ol: "hm_get (out_links A) lid = Some ol" by (auto simp: linked_def)
  then have "any_link_key A lid = Some (ol_key ol)" "length (ol_key ol) = 64" "length lid = 16"
    using linked_lengths [OF l(1) ol] by (simp_all add: any_link_key_def)
  then obtain adv h A1 where m: "make_link_resource demo lid [1, 2, 3] [1, 2, 3, 4] [5, 6, 7, 8] (replicate 16 7)
      (replicate 16 0) A = (Some (adv, h), A1)"
    using link_resource_made [OF l(1)] by blast
  from resource_over_link [OF demo_sized demo_aes l _ _ _ m, where iv' = "replicate 16 0" and iv'' = "replicate 16 0"
      and ordA = id and ephA = "[]" and ifA = Hub] m
  show ?thesis by simp blast
qed

text \<open>
  C21. Closing a link. When the responder closes a link we opened, the node forgets the link and the
  resource being served on it. When the initiator closes a link it opened to us, the node forgets
  the link only: a resource in flight on it stays in \<open>out_resources\<close>, on no link and
  unservable, although every other table is bounded against growth.\<close>

theorem link_close:
  assumes C: "sized C" "aes_inverts C" and n: "transport_ok C A" and lk: "linked C lid A B"
    and iv: "length iv = 16"
    and res: "hm_get (out_resources A) lid = Some txA" "hm_get (out_resources B) lid = Some txB"
    and raw: "make_out_link_context C A lid CONTEXT_LINKCLOSE lid iv = Some raw" "in_flight raw raw'"
  shows "(\<exists>A'. handle_frame C ordA ephA ifA raw' A = (OutLinkClosed lid, A') \<and>
      hm_get (out_links A') lid = None \<and> hm_get (out_resources A') lid = None) \<and>
    (\<exists>B'. handle_frame C ordB ephB ifB raw' B = (InLinkClosed lid, B') \<and>
      any_link_key B' lid = None \<and> hm_get (out_resources B') lid = Some txB \<and> serve_link_resource C B' lid req iv' = [])"
proof -
  obtain l st where l: "hm_get (out_links A) lid = Some l" and st: "hm_get (links B) lid = Some st"
      "ls_key st = ol_key l" "hm_get (out_links B) lid = None"
    using lk by (auto simp: linked_def)
  note ll = linked_lengths [OF n l]
  have r: "make_link_context_packet C lid (ls_key st) CONTEXT_LINKCLOSE lid iv = Inr raw"
    using raw(1) l st(2) by (auto simp: make_out_link_context_def ok_option_def split: sum.splits)
  obtain q where q: "packet_decode raw' = Inr q" "packet_type q = PACKET_DATA" "pkt_context q = CONTEXT_LINKCLOSE"
      "destination_hash q = lid" "link_decrypt C (ls_key st) (pkt_data q) = Inr lid"
      "handle_frame C ordB ephB ifB raw' B = the (on_in_link C ephB B q)"
    using context_packet_to_in_link [OF C st(1,3) _ iv ll(1) r raw(2)] st(2) ll(2) by metis
  have "handle_frame C ordA ephA ifA raw' A = (OutLinkClosed lid, remove_out_link lid A)"
    using q(1-5) l st(2) by (simp add: handle_frame_def handle_packet_def on_lrproof_def on_resource_proof_def
        on_packet_proof_def on_out_link_data_def Let_def)
  moreover have "handle_frame C ordB ephB ifB raw' B =
      (InLinkClosed lid, B\<lparr>links := hm_remove lid (links B), links_order := filter (\<lambda>k. k \<noteq> lid) (links_order B)\<rparr>)"
    using q(2-6) st(1) by (simp add: on_in_link_def on_in_link_close_def Let_def)
  ultimately show ?thesis
    using st(3) res(2) by (simp add: remove_out_link_def any_link_key_def serve_link_resource_def)
qed

theorem link_close_witness:
  "\<exists>lid A B raw A' B' tx. hm_get (out_resources A) lid = Some tx \<and> hm_get (out_resources B) lid = Some tx \<and>
     make_out_link_context demo A lid CONTEXT_LINKCLOSE lid (replicate 16 0) = Some raw \<and>
     handle_frame demo id [] Hub raw A = (OutLinkClosed lid, A') \<and> hm_get (out_resources A') lid = None \<and>
     handle_frame demo id [] Hub raw B = (InLinkClosed lid, B') \<and> hm_get (out_resources B') lid = Some tx"
proof -
  obtain lid A B where l: "transport_ok demo A" "transport_ok demo B" "linked demo lid A B" using demo_linked by blast
  then obtain ol where ol: "hm_get (out_links A) lid = Some ol" by (auto simp: linked_def)
  note len = linked_lengths [OF l(1) ol]
  obtain tx where tx: "demo_sender = Some tx" using demo_two_parts by blast
  let ?A = "A\<lparr>out_resources := [(lid, tx)]\<rparr>" and ?B = "B\<lparr>out_resources := [(lid, tx)]\<rparr>"
  have "sender_ok demo tx"
    using ResourceSender_new_sender_ok [OF tx [unfolded demo_sender_def] demo_sized] by simp
  then have "transport_ok demo ?A" using l(1) by (simp add: transport_ok_def hm_wf_def)
  moreover have "linked demo lid ?A ?B" using l(3) by (simp add: linked_def)
  moreover obtain raw where raw: "make_link_context_packet demo lid (ol_key ol) CONTEXT_LINKCLOSE lid (replicate 16 0) = Inr raw"
      "in_flight raw raw"
    using make_link_context_packet_64 [OF len(2,1)] by blast
  moreover have r: "make_out_link_context demo ?A lid CONTEXT_LINKCLOSE lid (replicate 16 0) = Some raw"
    using ol raw(1) by (simp add: make_out_link_context_def ok_option_def)
  ultimately obtain A' B' where "handle_frame demo id [] Hub raw ?A = (OutLinkClosed lid, A')" "hm_get (out_resources A') lid = None"
      "handle_frame demo id [] Hub raw ?B = (InLinkClosed lid, B')" "hm_get (out_resources B') lid = Some tx"
    using link_close [OF demo_sized demo_aes, of ?A lid ?B "replicate 16 0" tx tx raw raw id "[]" Hub id "[]" Hub "[]" "[]"] by auto
  moreover have "hm_get (out_resources ?A) lid = Some tx" "hm_get (out_resources ?B) lid = Some tx" by simp_all
  ultimately show ?thesis using r by blast
qed

section \<open>Properties: timers\<close>

lemma get_remove_all: "hm_get (foldl (\<lambda>m k. hm_remove k m) m ks) k = (if k \<in> set ks then None else hm_get m k)"
  by (induction ks arbitrary: m) auto

lemma remove_out_links: "out_links (foldl (\<lambda>t lid. remove_out_link lid t) t ks) = foldl (\<lambda>m k. hm_remove k m) (out_links t) ks"
  by (induction ks arbitrary: t) (simp_all add: remove_out_link_def)

lemma forget_pending_all:
  "pending_out (foldl (\<lambda>t lid. forget_pending_link lid t) t ks) = foldl (\<lambda>m k. hm_remove k m) (pending_out t) ks"
  by (induction ks arbitrary: t) (simp_all add: forget_pending_link_def)

lemma get_filter_keys:
  "hm_wf m \<Longrightarrow> k \<in> set (map fst (filter (\<lambda>(_, v). P v) m)) \<longleftrightarrow> (\<exists>v. hm_get m k = Some v \<and> P v)"
  by (force simp: hm_wf_def)

text \<open>The iteration order of a hash map visits every key.\<close>

definition visits_all :: "(bytes list \<Rightarrow> bytes list) \<Rightarrow> bool" where
  "visits_all ord \<longleftrightarrow> (\<forall>ks. set (ord ks) = set ks)"

lemma outbound_link_for_spec:
  assumes "hm_wf (out_links t)" "visits_all ord" "outbound_link_for ord target now t = (found, t')"
  shows "case found of
      Some lid \<Rightarrow> \<exists>l. hm_get (out_links t) lid = Some l \<and> ol_target l = target \<and>
        now \<le> sat_add64 (ol_last_activity l) 540 \<and> hm_get (out_links t') lid = Some (l\<lparr>ol_last_activity := now\<rparr>)
    | None \<Rightarrow> \<forall>lid l. hm_get (out_links t) lid = Some l \<and> ol_target l = target \<longrightarrow>
        sat_add64 (ol_last_activity l) 540 < now \<and> hm_get (out_links t') lid = None"
proof -
  let ?ks = "map fst (filter (\<lambda>(_, l). now > sat_add64 (ol_last_activity l) 540) (out_links t))"
  define u where "u = foldl (\<lambda>t lid. remove_out_link lid t) t ?ks"
  have u: "hm_get (out_links u) k = Some l \<longleftrightarrow>
      hm_get (out_links t) k = Some l \<and> now \<le> sat_add64 (ol_last_activity l) 540" for k l
    unfolding u_def remove_out_links get_remove_all get_filter_keys [OF assms(1)] by auto
  let ?P = "\<lambda>k. map_option ol_target (hm_get (out_links u) k) = Some target"
  have f: "found = find ?P (ord (map fst (out_links u)))" and t': "t' = (case found of None \<Rightarrow> u | Some k \<Rightarrow>
      (case hm_get (out_links u) k of Some l \<Rightarrow> u\<lparr>out_links := hm_insert k (l\<lparr>ol_last_activity := now\<rparr>) (out_links u)\<rparr>
       | None \<Rightarrow> u))"
    using assms(3) unfolding outbound_link_for_def Let_def OUT_LINK_INACTIVITY_SECS_def u_def [symmetric] by auto
  show ?thesis
  proof (cases found)
    case None
    have np: "\<not> ?P k" for k
    proof (cases "k \<in> set (ord (map fst (out_links u)))")
      case True
      have "find ?P (ord (map fst (out_links u))) = None" using f None by (simp only:)
      with True show ?thesis unfolding find_None_iff by blast
    next
      case False
      then have "k \<notin> hm_keys (out_links u)" using assms(2) by (simp add: visits_all_def)
      then have "hm_get (out_links u) k = None" by (simp only: hm_get_None not_False_eq_True)
      then show ?thesis by simp
    qed
    have tu: "t' = u" using t' None by simp
    have "sat_add64 (ol_last_activity l) 540 < now \<and> hm_get (out_links u) lid = None"
      if l: "hm_get (out_links t) lid = Some l" "ol_target l = target" for lid l
    proof -
      have "hm_get (out_links u) lid \<noteq> Some l'" for l' using np [of lid] u [of lid l'] l by auto
      then have "hm_get (out_links u) lid = None" by (meson option.exhaust)
      with u [of lid l] l show ?thesis by (simp add: not_le)
    qed
    then have "\<forall>lid l. hm_get (out_links t) lid = Some l \<and> ol_target l = target \<longrightarrow>
        sat_add64 (ol_last_activity l) 540 < now \<and> hm_get (out_links u) lid = None" by blast
    with None tu show ?thesis by simp
  next
    case (Some k)
    then have "find ?P (ord (map fst (out_links u))) = Some k" using f by (simp only:)
    then have "?P k" unfolding find_Some_iff by blast
    then obtain l where l: "hm_get (out_links u) k = Some l" "ol_target l = target" by auto
    with t' Some u [of k l] show ?thesis by simp
  qed
qed

lemma pending_link_to_spec:
  assumes "hm_wf (pending_out t)"
  shows "fst (pending_link_to target now t) \<longleftrightarrow> (\<exists>lid p. hm_get (pending_out t) lid = Some p \<and> po_target p = target \<and>
    now \<le> sat_add64 (po_created p) (po_expiry_secs p))"
proof -
  let ?ks = "map fst (filter (\<lambda>(_, p). now > sat_add64 (po_created p) (po_expiry_secs p)) (pending_out t))"
  let ?m = "foldl (\<lambda>m k. hm_remove k m) (pending_out t) ?ks"
  have m: "hm_get ?m k = Some p \<longleftrightarrow> hm_get (pending_out t) k = Some p \<and>
      now \<le> sat_add64 (po_created p) (po_expiry_secs p)" for k p
    unfolding get_remove_all get_filter_keys [OF assms] by auto
  have wf: "hm_wf ?m" by (rule foldl_keeps [where P = hm_wf]) (simp_all add: assms)
  have "fst (pending_link_to target now t) \<longleftrightarrow> (\<exists>k p. hm_get ?m k = Some p \<and> po_target p = target)"
    using wf by (auto simp: pending_link_to_eq Let_def forget_pending_all list_ex_iff hm_wf_def split: prod.splits)
  then show ?thesis using m by blast
qed

text \<open>
  C20. Link timers. A request to a destination \<open>h\<close> hops away (1 when unknown) is given exactly the
  reference's first-hop timeout of 6 s plus 6 s per hop, and counts as pending until then.
  \<open>outbound_link_for\<close> returns only a link to the target that was used within the last 540 s, which it
  marks as used now; it returns none exactly when every link to the target has been idle for
  longer, and forgets those.\<close>

theorem link_timers:
  assumes "transport_ok C t" "visits_all ord" "outbound_link_for ord target now t = (found, t')"
  shows "pending_expiry_secs t target = 6 + 6 * max 1 (case path_hops t target of Some h \<Rightarrow> unat h | None \<Rightarrow> 1) \<and>
    fst (pending_link_to target now t) =
      (\<exists>lid p. hm_get (pending_out t) lid = Some p \<and> po_target p = target \<and>
         now \<le> sat_add64 (po_created p) (po_expiry_secs p)) \<and>
    (case found of
       Some lid \<Rightarrow> \<exists>l. hm_get (out_links t) lid = Some l \<and> ol_target l = target \<and>
         now \<le> sat_add64 (ol_last_activity l) 540 \<and> hm_get (out_links t') lid = Some (l\<lparr>ol_last_activity := now\<rparr>)
     | None \<Rightarrow> \<forall>lid l. hm_get (out_links t) lid = Some l \<and> ol_target l = target \<longrightarrow>
         sat_add64 (ol_last_activity l) 540 < now \<and> hm_get (out_links t') lid = None)"
proof (intro conjI)
  have wf: "hm_wf (pending_out t)" "hm_wf (out_links t)"
    using tables_ok(2,4) [OF assms(1)] by (simp_all add: table_ok_def)
  have "unat (max h 1) = max (unat h) 1" for h :: u8
    by (simp add: max_def word_le_nat_alt)
  then show "pending_expiry_secs t target = 6 + 6 * max 1 (case path_hops t target of Some h \<Rightarrow> unat h | None \<Rightarrow> 1)"
    by (auto simp: pending_expiry_secs_def Let_def max_def split: option.splits)
  show "fst (pending_link_to target now t) =
      (\<exists>lid p. hm_get (pending_out t) lid = Some p \<and> po_target p = target \<and>
         now \<le> sat_add64 (po_created p) (po_expiry_secs p))"
    by (rule pending_link_to_spec [OF wf(1)])
  show "case found of
       Some lid \<Rightarrow> \<exists>l. hm_get (out_links t) lid = Some l \<and> ol_target l = target \<and>
         now \<le> sat_add64 (ol_last_activity l) 540 \<and> hm_get (out_links t') lid = Some (l\<lparr>ol_last_activity := now\<rparr>)
     | None \<Rightarrow> \<forall>lid l. hm_get (out_links t) lid = Some l \<and> ol_target l = target \<longrightarrow>
         sat_add64 (ol_last_activity l) 540 < now \<and> hm_get (out_links t') lid = None"
    by (rule outbound_link_for_spec [OF wf(2) assms(2,3)])
qed

theorem link_timers_witness:
  "\<exists>t'. outbound_link_for id (replicate 16 5) 100 (demo_node 1) = (None, t') \<and>
     pending_expiry_secs (demo_node 1) (replicate 16 5) = 12"
proof -
  have t: "outbound_link_for id (replicate 16 5) 100 (demo_node 1) = (None, demo_node 1)"
    by (simp add: outbound_link_for_def Let_def)
  with link_timers [OF node_ok [OF demo_sized demo_node], of id "replicate 16 5" 100 1 None "demo_node 1"]
  show ?thesis by (simp add: visits_all_def path_hops_def)
qed

section \<open>Properties: retransmissions\<close>

lemma LinkEstablished_cases:
  assumes "handle_packet C ord eph iface t p = (LinkEstablished lid pr, t')"
  shows "on_in_link C eph t p = None \<and> packet_type p = PACKET_LINKREQUEST \<and>
    destination_hash p \<in> set (our_dests t) \<and> on_link_request C eph t p = (LinkEstablished lid pr, t')"
proof -
  have no: "on_lrproof C t p \<noteq> Some (LinkEstablished lid pr, t')" "on_resource_proof t p \<noteq> Some (LinkEstablished lid pr, t')"
    "on_packet_proof C ord t p \<noteq> Some (LinkEstablished lid pr, t')" "on_out_link_data C t p \<noteq> Some (LinkEstablished lid pr, t')"
    "on_opp_proof C t p \<noteq> Some (LinkEstablished lid pr, t')"
    by (auto simp: on_lrproof_def on_resource_proof_def on_packet_proof_def on_out_link_data_def on_opp_proof_def Let_def
        split: option.splits sum.splits if_splits)
  have "on_in_link C eph t p \<noteq> Some (LinkEstablished lid pr, t')"
    by (auto simp: on_in_link_def on_in_link_identify_def on_in_link_keepalive_def on_in_link_close_def Let_def
        split: option.splits sum.splits if_splits)
  with no assms have "on_in_link C eph t p = None" "on_other C eph iface t p = (LinkEstablished lid pr, t')"
    unfolding handle_packet_def
    by (cases "on_lrproof C t p"; cases "on_resource_proof t p"; cases "on_packet_proof C ord t p";
        cases "on_out_link_data C t p"; cases "on_opp_proof C t p"; cases "on_in_link C eph t p"; simp)+
  then show ?thesis
    by (auto simp: on_other_def on_announce_def on_path_request_def on_opportunistic_def Let_def
        split: if_splits option.splits sum.splits)
qed

lemma on_link_request_repeat:
  assumes "sized C" "transport_ok C t" "on_link_request C eph t p = (LinkEstablished lid pr, t')" "link_id C q = link_id C p"
  shows "on_link_request C eph' t' q = (LinkEstablished lid pr, t') \<and> lid = link_id C p \<and> our_dests t' = our_dests t \<and>
    (\<forall>k. k \<noteq> lid \<longrightarrow> hm_get (links t) k = None \<longrightarrow> hm_get (links t') k = None)"
proof (cases "hm_get (links t) (link_id C p)")
  case (Some st)
  then show ?thesis using assms(3,4) by (simp add: on_link_request_def link_id_of_def)
next
  case None
  then obtain est where est: "accept_request C p (tr_identity t) eph = Some est" "lid = el_link_id est" "pr = proof_packet est"
      "t' = insert_link lid \<lparr>ls_key = derived_key est, ls_proof = pr, ls_peer_sig_pub = peer_sig_pub est,
         ls_peer_identity = None\<rparr> t"
    using assms(3) by (auto simp: on_link_request_def link_id_of_def Let_def split: option.splits)
  have lid: "lid = link_id C p" using accept_requestD(1) [OF est(1) assms(1)] est(2) by simp
  note tab = tables_ok(1) [OF assms(2)]
  have "hm_get (links t') lid = Some \<lparr>ls_key = derived_key est, ls_proof = pr, ls_peer_sig_pub = peer_sig_pub est,
         ls_peer_identity = None\<rparr>"
    unfolding est(4) by (rule link_table.get_ins [OF tab])
  moreover have "hm_get (links t') k = None" if "k \<noteq> lid" "hm_get (links t) k = None" for k
    using link_table.get_other [OF tab that(1)] that(2) unfolding est(4) by simp
  moreover have "our_dests t' = our_dests t" by (simp add: est(4) insert_link_def split_beta)
  ultimately show ?thesis using lid assms(4) by (simp add: on_link_request_def link_id_of_def)
qed

text \<open>
  C19. A retransmitted link request changes nothing. If a request made a node report a link as established,
  the same request again, under any header, any new random value and on any interface, is answered
  with the same proof, and the node's state, with the session key the initiator has locked in, is as before.\<close>

theorem link_request_idempotent:
  assumes "sized C" "transport_ok C t" "handle_frame C ord eph iface raw t = (LinkEstablished lid pr, t')"
    and "in_flight raw raw'" "packet_decode raw = Inr p" "destination_hash p \<noteq> lid"
  shows "handle_frame C ord' eph' iface' raw' t' = (LinkEstablished lid pr, t')"
proof -
  have h: "handle_packet C ord eph iface t p = (LinkEstablished lid pr, t')"
    using assms(3,5) by (simp add: handle_frame_def)
  obtain q where q: "packet_decode raw' = Inr q" "relayed p q" using assms(4,5) by (auto simp: in_flight_def)
  note c = LinkEstablished_cases [OF h]
  have rep: "on_link_request C eph' t' q = (LinkEstablished lid pr, t')" "our_dests t' = our_dests t"
      "\<forall>k. k \<noteq> lid \<longrightarrow> hm_get (links t) k = None \<longrightarrow> hm_get (links t') k = None"
    using on_link_request_repeat [OF assms(1,2), of eph p lid pr t' q eph'] c relayed_link_id [OF q(2)] by blast+
  have "hm_get (links t) (destination_hash p) = None"
    using c by (auto simp: on_in_link_def Let_def split: option.splits)
  then have "hm_get (links t') (destination_hash p) = None" using rep(3) assms(6) by blast
  then show ?thesis
    using c rep(1,2) q(2) by (simp add: handle_frame_def q(1) handle_packet_def case_defs on_other_def relayed_def)
qed

theorem link_request_idempotent_witness:
  "\<exists>raw lid pr t'. handle_frame demo id (replicate 32 7) Hub raw (demo_node 5) = (LinkEstablished lid pr, t') \<and>
     handle_frame demo id (replicate 32 9) Auto raw t' = (LinkEstablished lid pr, t')"
proof -
  let ?p = "request_packet demo (replicate 16 5) (replicate 32 2) (replicate 32 3)"
  have ok: "packet_ok ?p" by (rule request_packet_ok) simp
  have d: "packet_decode (wire ?p) = Inr ?p" using ok by (rule packet_decode_wire)
  have "\<exists>l. accept_request demo ?p (demo_identity 5) (replicate 32 7) = Some l"
    using demo_sized by (simp add: accept_request_def Let_def request_packet_def lens)
  then obtain l where l: "accept_request demo ?p (demo_identity 5) (replicate 32 7) = Some l" by blast
  have t: "transport_ok demo (demo_node 5)" by (rule node_ok [OF demo_sized demo_node])
  have sel: "packet_type ?p = PACKET_LINKREQUEST" "destination_hash ?p = replicate 16 5" by (simp_all add: request_packet_def)
  have "\<exists>t'. on_link_request demo (replicate 32 7) (demo_node 5) ?p = (LinkEstablished (el_link_id l) (proof_packet l), t')"
    using l by (simp add: on_link_request_def Let_def)
  then obtain t' where h: "handle_frame demo id (replicate 32 7) Hub (wire ?p) (demo_node 5) =
      (LinkEstablished (el_link_id l) (proof_packet l), t')"
    using sel by (auto simp: handle_frame_def d handle_packet_def case_defs on_other_def)
  have "replicate 16 5 \<noteq> el_link_id l"
    using accept_requestD(1) [OF l demo_sized] by code_simp auto
  with link_request_idempotent [OF demo_sized t h in_flight_refl [OF ok] d, of id "replicate 32 9" Auto] sel(2) h
  show ?thesis by metis
qed

end
