(* ===== verification/Field25519.thy ===== *)
theory Field25519
  imports Prelude
begin

text \<open>
  Arithmetic modulo \<open>2 ^ 255 - 19\<close> as \<open>libs/reticulum-core/src/x25519.rs\<close> does it: sixteen
  signed 64-bit limbs of radix \<open>2 ^ 16\<close>, reduced lazily. An \<open>i64\<close> is an integer, and every
  operation of the source that could overflow is followed by \<open>wrap64\<close>, the two's complement
  wrap-around of the release build. The theory shows that within the bounds the code keeps nothing
  ever wraps, and that each routine computes what it means modulo the prime.
\<close>

section \<open>The code\<close>

type_synonym Gf = "int list"

definition wrap64 :: "int \<Rightarrow> int" where
  "wrap64 x = (x + 2 ^ 63) mod 2 ^ 64 - 2 ^ 63"

definition GF_121665 :: Gf where
  "GF_121665 = [0xDB41, 1, 0, 0, 0, 0, 0, 0, 0, 0, 0, 0, 0, 0, 0, 0]"

definition car_step :: "nat \<Rightarrow> Gf \<Rightarrow> Gf" where
  "car_step i gf =
     (let gf = gf[i := wrap64 (gf ! i + 2 ^ 16)];
          c = gf ! i div 2 ^ 16;
          idx = (if i < 15 then i + 1 else 0);
          gf = gf[idx := wrap64 (gf ! idx +
                 (if i = 15 then wrap64 (38 * wrap64 (c - 1)) else wrap64 (c - 1)))]
      in gf[i := wrap64 (gf ! i - wrap64 (c * 2 ^ 16))])"

definition car25519 :: "Gf \<Rightarrow> Gf" where
  "car25519 gf = fold car_step [0..<16] gf"

definition sel25519 :: "Gf \<Rightarrow> Gf \<Rightarrow> int \<Rightarrow> Gf \<times> Gf" where
  "sel25519 p q b =
     (let c = NOT (wrap64 (b - 1));
          t = map (\<lambda>i. c AND (p ! i XOR q ! i)) [0..<16]
      in (map (\<lambda>i. p ! i XOR t ! i) [0..<16], map (\<lambda>i. q ! i XOR t ! i) [0..<16]))"

definition gf_add :: "Gf \<Rightarrow> Gf \<Rightarrow> Gf" where
  "gf_add a b = map (\<lambda>i. wrap64 (a ! i + b ! i)) [0..<16]"

definition gf_sub :: "Gf \<Rightarrow> Gf \<Rightarrow> Gf" where
  "gf_sub a b = map (\<lambda>i. wrap64 (a ! i - b ! i)) [0..<16]"

text \<open>The two nested loops of \<open>mul\<close>, then the fold of the upper half by 38.\<close>

definition mul_acc :: "Gf \<Rightarrow> Gf \<Rightarrow> nat \<times> nat \<Rightarrow> int list \<Rightarrow> int list" where
  "mul_acc a b = (\<lambda>(i, j) t. t[i + j := wrap64 (t ! (i + j) + wrap64 (a ! i * b ! j))])"

definition mul_fold :: "nat \<Rightarrow> int list \<Rightarrow> int list" where
  "mul_fold i t = t[i := wrap64 (t ! i + wrap64 (38 * t ! (i + 16)))]"

definition gf_mul :: "Gf \<Rightarrow> Gf \<Rightarrow> Gf" where
  "gf_mul a b =
     (let t = fold (mul_acc a b) (List.product [0..<16] [0..<16]) (replicate 31 0);
          t = fold mul_fold [0..<15] t
      in car25519 (car25519 (take 16 t)))"

definition gf_sqr :: "Gf \<Rightarrow> Gf" where
  "gf_sqr a = gf_mul a a"

definition inv_step :: "Gf \<Rightarrow> nat \<Rightarrow> Gf \<Rightarrow> Gf" where
  "inv_step z a c = (let c = gf_sqr c in if a \<noteq> 2 \<and> a \<noteq> 4 then gf_mul c z else c)"

definition inv25519 :: "Gf \<Rightarrow> Gf" where
  "inv25519 z = fold (inv_step z) (rev [0..<254]) z"

definition unpack25519 :: "bytes \<Rightarrow> Gf" where
  "unpack25519 n =
     (let gf = map (\<lambda>i. uint (n ! (2 * i)) + uint (n ! (2 * i + 1)) * 2 ^ 8) [0..<16]
      in gf[15 := gf ! 15 AND 0x7fff])"

text \<open>One pass of the loop of \<open>pack25519\<close>: subtract the prime, keep the difference unless it borrowed.\<close>

definition borrow :: "int \<Rightarrow> int" where
  "borrow x = (x div 2 ^ 16) AND 1"

definition pack_sub :: "Gf \<Rightarrow> nat \<Rightarrow> Gf \<Rightarrow> Gf" where
  "pack_sub t i m =
     (let m = m[i := wrap64 (wrap64 (t ! i - 0xffff) - borrow (m ! (i - 1)))]
      in m[i - 1 := m ! (i - 1) AND 0xffff])"

definition pack_round :: "Gf \<Rightarrow> Gf" where
  "pack_round t =
     (let m = (replicate 16 0)[0 := wrap64 (t ! 0 - 0xffed)];
          m = fold (pack_sub t) [1..<15] m;
          m = m[15 := wrap64 (wrap64 (t ! 15 - 0x7fff) - borrow (m ! 14))];
          b = borrow (m ! 15);
          m = m[14 := m ! 14 AND 0xffff]
      in fst (sel25519 t m (wrap64 (1 - b))))"

definition pack25519 :: "Gf \<Rightarrow> bytes" where
  "pack25519 n =
     (let t = car25519 (car25519 (car25519 n));
          t = pack_round (pack_round t)
      in concat (map (\<lambda>i. [word_of_int (t ! i AND 0xff), word_of_int (t ! i div 2 ^ 8)]) [0..<16]))"

section \<open>What a limb list stands for\<close>

definition p25519 :: int where
  "p25519 = 2 ^ 255 - 19"

fun gval :: "int list \<Rightarrow> int" where
  "gval [] = 0"
| "gval (x # xs) = x + 2 ^ 16 * gval xs"

definition gf_bound :: "int \<Rightarrow> Gf \<Rightarrow> bool" where
  "gf_bound B a \<longleftrightarrow> length a = 16 \<and> (\<forall>x\<in>set a. \<bar>x\<bar> \<le> B)"

lemma wrap64_id: "- (2 ^ 63) \<le> x \<Longrightarrow> x < 2 ^ 63 \<Longrightarrow> wrap64 x = x"
  by (simp add: wrap64_def)

lemma wrap64_abs: "\<bar>x\<bar> < 2 ^ 63 \<Longrightarrow> wrap64 x = x"
  by (rule wrap64_id) auto

lemma wrap64_add_left [simp]: "wrap64 (wrap64 x + y) = wrap64 (x + y)"
proof -
  have "((x + 2 ^ 63) mod 2 ^ 64 - 2 ^ 63 + y + 2 ^ 63) mod 2 ^ 64 = (x + y + 2 ^ 63) mod (2 ^ 64 :: int)"
    using mod_add_left_eq [of "x + 2 ^ 63" "2 ^ 64" y] by (simp add: algebra_simps)
  then show ?thesis by (simp add: wrap64_def)
qed

lemma wrap64_add_right [simp]: "wrap64 (x + wrap64 y) = wrap64 (x + y)"
  using wrap64_add_left [of y x] by (simp add: add.commute)

lemma gval_append: "gval (xs @ ys) = gval xs + 2 ^ (16 * length xs) * gval ys"
  by (induction xs) (simp_all add: algebra_simps power_add)

lemma gval_sum: "gval xs = (\<Sum>i<length xs. xs ! i * 2 ^ (16 * i))"
proof (induction xs)
  case (Cons x xs)
  have "(\<Sum>i<length (x # xs). (x # xs) ! i * 2 ^ (16 * i)) = x + (\<Sum>i<length xs. xs ! i * 2 ^ (16 * Suc i))"
    by (simp add: sum.lessThan_Suc_shift del: sum.lessThan_Suc)
  also have "\<dots> = x + 2 ^ 16 * (\<Sum>i<length xs. xs ! i * 2 ^ (16 * i))"
    by (simp add: sum_distrib_left power_add algebra_simps)
  finally show ?case using Cons.IH by simp
qed simp

lemma gval_map_upt: "gval (map f [0..<n]) = (\<Sum>i<n. f i * 2 ^ (16 * i))"
  by (simp add: gval_sum)

section \<open>Carrying\<close>

text \<open>The reference: one pass of carries from the low limb up, returning the carry out.\<close>

fun carry_pass :: "int \<Rightarrow> int list \<Rightarrow> int list \<times> int" where
  "carry_pass c [] = ([], c)"
| "carry_pass c (x # xs) =
     (let (ys, d) = carry_pass ((x + c) div 2 ^ 16) xs in ((x + c) mod 2 ^ 16 # ys, d))"

lemma carry_snoc:
  "carry_pass c (xs @ [x]) = (let (ys, d) = carry_pass c xs in (ys @ [(x + d) mod 2 ^ 16], (x + d) div 2 ^ 16))"
  by (induction xs arbitrary: c) (auto simp: Let_def split: prod.splits)

lemma carry_val: "carry_pass c xs = (ys, d) \<Longrightarrow> gval ys + 2 ^ (16 * length xs) * d = gval xs + c"
proof (induction xs arbitrary: c ys)
  case (Cons x xs)
  obtain zs where z: "carry_pass ((x + c) div 2 ^ 16) xs = (zs, d)" "ys = (x + c) mod 2 ^ 16 # zs"
    using Cons.prems by (auto simp: Let_def split: prod.splits)
  have "gval ys + 2 ^ (16 * length (x # xs)) * d = (x + c) mod 2 ^ 16 + 2 ^ 16 * (gval zs + 2 ^ (16 * length xs) * d)"
    by (simp add: z(2) power_add algebra_simps)
  also have "\<dots> = (x + c) mod 2 ^ 16 + 2 ^ 16 * ((x + c) div 2 ^ 16) + 2 ^ 16 * gval xs"
    unfolding Cons.IH [OF z(1)] by (simp only: algebra_simps)
  also have "\<dots> = gval (x # xs) + c" by (simp only: mod_mult_div_eq gval.simps)
  finally show ?case .
qed simp

lemma carry_digits: "carry_pass c xs = (ys, d) \<Longrightarrow> length ys = length xs \<and> (\<forall>y\<in>set ys. 0 \<le> y \<and> y < 2 ^ 16)"
  by (induction xs arbitrary: c ys) (auto simp: Let_def split: prod.splits)

lemma div_bound:
  fixes y K :: int
  assumes "\<bar>y\<bar> \<le> 2 ^ 16 * K"
  shows "\<bar>y div 2 ^ 16\<bar> \<le> K"
proof -
  have "y div 2 ^ 16 \<le> (2 ^ 16 * K) div 2 ^ 16" using assms by (intro zdiv_mono1) auto
  moreover have "(2 ^ 16 * (- K)) div 2 ^ 16 \<le> y div 2 ^ 16" using assms by (intro zdiv_mono1) auto
  ultimately show ?thesis by (simp only: nonzero_mult_div_cancel_left power_not_zero zero_neq_numeral abs_le_iff) simp
qed

lemma carry_bound:
  assumes "\<forall>x\<in>set xs. \<bar>x\<bar> \<le> M" "\<bar>c\<bar> \<le> K" "M + K \<le> 2 ^ 16 * K"
  shows "\<bar>snd (carry_pass c xs)\<bar> \<le> K"
  using assms(1,2)
proof (induction xs arbitrary: c)
  case (Cons x xs)
  have "\<bar>(x + c) div 2 ^ 16\<bar> \<le> K" using Cons.prems assms(3) by (intro div_bound) auto
  from Cons.IH [OF _ this] Cons.prems(1) show ?case by (simp add: Let_def split_beta)
qed simp

lemma car_step_low:
  assumes "i < 15" "length gf = 16" "\<bar>gf ! i\<bar> < 2 ^ 62 + 2 ^ 61" "\<bar>gf ! (i + 1)\<bar> \<le> 2 ^ 62"
  shows "car_step i gf = gf[i := gf ! i mod 2 ^ 16, i + 1 := gf ! (i + 1) + gf ! i div 2 ^ 16]"
proof -
  let ?y = "gf ! i"
  have c: "(?y + 2 ^ 16) div 2 ^ 16 = ?y div 2 ^ 16 + 1" by simp
  have d: "\<bar>?y div 2 ^ 16\<bar> \<le> 3 * 2 ^ 45" using assms(3) by (intro div_bound) simp
  have w: "wrap64 (?y + 2 ^ 16) = ?y + 2 ^ 16" using assms(3) by (intro wrap64_abs) auto
  have "wrap64 (gf ! (i + 1) + ?y div 2 ^ 16) = gf ! (i + 1) + ?y div 2 ^ 16"
    using assms(4) d by (intro wrap64_abs) auto
  moreover have "wrap64 (?y div 2 ^ 16 + 1 - 1) = ?y div 2 ^ 16" using d by (simp add: wrap64_abs)
  moreover have "wrap64 ((?y div 2 ^ 16 + 1) * 2 ^ 16) = (?y div 2 ^ 16 + 1) * 2 ^ 16"
    using d by (intro wrap64_abs) auto
  moreover have m: "?y + 2 ^ 16 - (?y div 2 ^ 16 + 1) * 2 ^ 16 = ?y mod 2 ^ 16"
    by (simp add: minus_div_mult_eq_mod [symmetric] algebra_simps)
  moreover have "wrap64 (?y mod 2 ^ 16) = ?y mod 2 ^ 16" by (intro wrap64_id) auto
  ultimately show ?thesis
    using assms(1,2) w c unfolding car_step_def Let_def
    by (simp add: list_update_swap [of i "i + 1"] del: list_update_overwrite) (simp add: list_update_swap)
qed

lemma car_step_high:
  assumes "length gf = 16" "\<bar>gf ! 15\<bar> < 2 ^ 62 + 2 ^ 61" "\<bar>gf ! 0\<bar> \<le> 2 ^ 62"
  shows "car_step 15 gf = gf[0 := gf ! 0 + 38 * (gf ! 15 div 2 ^ 16), 15 := gf ! 15 mod 2 ^ 16]"
proof -
  let ?y = "gf ! 15"
  have c: "(?y + 2 ^ 16) div 2 ^ 16 = ?y div 2 ^ 16 + 1" by simp
  have d: "\<bar>?y div 2 ^ 16\<bar> \<le> 3 * 2 ^ 45" using assms(2) by (intro div_bound) simp
  have w: "wrap64 (?y + 2 ^ 16) = ?y + 2 ^ 16" using assms(2) by (intro wrap64_abs) auto
  have "wrap64 (gf ! 0 + 38 * (?y div 2 ^ 16)) = gf ! 0 + 38 * (?y div 2 ^ 16)"
    using assms(3) d by (intro wrap64_abs) auto
  moreover have "wrap64 (?y div 2 ^ 16 + 1 - 1) = ?y div 2 ^ 16" "wrap64 (38 * (?y div 2 ^ 16)) = 38 * (?y div 2 ^ 16)"
    using d by (simp_all add: wrap64_abs)
  moreover have "wrap64 ((?y div 2 ^ 16 + 1) * 2 ^ 16) = (?y div 2 ^ 16 + 1) * 2 ^ 16"
    using d by (intro wrap64_abs) auto
  moreover have m: "?y + 2 ^ 16 - (?y div 2 ^ 16 + 1) * 2 ^ 16 = ?y mod 2 ^ 16"
    by (simp add: minus_div_mult_eq_mod [symmetric] algebra_simps)
  moreover have "wrap64 (?y mod 2 ^ 16) = ?y mod 2 ^ 16" by (intro wrap64_id) auto
  ultimately show ?thesis
    using assms(1) w c unfolding car_step_def Let_def
    by (simp add: list_update_swap [of 15 0] del: list_update_overwrite) (simp add: list_update_swap)
qed

lemma fold_car_step:
  assumes "gf_bound (2 ^ 62) gf" "k \<le> 15"
  shows "fold car_step [0..<k] gf =
    (let (ys, d) = carry_pass 0 (take k gf) in ys @ (gf ! k + d) # drop (k + 1) gf)"
  using assms(2)
proof (induction k)
  case 0
  then show ?case using assms(1) by (cases gf) (auto simp: gf_bound_def)
next
  case (Suc k)
  obtain ys d where yd: "carry_pass 0 (take k gf) = (ys, d)" by fastforce
  have len: "length gf = 16" "length ys = k" using assms(1) carry_digits [OF yd] Suc.prems by (auto simp: gf_bound_def)
  have "\<bar>x\<bar> \<le> 2 ^ 62" if "x \<in> set gf" for x using assms(1) that by (simp add: gf_bound_def)
  then have b: "\<forall>x\<in>set (take k gf). \<bar>x\<bar> \<le> 2 ^ 62" "\<bar>gf ! k\<bar> \<le> 2 ^ 62" "\<bar>gf ! (k + 1)\<bar> \<le> 2 ^ 62"
    using len Suc.prems by (auto dest: in_set_takeD)
  have d: "\<bar>d\<bar> \<le> 2 ^ 47" using carry_bound [OF b(1), of 0 "2 ^ 47"] yd by simp
  let ?g = "ys @ (gf ! k + d) # drop (k + 1) gf"
  have g: "?g ! k = gf ! k + d" "?g ! (k + 1) = gf ! (k + 1)" "length ?g = 16"
    using len Suc.prems by (simp_all add: nth_append)
  have "fold car_step [0..<Suc k] gf = car_step k ?g" using Suc yd by simp
  also have "\<dots> = ?g[k := (gf ! k + d) mod 2 ^ 16, k + 1 := gf ! (k + 1) + (gf ! k + d) div 2 ^ 16]"
    using car_step_low [of k ?g] g b(2,3) d Suc.prems by simp
  also have "\<dots> = (ys @ [(gf ! k + d) mod 2 ^ 16]) @ (gf ! Suc k + (gf ! k + d) div 2 ^ 16) # drop (Suc k + 1) gf"
    using len Suc.prems by (simp add: list_update_append Cons_nth_drop_Suc [of "Suc k", symmetric])
  finally show ?case
    using carry_snoc [of 0 "take k gf" "gf ! k"] yd len Suc.prems
    by (simp add: take_Suc_conv_app_nth)
qed

text \<open>\<open>car25519\<close> is one carry pass whose carry out, worth \<open>2 ^ 256\<close>, returns to the low limb as 38.\<close>

lemma car25519_carry:
  assumes "gf_bound (2 ^ 62) gf" "carry_pass 0 gf = (ys, d)"
  shows "car25519 gf = ys[0 := ys ! 0 + 38 * d]"
proof -
  obtain zs c where zc: "carry_pass 0 (take 15 gf) = (zs, c)" by fastforce
  have len: "length gf = 16" "length zs = 15" using assms(1) carry_digits [OF zc] by (auto simp: gf_bound_def)
  have gf: "gf = take 15 gf @ [gf ! 15]"
    using len take_Suc_conv_app_nth [of 15 gf] by simp
  have yd: "ys = zs @ [(gf ! 15 + c) mod 2 ^ 16]" "d = (gf ! 15 + c) div 2 ^ 16"
    using carry_snoc [of 0 "take 15 gf" "gf ! 15"] zc assms(2) gf by (metis (no_types, lifting) case_prod_conv prod.inject)+
  have "\<bar>x\<bar> \<le> 2 ^ 62" if "x \<in> set gf" for x using assms(1) that by (simp add: gf_bound_def)
  then have b: "\<forall>x\<in>set (take 15 gf). \<bar>x\<bar> \<le> 2 ^ 62" "\<bar>gf ! 15\<bar> \<le> 2 ^ 62" using len by (auto dest: in_set_takeD)
  have c: "\<bar>c\<bar> \<le> 2 ^ 47" using carry_bound [OF b(1), of 0 "2 ^ 47"] zc by simp
  have "zs ! 0 \<in> set zs" using len by simp
  then have z0: "\<bar>zs ! 0\<bar> \<le> 2 ^ 62" using carry_digits [OF zc] by fastforce
  let ?g = "zs @ [gf ! 15 + c]"
  have "fold car_step [0..<15] gf = ?g" using fold_car_step [OF assms(1), of 15] zc len by simp
  moreover have "[0..<16] = [0..<15] @ [15]" by (simp add: upt_rec)
  ultimately have "car25519 gf = car_step 15 ?g" unfolding car25519_def by simp
  also have "\<dots> = ?g[0 := ?g ! 0 + 38 * (?g ! 15 div 2 ^ 16), 15 := ?g ! 15 mod 2 ^ 16]"
    using len c b(2) z0 by (intro car_step_high) (auto simp: nth_append)
  also have "\<dots> = ys[0 := ys ! 0 + 38 * d]"
    using len by (simp add: yd nth_append list_update_append)
  finally show ?thesis .
qed

definition digits :: "int list \<Rightarrow> bool" where
  "digits ys \<longleftrightarrow> (\<forall>y\<in>set ys. 0 \<le> y \<and> y < 2 ^ 16)"

text \<open>A product's limbs: proper digits but for a small excess, of either sign, in the lowest.\<close>

definition gf_red :: "Gf \<Rightarrow> bool" where
  "gf_red gf \<longleftrightarrow> (\<exists>x ys. gf = x # ys \<and> length ys = 15 \<and> digits ys \<and> - 38 \<le> x \<and> x \<le> 2 ^ 16 + 37)"

lemma gf_bound_mono: "gf_bound M a \<Longrightarrow> M \<le> N \<Longrightarrow> gf_bound N a"
  by (auto simp: gf_bound_def)

lemma gf_red_bound: "gf_red gf \<Longrightarrow> gf_bound (2 ^ 17) gf"
  by (force simp: gf_red_def gf_bound_def digits_def)

lemma car_val:
  assumes "gf_bound (2 ^ 62) gf"
  shows "gval (car25519 gf) mod p25519 = gval gf mod p25519"
proof -
  obtain ys d where yd: "carry_pass 0 gf = (ys, d)" by fastforce
  have len: "length gf = 16" "length ys = 16" using assms carry_digits [OF yd] by (auto simp: gf_bound_def)
  then obtain y zs where ys: "ys = y # zs" by (cases ys) auto
  have "gval (car25519 gf) = gval ys + 38 * d"
    using car25519_carry [OF assms yd] by (simp add: ys)
  also have "\<dots> = gval gf + (- 2 * d) * p25519"
    using carry_val [OF yd] len by (simp add: p25519_def algebra_simps)
  finally show ?thesis by (simp only: mod_mult_self1)
qed

lemma car_shape:
  assumes "gf_bound M gf" "M \<le> 2 ^ 62" "0 \<le> K" "M + K \<le> 2 ^ 16 * K"
  shows "\<exists>x ys. car25519 gf = x # ys \<and> length ys = 15 \<and> digits ys \<and> \<bar>x\<bar> \<le> 2 ^ 16 + 38 * K"
proof -
  obtain ys d where yd: "carry_pass 0 gf = (ys, d)" by fastforce
  note dg = carry_digits [OF yd]
  have len: "length ys = 16" using assms(1) dg by (simp add: gf_bound_def)
  then obtain y zs where ys: "ys = y # zs" by (cases ys) auto
  have "\<bar>d\<bar> \<le> K" using carry_bound [of gf M 0 K] assms yd by (simp add: gf_bound_def)
  then have "\<bar>y + 38 * d\<bar> \<le> 2 ^ 16 + 38 * K" using dg by (auto simp: ys)
  with car25519_carry [OF gf_bound_mono [OF assms(1,2)] yd] len dg show ?thesis
    by (simp add: ys digits_def)
qed

lemma digit_step:
  fixes y c K :: int
  assumes "0 \<le> y" "y < 2 ^ 16" "\<bar>c\<bar> \<le> 2 ^ 16 * K"
  shows "\<bar>(y + c) div 2 ^ 16\<bar> \<le> K"
proof -
  have "(y + c) div 2 ^ 16 \<le> (K * 2 ^ 16 + (2 ^ 16 - 1)) div 2 ^ 16" using assms by (intro zdiv_mono1) auto
  moreover have "(- K * 2 ^ 16) div 2 ^ 16 \<le> (y + c) div 2 ^ 16" using assms by (intro zdiv_mono1) auto
  ultimately show ?thesis by (simp add: abs_le_iff)
qed

lemma carry_settles:
  assumes "digits ys" "\<bar>c\<bar> \<le> 2 ^ 48" "3 \<le> length ys"
  shows "\<bar>snd (carry_pass c ys)\<bar> \<le> 1"
proof -
  have one: "\<bar>snd (carry_pass c ys)\<bar> \<le> 1" if "digits ys" "\<bar>c\<bar> \<le> 1" for c ys
    using carry_bound [of ys "2 ^ 16 - 1" c 1] that by (force simp: digits_def)
  obtain a b d zs where ys: "ys = a # b # d # zs"
    using assms(3) by (cases ys; cases "tl ys"; cases "tl (tl ys)") auto
  have dg: "0 \<le> a" "a < 2 ^ 16" "0 \<le> b" "b < 2 ^ 16" "0 \<le> d" "d < 2 ^ 16" "digits zs"
    using assms(1) by (auto simp: ys digits_def)
  have "\<bar>(a + c) div 2 ^ 16\<bar> \<le> 2 ^ 32" by (rule digit_step [OF dg(1,2)]) (use assms(2) in simp)
  then have "\<bar>(b + (a + c) div 2 ^ 16) div 2 ^ 16\<bar> \<le> 2 ^ 16" by (intro digit_step [OF dg(3,4)]) simp
  then have "\<bar>(d + (b + (a + c) div 2 ^ 16) div 2 ^ 16) div 2 ^ 16\<bar> \<le> 1" by (intro digit_step [OF dg(5,6)]) simp
  from one [OF dg(7) this] show ?thesis by (simp only: ys carry_pass.simps Let_def split_beta snd_conv)
qed

lemma carry_nonneg: "digits ys \<Longrightarrow> 0 \<le> c \<Longrightarrow> 0 \<le> snd (carry_pass c ys)"
proof (induction ys arbitrary: c)
  case (Cons y ys)
  then have "0 \<le> (y + c) div 2 ^ 16" by (simp add: digits_def pos_imp_zdiv_nonneg_iff)
  with Cons show ?case by (simp add: Let_def split_beta digits_def)
qed simp

lemma carry_nonpos: "digits ys \<Longrightarrow> c \<le> 0 \<Longrightarrow> snd (carry_pass c ys) \<le> 0"
proof (induction ys arbitrary: c)
  case (Cons y ys)
  then have "(y + c) div 2 ^ 16 \<le> (2 ^ 16 - 1) div 2 ^ 16" by (intro zdiv_mono1) (auto simp: digits_def)
  then have "(y + c) div 2 ^ 16 \<le> 0" by simp
  with Cons show ?case by (simp add: Let_def split_beta digits_def)
qed simp

lemma carry_zero: "digits ys \<Longrightarrow> carry_pass 0 ys = (ys, 0)"
  by (induction ys) (auto simp: digits_def)

lemma car_red:
  assumes "length ys = 15" "digits ys" "\<bar>x\<bar> \<le> 2 ^ 62"
  shows "gf_red (car25519 (x # ys))"
proof -
  obtain zs d where zd: "carry_pass (x div 2 ^ 16) ys = (zs, d)" by fastforce
  note dg = carry_digits [OF zd]
  have "\<bar>x div 2 ^ 16\<bar> \<le> 2 ^ 48" using assms(3) by (intro div_bound) simp
  then have d: "\<bar>d\<bar> \<le> 1" using carry_settles [OF assms(2), of "x div 2 ^ 16"] zd assms(1) by simp
  have "gf_bound (2 ^ 62) (x # ys)" using assms by (force simp: gf_bound_def digits_def)
  then have "car25519 (x # ys) = (x mod 2 ^ 16 + 38 * d) # zs"
    using car25519_carry [of "x # ys" "x mod 2 ^ 16 # zs" d] zd by simp
  with dg assms(1) d show ?thesis by (auto simp: gf_red_def digits_def abs_le_iff)
qed

lemma car_norm:
  assumes "gf_red gf"
  shows "digits (car25519 gf)" "length (car25519 gf) = 16"
proof -
  obtain x ys where gf: "gf = x # ys" "length ys = 15" "digits ys" "- 38 \<le> x" "x \<le> 2 ^ 16 + 37"
    using assms by (auto simp: gf_red_def)
  obtain zs d where zd: "carry_pass (x div 2 ^ 16) ys = (zs, d)" by fastforce
  note dg = carry_digits [OF zd]
  have "gf_bound (2 ^ 62) gf" using gf_red_bound [OF assms] by (rule gf_bound_mono) simp
  then have car: "car25519 gf = (x mod 2 ^ 16 + 38 * d) # zs"
    using car25519_carry [of gf "x mod 2 ^ 16 # zs" d] zd gf(1) by simp
  have d: "\<bar>d\<bar> \<le> 1" using carry_settles [OF gf(3), of "x div 2 ^ 16"] zd gf(2,4,5) div_bound [of x 2] by simp
  consider "x < 0" | "0 \<le> x" "x < 2 ^ 16" | "2 ^ 16 \<le> x" by linarith
  then have "0 \<le> x mod 2 ^ 16 + 38 * d \<and> x mod 2 ^ 16 + 38 * d < 2 ^ 16"
  proof cases
    case 1
    have "x div 2 ^ 16 = - 1" using 1 gf(4) by (intro int_div_pos_eq [where r = "x + 2 ^ 16"]) auto
    moreover have "x mod 2 ^ 16 = x + 2 ^ 16" using 1 gf(4) by (intro int_mod_pos_eq [where q = "- 1"]) auto
    ultimately show ?thesis using carry_nonpos [OF gf(3), of "- 1"] zd d 1 gf(4) by simp
  next
    case 2
    then show ?thesis using carry_zero [OF gf(3)] zd by simp
  next
    case 3
    have "x div 2 ^ 16 = 1" using 3 gf(5) by (intro int_div_pos_eq [where r = "x - 2 ^ 16"]) auto
    moreover have "x mod 2 ^ 16 = x - 2 ^ 16" using 3 gf(5) by (intro int_mod_pos_eq [where q = 1]) auto
    ultimately show ?thesis using carry_nonneg [OF gf(3), of 1] zd d 3 gf(5) by simp
  qed
  then show "digits (car25519 gf)" "length (car25519 gf) = 16" using dg gf(2) by (auto simp: car digits_def)
qed

section \<open>Multiplication\<close>

lemma gval_update: "k < length t \<Longrightarrow> gval (t[k := t ! k + v]) = gval t + v * 2 ^ (16 * k)"
proof (induction t arbitrary: k)
  case (Cons x t)
  then show ?case by (cases k) (simp_all add: algebra_simps power_add)
qed simp

lemma prod_bound:
  fixes x y :: int
  assumes "\<bar>x\<bar> \<le> A" "\<bar>y\<bar> \<le> B"
  shows "\<bar>x * y\<bar> \<le> A * B"
  using mult_mono [OF assms] assms by (simp add: abs_mult)

text \<open>The row of partial products, as long as the sums stay far below the 64-bit range.\<close>

lemma fold_mul_acc:
  assumes "gf_bound (2 ^ 20) a" "gf_bound (2 ^ 20) b"
  shows "set ps \<subseteq> {..<16} \<times> {..<16} \<Longrightarrow> length t = 31 \<Longrightarrow> \<forall>x\<in>set t. \<bar>x\<bar> \<le> int n * 2 ^ 40 \<Longrightarrow> n + length ps \<le> 256 \<Longrightarrow>
    length (fold (mul_acc a b) ps t) = 31 \<and>
    (\<forall>x\<in>set (fold (mul_acc a b) ps t). \<bar>x\<bar> \<le> int (n + length ps) * 2 ^ 40) \<and>
    gval (fold (mul_acc a b) ps t) = gval t + (\<Sum>(i, j)\<leftarrow>ps. a ! i * b ! j * 2 ^ (16 * (i + j)))"
proof (induction ps arbitrary: t n)
  case (Cons q ps)
  obtain i j where q: "q = (i, j)" by fastforce
  have ij: "i < 16" "j < 16" using Cons.prems(1) by (auto simp: q)
  have "\<bar>a ! i\<bar> \<le> 2 ^ 20" "\<bar>b ! j\<bar> \<le> 2 ^ 20" using assms ij by (simp_all add: gf_bound_def)
  then have v: "\<bar>a ! i * b ! j\<bar> \<le> 2 ^ 40" using prod_bound [of "a ! i" "2 ^ 20" "b ! j" "2 ^ 20"] by simp
  have t: "\<bar>t ! (i + j)\<bar> \<le> int n * 2 ^ 40" using Cons.prems(2,3) ij by simp
  have n: "int n * 2 ^ 40 \<le> 256 * 2 ^ 40" using Cons.prems(4) by simp
  have "wrap64 (a ! i * b ! j) = a ! i * b ! j" using v by (intro wrap64_abs) simp
  moreover have "wrap64 (t ! (i + j) + a ! i * b ! j) = t ! (i + j) + a ! i * b ! j"
    using v t n by (intro wrap64_abs) simp
  ultimately have s: "mul_acc a b q t = t[i + j := t ! (i + j) + a ! i * b ! j]" by (simp add: mul_acc_def q)
  have new: "\<bar>t ! (i + j) + a ! i * b ! j\<bar> \<le> int (Suc n) * 2 ^ 40" using v t by (simp add: algebra_simps)
  have old: "\<forall>x\<in>set t. \<bar>x\<bar> \<le> int (Suc n) * 2 ^ 40" using Cons.prems(3) by (fastforce simp: algebra_simps)
  have "\<forall>x\<in>set (mul_acc a b q t). \<bar>x\<bar> \<le> int (Suc n) * 2 ^ 40"
    using new old set_update_subset_insert [of t] by (fastforce simp only: s insert_iff subset_iff)
  from Cons.IH [OF _ _ this] Cons.prems show ?case using ij by (simp add: s [unfolded q] q gval_update)
qed simp

lemma fold_mul_fold:
  assumes "length t = 31" "\<forall>x\<in>set t. \<bar>x\<bar> \<le> 2 ^ 48" "k \<le> 15"
  shows "fold mul_fold [0..<k] t = map (\<lambda>i. if i < k then t ! i + 38 * t ! (i + 16) else t ! i) [0..<31]"
  using assms(3)
proof (induction k)
  case 0
  show ?case using assms(1) by (simp add: map_nth [of t, unfolded assms(1)])
next
  case (Suc k)
  have "\<bar>t ! k\<bar> \<le> 2 ^ 48" "\<bar>t ! (k + 16)\<bar> \<le> 2 ^ 48" using assms(1,2) Suc.prems by simp_all
  then have "wrap64 (38 * t ! (k + 16)) = 38 * t ! (k + 16)"
    "wrap64 (t ! k + 38 * t ! (k + 16)) = t ! k + 38 * t ! (k + 16)"
    by (auto intro!: wrap64_abs)
  then show ?case using Suc by (auto simp: mul_fold_def nth_list_update intro!: nth_equalityI)
qed

lemma sum_product_list:
  fixes f :: "nat \<Rightarrow> nat \<Rightarrow> int"
  shows "(\<Sum>(i, j)\<leftarrow>List.product [0..<m] [0..<n]. f i j) = (\<Sum>i<m. \<Sum>j<n. f i j)"
proof -
  have "(\<Sum>(i, j)\<leftarrow>List.product xs ys. f i j) = (\<Sum>i\<leftarrow>xs. \<Sum>j\<leftarrow>ys. f i j)" for xs ys
    by (induction xs) (simp_all add: comp_def)
  then show ?thesis by (simp add: interv_sum_list_conv_sum_set_nat atLeast0LessThan)
qed

text \<open>Folding the upper half by 38 is exact modulo the prime, since \<open>2 ^ 256 = 38 + 2 * p\<close>.\<close>

lemma gval_fold_half:
  assumes "length t = 31"
  shows "gval (map (\<lambda>i. if i < 15 then t ! i + 38 * t ! (i + 16) else t ! i) [0..<16]) mod p25519 = gval t mod p25519"
proof -
  have "(\<Sum>i<m + n. f i) = (\<Sum>i<m. f i) + (\<Sum>i<n. f (i + m))" for f :: "nat \<Rightarrow> int" and m n
    by (induction n) (simp_all add: add.commute)
  from this [of _ 16 15] have split: "(\<Sum>i<31. f i) = (\<Sum>i<16. f i) + (\<Sum>i<15. f (i + 16))" for f :: "nat \<Rightarrow> int"
    by simp
  let ?h = "\<Sum>i<15. t ! (i + 16) * 2 ^ (16 * i)"
  have "gval t = (\<Sum>i<16. t ! i * 2 ^ (16 * i)) + 2 ^ 256 * ?h"
    unfolding gval_sum assms split sum_distrib_left by (simp add: power_add algebra_simps)
  moreover have "gval (map (\<lambda>i. if i < 15 then t ! i + 38 * t ! (i + 16) else t ! i) [0..<16]) =
      (\<Sum>i<16. t ! i * 2 ^ (16 * i)) + 38 * ?h"
  proof -
    have "(\<Sum>i<15. (if i < 15 then t ! i + 38 * t ! (i + 16) else t ! i) * 2 ^ (16 * i)) =
        (\<Sum>i<15. t ! i * 2 ^ (16 * i) + 38 * (t ! (i + 16) * 2 ^ (16 * i)))"
      by (rule sum.cong) (simp_all add: algebra_simps)
    moreover have "(\<Sum>i<16. f i) = (\<Sum>i<15. f i) + f 15" for f :: "nat \<Rightarrow> int"
      using sum.lessThan_Suc [of f 15] by simp
    ultimately show ?thesis unfolding gval_map_upt by (simp add: sum.distrib sum_distrib_left)
  qed
  ultimately have "gval t = gval (map (\<lambda>i. if i < 15 then t ! i + 38 * t ! (i + 16) else t ! i) [0..<16]) + 2 * ?h * p25519"
    by (simp add: p25519_def)
  then show ?thesis by (simp only: mod_mult_self1)
qed

lemma gf_mul_correct:
  assumes "gf_bound (2 ^ 20) a" "gf_bound (2 ^ 20) b"
  shows "gf_red (gf_mul a b)" "gval (gf_mul a b) mod p25519 = gval a * gval b mod p25519"
proof -
  define t where "t = fold (mul_acc a b) (List.product [0..<16] [0..<16]) (replicate 31 0)"
  define g where "g = (\<lambda>i. if i < 15 then t ! i + 38 * t ! (i + 16) else t ! i)"
  define o' where "o' = map g [0..<16]"
  have len: "length a = 16" "length b = 16" using assms by (simp_all add: gf_bound_def)
  have z: "gval (replicate n 0) = 0" for n by (induction n) simp_all
  have t: "length t = 31" "\<forall>x\<in>set t. \<bar>x\<bar> \<le> 2 ^ 48"
    and tv: "gval t = (\<Sum>i<16. \<Sum>j<16. a ! i * b ! j * 2 ^ (16 * (i + j)))"
    using fold_mul_acc [OF assms, of "List.product [0..<16] [0..<16]" "replicate 31 0" 0]
    unfolding t_def [symmetric] sum_product_list z
    by (auto simp: atLeast0LessThan)
  have "gval t = gval a * gval b"
    unfolding tv gval_sum [of a] gval_sum [of b] len sum_product by (simp add: power_add algebra_simps)
  then have ov: "gval o' mod p25519 = gval a * gval b mod p25519"
    unfolding o'_def g_def gval_fold_half [OF t(1)] by simp
  have "\<bar>g i\<bar> \<le> 2 ^ 54" if "i < 16" for i
  proof -
    have "\<bar>t ! i\<bar> \<le> 2 ^ 48" "i < 15 \<Longrightarrow> \<bar>t ! (i + 16)\<bar> \<le> 2 ^ 48" using t that by simp_all
    then show ?thesis by (auto simp: g_def)
  qed
  then have ob: "gf_bound (2 ^ 54) o'" by (simp add: gf_bound_def o'_def)
  have mul: "gf_mul a b = car25519 (car25519 o')"
    using fold_mul_fold [OF t] unfolding gf_mul_def Let_def t_def [symmetric] o'_def g_def by (simp add: take_map)
  obtain x ys where c: "car25519 o' = x # ys" "length ys = 15" "digits ys" "\<bar>x\<bar> \<le> 2 ^ 46"
    using car_shape [OF ob, of "2 ^ 40"] by auto
  then show "gf_red (gf_mul a b)" unfolding mul c(1) by (intro car_red) auto
  have "gf_bound (2 ^ 62) (car25519 o')" unfolding c(1) using c(2-4) by (force simp: gf_bound_def digits_def)
  then have "gval (gf_mul a b) mod p25519 = gval (car25519 o') mod p25519" unfolding mul by (rule car_val)
  also have "\<dots> = gval o' mod p25519" using gf_bound_mono [OF ob] by (intro car_val) simp
  finally show "gval (gf_mul a b) mod p25519 = gval a * gval b mod p25519" using ov by simp
qed

section \<open>Addition, selection, inversion\<close>

lemma gf_add_correct:
  assumes "gf_bound M a" "gf_bound N b" "M + N \<le> 2 ^ 62"
  shows "gf_bound (M + N) (gf_add a b)" "gval (gf_add a b) = gval a + gval b"
proof -
  have b: "\<bar>a ! i\<bar> \<le> M" "\<bar>b ! i\<bar> \<le> N" if "i < 16" for i using assms that by (simp_all add: gf_bound_def)
  have w: "wrap64 (a ! i + b ! i) = a ! i + b ! i" if "i < 16" for i
    using b [OF that] assms(3) by (intro wrap64_abs) simp
  then have eq: "gf_add a b = map (\<lambda>i. a ! i + b ! i) [0..<16]" by (simp add: gf_add_def)
  have "\<bar>a ! i + b ! i\<bar> \<le> M + N" if "i < 16" for i using b [OF that] by simp
  then show "gf_bound (M + N) (gf_add a b)" by (simp add: eq gf_bound_def)
  show "gval (gf_add a b) = gval a + gval b" unfolding eq gval_map_upt gval_sum [of a] gval_sum [of b]
    using assms(1,2) by (simp add: gf_bound_def sum.distrib algebra_simps)
qed

lemma gf_sub_correct:
  assumes "gf_bound M a" "gf_bound N b" "M + N \<le> 2 ^ 62"
  shows "gf_bound (M + N) (gf_sub a b)" "gval (gf_sub a b) = gval a - gval b"
proof -
  have b: "\<bar>a ! i\<bar> \<le> M" "\<bar>b ! i\<bar> \<le> N" if "i < 16" for i using assms that by (simp_all add: gf_bound_def)
  have w: "wrap64 (a ! i - b ! i) = a ! i - b ! i" if "i < 16" for i
    using b [OF that] assms(3) by (intro wrap64_abs) simp
  then have eq: "gf_sub a b = map (\<lambda>i. a ! i - b ! i) [0..<16]" by (simp add: gf_sub_def)
  have "\<bar>a ! i - b ! i\<bar> \<le> M + N" if "i < 16" for i using b [OF that] by simp
  then show "gf_bound (M + N) (gf_sub a b)" by (simp add: eq gf_bound_def)
  show "gval (gf_sub a b) = gval a - gval b" unfolding eq gval_map_upt gval_sum [of a] gval_sum [of b]
    using assms(1,2) by (simp add: gf_bound_def sum_subtractf algebra_simps)
qed

text \<open>The branch-free exchange: the mask is all zeros or all ones.\<close>

lemma sel25519_correct:
  assumes "length p = 16" "length q = 16"
  shows "sel25519 p q 0 = (p, q)" "sel25519 p q 1 = (q, p)"
proof -
  have "NOT (wrap64 (0 - 1)) = 0" "NOT (wrap64 (1 - 1)) = - 1" by (simp_all add: wrap64_def)
  moreover have "x XOR (x XOR y) = y" "y XOR (x XOR y) = x" for x y :: int
    by (simp flip: xor.assoc) (simp add: xor.left_commute [of y])
  ultimately show "sel25519 p q 0 = (p, q)" "sel25519 p q 1 = (q, p)"
    using assms unfolding sel25519_def Let_def by (auto intro!: nth_equalityI)
qed

text \<open>Square, and multiply where the loop says so: the common shape of the two powers the code takes.\<close>

definition pow_step :: "(nat \<Rightarrow> bool) \<Rightarrow> Gf \<Rightarrow> nat \<Rightarrow> Gf \<Rightarrow> Gf" where
  "pow_step m z a c = (if m a then gf_mul (gf_mul c c) z else gf_mul c c)"

fun pow_exponent :: "(nat \<Rightarrow> bool) \<Rightarrow> nat list \<Rightarrow> nat \<Rightarrow> nat" where
  "pow_exponent m [] n = n"
| "pow_exponent m (a # as) n = pow_exponent m as (if m a then Suc (2 * n) else 2 * n)"

lemma pow_step_correct:
  assumes "gf_bound (2 ^ 20) z" "gf_bound (2 ^ 20) c" "gval c mod p25519 = gval z ^ n mod p25519"
  shows "gf_red (pow_step m z a c)"
    "gval (pow_step m z a c) mod p25519 = gval z ^ (if m a then Suc (2 * n) else 2 * n) mod p25519"
proof -
  note s = gf_mul_correct [OF assms(2,2)]
  have sb: "gf_bound (2 ^ 20) (gf_mul c c)" by (rule gf_bound_mono [OF gf_red_bound [OF s(1)]]) simp
  note r = gf_mul_correct [OF sb assms(1)]
  have c2: "gval (gf_mul c c) mod p25519 = gval z ^ (2 * n) mod p25519"
    unfolding s(2) using mod_mult_cong [OF assms(3,3)] by (simp only: power_add mult_2)
  moreover have "gval (gf_mul (gf_mul c c) z) mod p25519 = gval z ^ Suc (2 * n) mod p25519"
    unfolding r(2) using mod_mult_cong [OF c2 refl, of "gval z"] by (simp only: power_Suc2)
  ultimately show "gf_red (pow_step m z a c)"
    "gval (pow_step m z a c) mod p25519 = gval z ^ (if m a then Suc (2 * n) else 2 * n) mod p25519"
    using s(1) r(1) by (simp_all add: pow_step_def del: power_Suc)
qed

lemma fold_pow_step:
  assumes "gf_bound (2 ^ 20) z"
  shows "gf_bound (2 ^ 20) c \<Longrightarrow> gval c mod p25519 = gval z ^ n mod p25519 \<Longrightarrow>
    gf_bound (2 ^ 20) (fold (pow_step m z) as c) \<and>
    (as \<noteq> [] \<longrightarrow> gf_red (fold (pow_step m z) as c)) \<and>
    gval (fold (pow_step m z) as c) mod p25519 = gval z ^ pow_exponent m as n mod p25519"
proof (induction as arbitrary: c n)
  case (Cons a as)
  note st = pow_step_correct [OF assms Cons.prems, of m a]
  have b: "gf_bound (2 ^ 20) (pow_step m z a c)" by (rule gf_bound_mono [OF gf_red_bound [OF st(1)]]) simp
  from Cons.IH [OF b st(2)] st(1) show ?case by (cases as) (simp_all del: power_Suc)
qed simp

lemma pow_exponent_append: "pow_exponent m (as @ bs) n = pow_exponent m bs (pow_exponent m as n)"
  by (induction as arbitrary: n) simp_all

lemma pow_exponent_run: "\<forall>a\<in>set as. m a \<Longrightarrow> Suc (pow_exponent m as n) = 2 ^ length as * Suc n"
proof (induction as arbitrary: n)
  case (Cons a as)
  then show ?case using Cons.IH [of "Suc (2 * n)"] by auto
qed simp

lemma rev_upt_split: "k \<le> n \<Longrightarrow> rev [0..<n] = rev [k..<n] @ rev [0..<k]"
  using upt_add_eq_append [of 0 k "n - k"] by simp

lemma inv25519_correct:
  assumes "gf_bound (2 ^ 20) z"
  shows "gf_red (inv25519 z)" "gval (inv25519 z) mod p25519 = gval z ^ nat (p25519 - 2) mod p25519"
proof -
  let ?m = "\<lambda>a. a \<noteq> 2 \<and> a \<noteq> (4::nat)"
  define hi where "hi = rev [5..<(254::nat)]"
  have hi: "\<forall>a\<in>set hi. ?m a" "length hi = 249" unfolding hi_def set_rev set_upt length_rev length_upt by simp_all
  have "rev [0..<5] = [4, 3, 2, 1, 0]" by (simp add: upt_rec)
  then have sp: "rev [0..<254] = hi @ [4, 3, 2, 1, 0]" using rev_upt_split [of 5 254] by (simp only: hi_def numeral_le_iff) simp
  have "pow_exponent ?m hi 1 = 2 ^ 250 - 1" using pow_exponent_run [OF hi(1), of 1] hi(2) by simp
  then have e: "pow_exponent ?m (rev [0..<254]) 1 = nat (p25519 - 2)"
    unfolding sp pow_exponent_append by (simp add: p25519_def)
  have "inv_step z = pow_step ?m z" by (intro ext) (simp add: inv_step_def pow_step_def gf_sqr_def Let_def)
  then have i: "inv25519 z = fold (pow_step ?m z) (rev [0..<254]) z" by (simp only: inv25519_def)
  have "rev [0..<254] \<noteq> []" "gval z mod p25519 = gval z ^ 1 mod p25519" unfolding sp by (simp, simp only: power_one_right)
  with fold_pow_step [OF assms assms, of 1 ?m "rev [0..<254]"]
  show "gf_red (inv25519 z)" "gval (inv25519 z) mod p25519 = gval z ^ nat (p25519 - 2) mod p25519"
    unfolding i e by blast+
qed

section \<open>Unpacking and packing\<close>

fun le_val :: "bytes \<Rightarrow> int" where
  "le_val [] = 0"
| "le_val (b # bs) = uint b + 2 ^ 8 * le_val bs"

lemma le_val_pairs:
  "length n = 2 * k \<Longrightarrow> gval (map (\<lambda>i. uint (n ! (2 * i)) + uint (n ! (2 * i + 1)) * 2 ^ 8) [0..<k]) = le_val n"
proof (induction k arbitrary: n)
  case (Suc k)
  then obtain a b m where n: "n = a # b # m" "length m = 2 * k" by (cases n; cases "tl n") auto
  have "map (\<lambda>i. uint (n ! (2 * i)) + uint (n ! (2 * i + 1)) * 2 ^ 8) [0..<Suc k] =
      (uint a + uint b * 2 ^ 8) # map (\<lambda>i. uint (m ! (2 * i)) + uint (m ! (2 * i + 1)) * 2 ^ 8) [0..<k]"
    by (simp add: n(1) map_upt_Suc del: upt_Suc)
  with Suc.IH [OF n(2)] show ?case by (simp add: n(1))
qed simp

lemma le_val_bound: "0 \<le> le_val bs \<and> le_val bs < 2 ^ (8 * length bs)"
proof (induction bs)
  case (Cons b bs)
  have b: "uint b < 2 ^ 8" "0 \<le> uint b" using uint_lt2p [of b] by simp_all
  have "uint b + 2 ^ 8 * le_val bs \<le> (2 ^ 8 - 1) + 2 ^ 8 * (2 ^ (8 * length bs) - 1)"
    using b Cons.IH by (intro add_mono mult_left_mono) auto
  with b Cons.IH show ?case by (simp add: power_add)
qed simp

lemma gval_digits: "digits ys \<Longrightarrow> 0 \<le> gval ys \<and> gval ys < 2 ^ (16 * length ys)"
proof (induction ys)
  case (Cons y ys)
  have y: "0 \<le> y" "y < 2 ^ 16" "digits ys" using Cons.prems by (simp_all add: digits_def)
  have "y + 2 ^ 16 * gval ys \<le> (2 ^ 16 - 1) + 2 ^ 16 * (2 ^ (16 * length ys) - 1)"
    using y Cons.IH by (intro add_mono mult_left_mono) auto
  with y Cons.IH show ?case by (simp add: power_add)
qed simp

lemma and_ones: "(x::int) AND (2 ^ k - 1) = x mod 2 ^ k"
  using take_bit_eq_mask [of k x] by (simp add: take_bit_eq_mod mask_eq_exp_minus_1)

lemmas and_ones_lit = and_ones [of _ 1, simplified] and_ones [of _ 8, simplified] and_ones [of _ 15, simplified]
  and_ones [of _ 16, simplified]

lemma snoc_15: "length gf = 16 \<Longrightarrow> gf = take 15 gf @ [gf ! 15]"
  using take_Suc_conv_app_nth [of 15 gf] by simp

lemma unpack25519_correct:
  assumes "length n = 32"
  shows "gf_bound (2 ^ 16) (unpack25519 n)" "gval (unpack25519 n) = le_val n mod 2 ^ 255"
proof -
  define gf where "gf = map (\<lambda>i. uint (n ! (2 * i)) + uint (n ! (2 * i + 1)) * 2 ^ 8) [0..<16]"
  define low x where "low = take 15 gf" and "x = gf ! 15"
  have len: "length gf = 16" "length low = 15" by (simp_all add: gf_def low_def)
  have "0 \<le> uint b + uint c * 2 ^ 8 \<and> uint b + uint c * 2 ^ 8 < 2 ^ 16" for b c :: u8
    using uint_lt2p [of b] uint_lt2p [of c] by simp
  then have "digits gf" unfolding digits_def gf_def by (simp del: power_numeral)
  moreover have gf: "gf = low @ [x]" unfolding low_def x_def by (rule snoc_15 [OF len(1)])
  ultimately have dg: "digits low" "0 \<le> x" "x < 2 ^ 16" by (simp_all add: digits_def)
  have u: "unpack25519 n = low @ [x mod 2 ^ 15]"
    unfolding unpack25519_def gf_def [symmetric] Let_def using gf len by (simp add: and_ones_lit list_update_append nth_append)
  have "x mod 2 ^ 15 < 2 ^ 15" "0 \<le> x mod 2 ^ 15" by simp_all
  then have "\<bar>x mod 2 ^ 15\<bar> \<le> 2 ^ 16" by simp
  then show "gf_bound (2 ^ 16) (unpack25519 n)" using dg(1) len by (fastforce simp: u gf_bound_def digits_def)
  have low: "0 \<le> gval low" "gval low < 2 ^ 240" using gval_digits [OF dg(1)] len by simp_all
  have "le_val n = gval low + 2 ^ 240 * x"
    using le_val_pairs [of n 16] assms len unfolding gf_def [symmetric] gf by (simp add: gval_append)
  then have "le_val n mod (2 ^ 240 * 2 ^ 15) = 2 ^ 240 * (x mod 2 ^ 15) + gval low"
    using low by (simp only: zmod_zmult2_eq zero_le_power zero_le_numeral) (simp del: power_numeral)
  then show "gval (unpack25519 n) = le_val n mod 2 ^ 255" using len by (simp add: u gval_append)
qed

text \<open>The limbs of the prime, and the chain of borrows that subtracts them.\<close>

definition p_digits :: "int list" where
  "p_digits = 0xffed # replicate 14 0xffff @ [0x7fff]"

lemma p_digits_simps [simp]:
  "length p_digits = 16" "p_digits ! 0 = 0xffed" "p_digits ! 15 = 0x7fff"
  "0 < i \<Longrightarrow> i < 15 \<Longrightarrow> p_digits ! i = 0xffff"
  by (simp_all add: p_digits_def nth_Cons' nth_append)

lemma gval_p_digits: "gval p_digits = p25519"
  by (simp add: p_digits_def p25519_def numeral_eq_Suc)

lemma p_digits_range: "i < 16 \<Longrightarrow> 0 \<le> p_digits ! i \<and> p_digits ! i < 2 ^ 16"
  by (cases "i = 0"; cases "i = 15") simp_all

definition minus_p :: "Gf \<Rightarrow> int list" where
  "minus_p t = map (\<lambda>i. t ! i - p_digits ! i) [0..<16]"

lemma minus_p_facts:
  assumes "digits t" "length t = 16"
  shows "gval (minus_p t) = gval t - p25519" "\<forall>x\<in>set (minus_p t). - (2 ^ 16) < x \<and> x < 2 ^ 16"
proof -
  have "gval t = (\<Sum>i<16. t ! i * 2 ^ (16 * i))" "p25519 = (\<Sum>i<16. p_digits ! i * 2 ^ (16 * i))"
    using gval_sum [of t] gval_sum [of p_digits] assms(2) by (simp_all add: gval_p_digits)
  then show "gval (minus_p t) = gval t - p25519"
    by (simp only: minus_p_def gval_map_upt left_diff_distrib sum_subtractf)
  have "- (2 ^ 16) < t ! i - p_digits ! i \<and> t ! i - p_digits ! i < 2 ^ 16" if "i < 16" for i
  proof -
    have "0 \<le> t ! i" "t ! i < 2 ^ 16" using assms that by (simp_all add: digits_def)
    then show ?thesis using p_digits_range [OF that] by linarith
  qed
  then show "\<forall>x\<in>set (minus_p t). - (2 ^ 16) < x \<and> x < 2 ^ 16" by (simp add: minus_p_def)
qed

lemma borrow_cases:
  assumes "- (2 ^ 16) \<le> x" "x < 2 ^ 16"
  shows "x div 2 ^ 16 = (if x < 0 then - 1 else 0)" "borrow x = - (x div 2 ^ 16)"
proof -
  show d: "x div 2 ^ 16 = (if x < 0 then - 1 else 0)"
    using assms by (auto intro!: int_div_pos_eq [where r = "x + 2 ^ 16"])
  show "borrow x = - (x div 2 ^ 16)" unfolding borrow_def d by simp
qed

lemma carry_borrow:
  "\<forall>x\<in>set xs. - (2 ^ 16) < x \<and> x < 2 ^ 16 \<Longrightarrow> c = - 1 \<or> c = 0 \<Longrightarrow> snd (carry_pass c xs) = - 1 \<or> snd (carry_pass c xs) = 0"
proof (induction xs arbitrary: c)
  case (Cons x xs)
  have "- (2 ^ 16) \<le> x + c" "x + c < 2 ^ 16" using Cons.prems by auto
  then have "(x + c) div 2 ^ 16 = - 1 \<or> (x + c) div 2 ^ 16 = 0" using borrow_cases(1) [of "x + c"] by auto
  with Cons show ?case by (simp add: Let_def split_beta)
qed simp

lemma pack_sub_loop:
  assumes "digits t" "length t = 16" "j \<le> 14"
  shows "fold (pack_sub t) [1..<Suc j] ((replicate 16 0)[0 := wrap64 (t ! 0 - 0xffed)]) =
    (let (zs, c) = carry_pass 0 (take j (minus_p t)) in zs @ (minus_p t ! j + c) # replicate (15 - j) 0)"
  using assms(3)
proof (induction j)
  case 0
  have "t ! 0 \<in> set t" using assms(2) by simp
  then have "0 \<le> t ! 0" "t ! 0 < 2 ^ 16" using assms(1) by (simp_all add: digits_def)
  then have "wrap64 (t ! 0 - 0xffed) = minus_p t ! 0" by (simp add: minus_p_def wrap64_abs)
  then show ?case by (simp add: numeral_eq_Suc)
next
  case (Suc j)
  let ?xs = "minus_p t"
  obtain zs c where zc: "carry_pass 0 (take j ?xs) = (zs, c)" by fastforce
  note xs = minus_p_facts(2) [OF assms(1,2)]
  have len: "length ?xs = 16" "length zs = j" using carry_digits [OF zc] Suc.prems by (auto simp: minus_p_def)
  have c: "c = - 1 \<or> c = 0" using carry_borrow [of "take j ?xs" 0] xs zc by (auto dest: in_set_takeD)
  have rng: "- (2 ^ 16) < ?xs ! i" "?xs ! i < 2 ^ 16" if "i \<le> 15" for i using xs len that by simp_all
  define y where "y = ?xs ! j + c"
  have y: "- (2 ^ 16) \<le> y" "y < 2 ^ 16" using rng [of j] c Suc.prems by (auto simp: y_def)
  have d: "y div 2 ^ 16 = - 1 \<or> y div 2 ^ 16 = 0" using borrow_cases(1) [OF y] by auto
  have n: "?xs ! Suc j = t ! Suc j - 0xffff" using Suc.prems by (simp add: minus_p_def)
  then have w: "wrap64 (wrap64 (t ! Suc j - 0xffff) - borrow y) = ?xs ! Suc j + y div 2 ^ 16"
    using rng [of "Suc j"] d Suc.prems unfolding borrow_cases(2) [OF y] by (auto simp: wrap64_abs)
  have r: "replicate (15 - j) (0::int) = 0 # replicate (15 - Suc j) 0"
    using Suc.prems by (simp add: Suc_diff_le flip: replicate_Suc)
  let ?m = "zs @ y # replicate (15 - j) 0"
  have "fold (pack_sub t) [1..<Suc (Suc j)] ((replicate 16 0)[0 := wrap64 (t ! 0 - 0xffed)]) = pack_sub t (Suc j) ?m"
    using Suc zc by (simp add: y_def)
  also have "\<dots> = zs @ (y mod 2 ^ 16) # (?xs ! Suc j + y div 2 ^ 16) # replicate (15 - Suc j) 0"
    using len(2) Suc.prems w
    by (simp add: r pack_sub_def Let_def nth_append list_update_append and_ones_lit)
  finally show ?case
    using carry_snoc [of 0 "take j ?xs" "?xs ! j"] zc len Suc.prems by (simp add: take_Suc_conv_app_nth y_def)
qed

lemma pack_round_correct:
  assumes "digits t" "length t = 16"
  shows "digits (pack_round t)" "length (pack_round t) = 16"
    "gval (pack_round t) = (if gval t < p25519 then gval t else gval t - p25519)"
proof -
  let ?xs = "minus_p t"
  note xs = minus_p_facts [OF assms]
  obtain zs c where zc: "carry_pass 0 (take 14 ?xs) = (zs, c)" by fastforce
  obtain ys d where yd: "carry_pass 0 ?xs = (ys, d)" by fastforce
  have len: "length ?xs = 16" "length zs = 14" "length ys = 16"
    using carry_digits [OF zc] carry_digits [OF yd] by (auto simp: minus_p_def)
  define y w where "y = ?xs ! 14 + c" and "w = ?xs ! 15 + y div 2 ^ 16"
  have t15: "take 15 ?xs = take 14 ?xs @ [?xs ! 14]" using take_Suc_conv_app_nth [of 14 ?xs] len(1) by simp
  have "carry_pass 0 ((take 14 ?xs @ [?xs ! 14]) @ [?xs ! 15]) = (ys, d)"
    by (simp only: t15 [symmetric] snoc_15 [OF len(1), symmetric] yd)
  then have ys: "ys = zs @ [y mod 2 ^ 16, w mod 2 ^ 16]" "d = w div 2 ^ 16"
    unfolding carry_snoc zc y_def w_def by (auto simp: Let_def)
  have cd: "c = - 1 \<or> c = 0" using carry_borrow [of "take 14 ?xs" 0] xs(2) zc by (auto dest: in_set_takeD)
  have rng: "- (2 ^ 16) < ?xs ! i" "?xs ! i < 2 ^ 16" if "i \<le> 15" for i using xs(2) len that by simp_all
  have y: "- (2 ^ 16) \<le> y" "y < 2 ^ 16" using rng [of 14] cd by (auto simp: y_def)
  have w: "- (2 ^ 16) \<le> w" "w < 2 ^ 16" using rng [of 15] borrow_cases(1) [OF y] by (auto simp: w_def)
  have w64: "wrap64 (wrap64 (t ! 15 - 0x7fff) - borrow y) = w"
    using rng [of 15] borrow_cases [OF y] by (auto simp: minus_p_def wrap64_abs w_def)
  let ?m = "zs @ [y mod 2 ^ 16, w]"
  have rep: "replicate (15 - 14) (0::int) = [0]" by simp
  have "fold (pack_sub t) [1..<15] ((replicate 16 0)[0 := wrap64 (t ! 0 - 0xffed)]) = zs @ [y, 0]"
    using pack_sub_loop [OF assms, of 14] zc unfolding y_def by (simp add: rep)
  then have pr: "pack_round t = fst (sel25519 t ?m (wrap64 (1 - borrow w)))"
    unfolding pack_round_def Let_def using len(2) w64 by (simp add: nth_append list_update_append and_ones_lit)
  have val: "gval ys + 2 ^ 256 * d = gval t - p25519" using carry_val [OF yd] len xs(1) by simp
  have dy: "digits ys" using carry_digits [OF yd] by (simp add: digits_def)
  have gy: "0 \<le> gval ys" "gval ys < 2 ^ 256" using gval_digits [OF dy] len by simp_all
  have lm: "length ?m = 16" using len by simp
  show "digits (pack_round t)" "length (pack_round t) = 16"
    "gval (pack_round t) = (if gval t < p25519 then gval t else gval t - p25519)"
  proof (atomize (full), cases "w < 0")
    case True
    then have "d = - 1" "borrow w = 1" using borrow_cases [OF w] ys(2) by simp_all
    then have "pack_round t = t" "gval t < p25519"
      using pr sel25519_correct(1) [OF assms(2) lm] val gy by (simp_all add: wrap64_def)
    then show "digits (pack_round t) \<and> length (pack_round t) = 16 \<and>
      gval (pack_round t) = (if gval t < p25519 then gval t else gval t - p25519)" using assms by simp
  next
    case False
    then have b: "d = 0" "borrow w = 0" "w mod 2 ^ 16 = w" using borrow_cases [OF w] ys(2) w by simp_all
    then have "pack_round t = ys" "p25519 \<le> gval t"
      using pr sel25519_correct(2) [OF assms(2) lm] val gy ys(1) by (simp_all add: wrap64_def)
    then show "digits (pack_round t) \<and> length (pack_round t) = 16 \<and>
      gval (pack_round t) = (if gval t < p25519 then gval t else gval t - p25519)" using dy len val b(1) by simp
  qed
qed

lemma le_val_limbs:
  "digits t \<Longrightarrow> le_val (concat (map (\<lambda>x. [word_of_int (x AND 0xff), word_of_int (x div 2 ^ 8)]) t)) = gval t"
proof (induction t)
  case (Cons x t)
  have x: "0 \<le> x" "x < 2 ^ 16" "digits t" using Cons.prems by (simp_all add: digits_def)
  have "x div 2 ^ 8 < 2 ^ 8" using x(2) by (simp add: div_less_iff_less_mult)
  then have "(x div 2 ^ 8) mod 2 ^ 8 = x div 2 ^ 8" using x(1) by (simp add: pos_imp_zdiv_nonneg_iff)
  then have "uint (word_of_int (x AND 0xff) :: u8) + 2 ^ 8 * uint (word_of_int (x div 2 ^ 8) :: u8) = x"
    by (simp add: uint_word_of_int and_ones_lit)
  with Cons.IH [OF x(3)] show ?case by (simp add: algebra_simps)
qed simp

lemma car_three:
  assumes "gf_bound (2 ^ 62) n"
  shows "digits (car25519 (car25519 (car25519 n)))" "length (car25519 (car25519 (car25519 n))) = 16"
    "gval (car25519 (car25519 (car25519 n))) mod p25519 = gval n mod p25519"
proof -
  obtain x ys where c: "car25519 n = x # ys" "length ys = 15" "digits ys" "\<bar>x\<bar> \<le> 2 ^ 16 + 38 * 2 ^ 47"
    using car_shape [OF assms, of "2 ^ 47"] by auto
  then have r: "gf_red (car25519 (car25519 n))" unfolding c(1) by (intro car_red) auto
  have b1: "gf_bound (2 ^ 62) (car25519 n)" unfolding c(1) using c(2-4) by (force simp: gf_bound_def digits_def)
  have b2: "gf_bound (2 ^ 62) (car25519 (car25519 n))" by (rule gf_bound_mono [OF gf_red_bound [OF r]]) simp
  show "digits (car25519 (car25519 (car25519 n)))" "length (car25519 (car25519 (car25519 n))) = 16"
    using car_norm [OF r] by blast+
  show "gval (car25519 (car25519 (car25519 n))) mod p25519 = gval n mod p25519"
    using car_val [OF assms] car_val [OF b1] car_val [OF b2] by simp
qed

lemma two_subtractions:
  fixes v :: int
  assumes "0 \<le> v" "v < 2 ^ 256"
  defines "u \<equiv> if v < p25519 then v else v - p25519"
  shows "(if u < p25519 then u else u - p25519) = v mod p25519"
proof -
  have p: "0 < p25519" "2 ^ 256 < 3 * p25519" by (simp_all add: p25519_def)
  consider "v < p25519" | "p25519 \<le> v" "v < 2 * p25519" | "2 * p25519 \<le> v" "v < 3 * p25519" using assms p by linarith
  then show ?thesis
  proof cases
    case 1
    then show ?thesis using assms by (simp add: u_def)
  next
    case 2
    have "v mod p25519 = v - p25519" using 2 by (intro int_mod_pos_eq [where q = 1]) auto
    then show ?thesis using 2 by (simp add: u_def)
  next
    case 3
    have "v mod p25519 = v - 2 * p25519" using 3 by (intro int_mod_pos_eq [where q = 2]) auto
    then show ?thesis using 3 p by (simp add: u_def)
  qed
qed

lemma pack25519_correct:
  assumes "gf_bound (2 ^ 62) n"
  shows "length (pack25519 n) = 32" "le_val (pack25519 n) = gval n mod p25519"
proof -
  define t where "t = car25519 (car25519 (car25519 n))"
  define u where "u = pack_round (pack_round t)"
  note t = car_three [OF assms, folded t_def]
  note r1 = pack_round_correct [OF t(1,2)]
  note r2 = pack_round_correct [OF r1(1,2), folded u_def]
  have len: "length t = 16" "length u = 16" using t(2) r2(2) by simp_all
  let ?f = "\<lambda>x. [word_of_int (x AND 0xff) :: u8, word_of_int (x div 2 ^ 8)]"
  have "map (\<lambda>i. ?f (u ! i)) [0..<16] = map ?f (map (\<lambda>i. u ! i) [0..<length u])" by (simp add: len)
  also have "\<dots> = map ?f u" by (simp only: map_nth)
  finally have p: "pack25519 n = concat (map ?f u)"
    unfolding pack25519_def Let_def t_def [symmetric] u_def [symmetric] by simp
  show "length (pack25519 n) = 32" using len(2) by (simp add: p length_concat comp_def sum_list_triv)
  have "le_val (pack25519 n) = gval u" unfolding p by (rule le_val_limbs [OF r2(1)])
  also have "\<dots> = gval t mod p25519"
    using two_subtractions [of "gval t"] gval_digits [OF t(1)] len(1) unfolding r2(3) r1(3) by simp
  finally show "le_val (pack25519 n) = gval n mod p25519" using t(3) by simp
qed

lemma le_val_inj: "length a = length b \<Longrightarrow> le_val a = le_val b \<Longrightarrow> a = b"
proof (induction a b rule: list_induct2)
  case (Cons x xs y ys)
  have e: "uint x + 2 ^ 8 * le_val xs = uint y + 2 ^ 8 * le_val ys" using Cons.prems by simp
  have b: "uint x < 2 ^ 8" "uint y < 2 ^ 8" using uint_lt2p [of x] uint_lt2p [of y] by simp_all
  have "uint x mod 2 ^ 8 = uint y mod 2 ^ 8" using arg_cong [OF e, of "\<lambda>v. v mod 2 ^ 8"] by simp
  then have u: "uint x = uint y" using b by simp
  then have "x = y" by (simp only: word_uint_eq_iff)
  moreover have "xs = ys" using e u Cons.IH by simp
  ultimately show ?case by simp
qed simp

section \<open>Properties\<close>

text \<open>
  C28. The limb arithmetic never overflows where the code uses it: with limbs up to \<open>2 ^ 20\<close> in
  magnitude a product is exact modulo the prime and its limbs come back as 16-bit digits, the lowest
  between -38 and \<open>2 ^ 16 + 37\<close>; with limbs up to \<open>2 ^ 18\<close> a sum and a difference are exact
  integers whose limbs a product accepts; and inversion raises to the power \<open>p - 2\<close>.\<close>

theorem field_arithmetic_bounds:
  assumes "gf_bound (2 ^ 20) a" "gf_bound (2 ^ 20) b" "gf_bound (2 ^ 18) c" "gf_bound (2 ^ 18) d"
  shows "gf_red (gf_mul a b) \<and> gval (gf_mul a b) mod p25519 = gval a * gval b mod p25519 \<and>
    gf_bound (2 ^ 20) (gf_add c d) \<and> gval (gf_add c d) = gval c + gval d \<and>
    gf_bound (2 ^ 20) (gf_sub c d) \<and> gval (gf_sub c d) = gval c - gval d \<and>
    gf_red (inv25519 a) \<and> gval (inv25519 a) mod p25519 = gval a ^ nat (p25519 - 2) mod p25519"
proof -
  have "gf_bound (2 ^ 18 + 2 ^ 18) (gf_add c d)" "gf_bound (2 ^ 18 + 2 ^ 18) (gf_sub c d)"
    by (rule gf_add_correct(1) gf_sub_correct(1); use assms in simp)+
  then have "gf_bound (2 ^ 20) (gf_add c d)" "gf_bound (2 ^ 20) (gf_sub c d)" by (auto elim: gf_bound_mono)
  moreover have "gval (gf_add c d) = gval c + gval d" "gval (gf_sub c d) = gval c - gval d"
    using gf_add_correct(2) [OF assms(3,4)] gf_sub_correct(2) [OF assms(3,4)] by simp_all
  ultimately show ?thesis using gf_mul_correct [OF assms(1,2)] inv25519_correct [OF assms(1)] by blast
qed

theorem field_arithmetic_bounds_witness:
  "gf_bound (2 ^ 20) (replicate 16 (- (2 ^ 20))) \<and> gf_red (gf_mul (replicate 16 (- (2 ^ 20))) (replicate 16 (2 ^ 20)))"
proof -
  have "gf_bound (2 ^ 20) (replicate 16 (- (2 ^ 20)))" "gf_bound (2 ^ 20) (replicate 16 (2 ^ 20))" "gf_bound (2 ^ 18) (replicate 16 7)"
    by (simp_all add: gf_bound_def)
  from field_arithmetic_bounds [OF this this(3)] this(1) show ?thesis by blast
qed

text \<open>
  Packing writes the canonical 32 little-endian bytes of the value modulo the prime, unpacking reads
  255 bits, and every canonical encoding survives the round trip.\<close>

theorem pack_unpack_roundtrip:
  assumes "length n = 32" "gf_bound (2 ^ 62) a"
  shows "length (pack25519 a) = 32 \<and> le_val (pack25519 a) = gval a mod p25519 \<and>
    gval (unpack25519 n) = le_val n mod 2 ^ 255 \<and>
    (pack25519 (unpack25519 n) = n \<longleftrightarrow> le_val n < p25519)"
proof -
  have b: "gf_bound (2 ^ 62) (unpack25519 n)" by (rule gf_bound_mono [OF unpack25519_correct(1) [OF assms(1)]]) simp
  note p = pack25519_correct [OF b, unfolded unpack25519_correct(2) [OF assms(1)]]
  have pos: "0 < p25519" "p25519 < 2 ^ 255" by (simp_all add: p25519_def)
  have "pack25519 (unpack25519 n) = n \<longleftrightarrow> le_val n mod 2 ^ 255 mod p25519 = le_val n"
    using le_val_inj [of "pack25519 (unpack25519 n)" n] p assms(1) by auto
  also have "\<dots> \<longleftrightarrow> le_val n < p25519"
    using le_val_bound [of n] pos pos_mod_bound [OF pos(1)] by (metis mod_pos_pos_trivial order_less_trans)
  finally show ?thesis using pack25519_correct [OF assms(2)] unpack25519_correct(2) [OF assms(1)] by simp
qed

theorem pack_unpack_roundtrip_witness:
  "pack25519 (unpack25519 (replicate 32 5)) = replicate 32 5"
proof -
  have "le_val (replicate 32 5) < p25519" by code_simp
  then show ?thesis
    using pack_unpack_roundtrip [of "replicate 32 5" "replicate 16 0"] by (simp add: gf_bound_def)
qed

end
