(* ===== verification/X25519.thy ===== *)
theory X25519
  imports Field25519
begin

text \<open>
  The Diffie-Hellman function of \<open>libs/reticulum-core/src/x25519.rs\<close>: the scalar is clamped, a
  Montgomery ladder of 255 steps runs over four limb lists, and the quotient of two of them is packed.
  The reference is the pseudo-code of RFC 7748, section 5, on integers modulo the prime, with its own
  way of delaying the exchanges; the theory shows that the limb code computes exactly that, on every
  scalar and every point.
\<close>

section \<open>The code\<close>

definition clamp :: "bytes \<Rightarrow> bytes" where
  "clamp scalar =
     (let z = scalar[0 := scalar ! 0 AND 248]
      in z[31 := (z ! 31 AND 127) OR 64])"

definition ladder_core :: "Gf \<Rightarrow> Gf \<times> Gf \<times> Gf \<times> Gf \<Rightarrow> Gf \<times> Gf \<times> Gf \<times> Gf" where
  "ladder_core x = (\<lambda>(a, b, c, d).
     let e1 = gf_add a c;
         a = gf_sub a c;
         c = gf_add b d;
         b = gf_sub b d;
         d = gf_sqr e1;
         f = gf_sqr a;
         a = gf_mul c a;
         c = gf_mul b e1;
         e2 = gf_add a c;
         a = gf_sub a c;
         b = gf_sqr a;
         c = gf_sub d f;
         a = gf_mul c GF_121665;
         a = gf_add a d;
         c = gf_mul c a;
         a = gf_mul d f;
         d = gf_mul b x;
         b = gf_sqr e2
     in (a, b, c, d))"

definition ladder_step :: "Gf \<Rightarrow> bytes \<Rightarrow> nat \<Rightarrow> Gf \<times> Gf \<times> Gf \<times> Gf \<Rightarrow> Gf \<times> Gf \<times> Gf \<times> Gf" where
  "ladder_step x z i = (\<lambda>(a, b, c, d).
     let r = uint (drop_bit (i mod 8) (z ! (i div 8)) AND 1);
         (a, b) = sel25519 a b r;
         (c, d) = sel25519 c d r;
         (a, b, c, d) = ladder_core x (a, b, c, d);
         (a, b) = sel25519 a b r;
         (c, d) = sel25519 c d r
     in (a, b, c, d))"

definition ladder_start :: "Gf \<Rightarrow> Gf \<times> Gf \<times> Gf \<times> Gf" where
  "ladder_start x = ((replicate 16 0)[0 := 1], x, replicate 16 0, (replicate 16 0)[0 := 1])"

definition x25519 :: "bytes \<Rightarrow> bytes \<Rightarrow> bytes" where
  "x25519 scalar point =
     (let z = clamp scalar;
          x = unpack25519 point;
          (a, b, c, d) = fold (ladder_step x z) (rev [0..<255]) (ladder_start x);
          cinv = inv25519 c;
          out = gf_mul a cinv
      in pack25519 out)"

definition x25519_base :: "bytes \<Rightarrow> bytes" where
  "x25519_base scalar = x25519 scalar ((replicate 32 0)[0 := 9])"

section \<open>The reference\<close>

text \<open>Arithmetic modulo the prime, always fully reduced.\<close>

definition fadd :: "int \<Rightarrow> int \<Rightarrow> int" where
  "fadd a b = (a + b) mod p25519"

definition fsub :: "int \<Rightarrow> int \<Rightarrow> int" where
  "fsub a b = (a - b) mod p25519"

definition fmul :: "int \<Rightarrow> int \<Rightarrow> int" where
  "fmul a b = (a * b) mod p25519"

definition fpow :: "int \<Rightarrow> nat \<Rightarrow> int" where
  "fpow a n = a ^ n mod p25519"

definition decodeScalar25519 :: "bytes \<Rightarrow> int" where
  "decodeScalar25519 k = set_bit 254 (push_bit 3 (take_bit 251 (drop_bit 3 (le_val k))))"

definition decodeUCoordinate :: "bytes \<Rightarrow> int" where
  "decodeUCoordinate u = le_val u mod 2 ^ 255 mod p25519"

definition cswap :: "bool \<Rightarrow> 'a \<Rightarrow> 'a \<Rightarrow> 'a \<times> 'a" where
  "cswap swap x y = (if swap then (y, x) else (x, y))"

definition rfc_core :: "int \<Rightarrow> int \<Rightarrow> int \<Rightarrow> int \<Rightarrow> int \<Rightarrow> int \<times> int \<times> int \<times> int" where
  "rfc_core x1 x2 z2 x3 z3 =
     (let A = fadd x2 z2; AA = fmul A A;
          B = fsub x2 z2; BB = fmul B B;
          E = fsub AA BB;
          C = fadd x3 z3; D = fsub x3 z3;
          DA = fmul D A; CB = fmul C B;
          s = fadd DA CB; m = fsub DA CB
      in (fmul AA BB, fmul E (fadd AA (fmul 121665 E)), fmul s s, fmul x1 (fmul m m)))"

definition rfc_step :: "int \<Rightarrow> int \<Rightarrow> nat \<Rightarrow> int \<times> int \<times> int \<times> int \<times> bool \<Rightarrow> int \<times> int \<times> int \<times> int \<times> bool" where
  "rfc_step x1 k t = (\<lambda>(x2, z2, x3, z3, swap).
     let kt = (k div 2 ^ t mod 2 = 1);
         swap = (swap \<noteq> kt);
         (x2, x3) = cswap swap x2 x3;
         (z2, z3) = cswap swap z2 z3;
         (x2, z2, x3, z3) = rfc_core x1 x2 z2 x3 z3
     in (x2, z2, x3, z3, kt))"

definition rfc_x25519 :: "int \<Rightarrow> int \<Rightarrow> int" where
  "rfc_x25519 k u =
     (let (x2, z2, x3, z3, swap) = fold (rfc_step u k) (rev [0..<255]) (1, 0, u, 1, False);
          (x2, x3) = cswap swap x2 x3;
          (z2, z3) = cswap swap z2 z3
      in fmul x2 (fpow z2 (nat (p25519 - 2))))"

section \<open>Limbs against integers\<close>

text \<open>What a limb list stands for, fully reduced; and the class of lists the ladder keeps.\<close>

definition fval :: "Gf \<Rightarrow> int" where
  "fval a = gval a mod p25519"

definition tight :: "Gf \<Rightarrow> bool" where
  "tight a \<longleftrightarrow> gf_bound (2 ^ 17) a"

definition mid :: "Gf \<Rightarrow> bool" where
  "mid a \<longleftrightarrow> gf_bound (2 ^ 18) a"

definition loose :: "Gf \<Rightarrow> bool" where
  "loose a \<longleftrightarrow> gf_bound (2 ^ 20) a"

lemma tight_mid [simp]: "tight a \<Longrightarrow> mid a"
  unfolding tight_def mid_def by (erule gf_bound_mono) simp

lemma mid_loose [simp]: "mid a \<Longrightarrow> loose a"
  unfolding mid_def loose_def by (erule gf_bound_mono) simp

lemma tight_length: "tight a \<Longrightarrow> length a = 16"
  by (simp add: tight_def gf_bound_def)

lemma mul_tight [simp]: "loose a \<Longrightarrow> loose b \<Longrightarrow> tight (gf_mul a b)"
  unfolding tight_def loose_def by (rule gf_red_bound [OF gf_mul_correct(1)])

lemma add_mid [simp]: "tight a \<Longrightarrow> tight b \<Longrightarrow> mid (gf_add a b)"
  using gf_add_correct(1) [of "2 ^ 17" a "2 ^ 17" b] by (simp add: tight_def mid_def)

lemma sub_mid [simp]: "tight a \<Longrightarrow> tight b \<Longrightarrow> mid (gf_sub a b)"
  using gf_sub_correct(1) [of "2 ^ 17" a "2 ^ 17" b] by (simp add: tight_def mid_def)

lemma add_loose [simp]: "mid a \<Longrightarrow> mid b \<Longrightarrow> loose (gf_add a b)"
  using gf_bound_mono [OF gf_add_correct(1) [of "2 ^ 18" a "2 ^ 18" b], of "2 ^ 20"] by (simp add: mid_def loose_def)

lemma sub_loose [simp]: "mid a \<Longrightarrow> mid b \<Longrightarrow> loose (gf_sub a b)"
  using gf_bound_mono [OF gf_sub_correct(1) [of "2 ^ 18" a "2 ^ 18" b], of "2 ^ 20"] by (simp add: mid_def loose_def)

lemma inv_tight [simp]: "loose a \<Longrightarrow> tight (inv25519 a)"
  unfolding tight_def loose_def by (rule gf_red_bound [OF inv25519_correct(1)])

lemma fval_mul [simp]: "loose a \<Longrightarrow> loose b \<Longrightarrow> fval (gf_mul a b) = fmul (fval a) (fval b)"
  unfolding fval_def fmul_def mod_mult_eq loose_def by (rule gf_mul_correct(2))

lemma fval_add [simp]: "mid a \<Longrightarrow> mid b \<Longrightarrow> fval (gf_add a b) = fadd (fval a) (fval b)"
  using gf_add_correct(2) [of "2 ^ 18" a "2 ^ 18" b] by (simp add: mid_def fval_def fadd_def mod_add_eq)

lemma fval_sub [simp]: "mid a \<Longrightarrow> mid b \<Longrightarrow> fval (gf_sub a b) = fsub (fval a) (fval b)"
  using gf_sub_correct(2) [of "2 ^ 18" a "2 ^ 18" b] by (simp add: mid_def fval_def fsub_def mod_diff_eq)

lemma fval_inv [simp]: "loose a \<Longrightarrow> fval (inv25519 a) = fpow (fval a) (nat (p25519 - 2))"
  unfolding fval_def fpow_def power_mod loose_def by (rule inv25519_correct(2))

lemma const_121665 [simp]: "loose GF_121665" "fval GF_121665 = 121665"
  by (simp_all add: GF_121665_def loose_def gf_bound_def fval_def p25519_def)

lemma fsub_square: "fmul (fsub a b) (fsub a b) = fmul (fsub b a) (fsub b a)"
  unfolding fmul_def fsub_def mod_mult_eq by (simp add: algebra_simps)

lemma fmul_commute: "fmul a b = fmul b a"
  by (simp add: fmul_def mult.commute)

lemma fadd_commute: "fadd a b = fadd b a"
  by (simp add: fadd_def add.commute)

lemma ladder_core_correct:
  assumes "tight x" "tight a" "tight b" "tight c" "tight d" "ladder_core x (a, b, c, d) = (a', b', c', d')"
  shows "tight a'" "tight b'" "tight c'" "tight d'"
    "rfc_core (fval x) (fval a) (fval c) (fval b) (fval d) = (fval a', fval c', fval b', fval d')"
proof -
  note core = assms(6) [symmetric, unfolded ladder_core_def gf_sqr_def Let_def case_prod_conv prod.inject]
  show "tight a'" "tight b'" "tight c'" "tight d'" using assms(1-5) by (simp_all add: core)
  show "rfc_core (fval x) (fval a) (fval c) (fval b) (fval d) = (fval a', fval c', fval b', fval d')"
    using assms(1-5) unfolding rfc_core_def Let_def prod.inject
    by (simp add: core fsub_square [of "fmul (fadd (fval b) (fval d)) (fsub (fval a) (fval c))"] fmul_commute fadd_commute)
qed

section \<open>The scalar's bits\<close>

lemma bit_le_val: "bit (le_val bs) n \<longleftrightarrow> n < 8 * length bs \<and> bit (bs ! (n div 8)) (n mod 8)"
proof (induction bs arbitrary: n)
  case (Cons b bs)
  have b: "m < 8" if "bit b m" for m using bit_imp_le_length [OF that] by simp
  then have "uint b AND push_bit 8 (le_val bs) = 0" by (intro bit_eqI) (force simp: bit_simps)
  then have "uint b + push_bit 8 (le_val bs) = uint b OR push_bit 8 (le_val bs)" by (rule disjunctive_add_eq_or)
  then have "le_val (b # bs) = uint b OR push_bit 8 (le_val bs)" by (simp add: push_bit_eq_mult mult.commute)
  then have "bit (le_val (b # bs)) n \<longleftrightarrow> n < 8 \<and> bit b n \<or> 8 \<le> n \<and> bit (le_val bs) (n - 8)"
    using b by (auto simp: bit_simps)
  also have "\<dots> \<longleftrightarrow> n < 8 * length (b # bs) \<and> bit ((b # bs) ! (n div 8)) (n mod 8)"
  proof (cases "n < 8")
    case False
    then obtain m where "n = m + 8" using le_Suc_ex [of 8 n] by (auto simp: add.commute)
    moreover have "(m + 8) div 8 = Suc (m div 8)" by simp
    ultimately show ?thesis using Cons.IH [of m] by (simp only:) simp
  qed simp
  finally show ?case .
qed simp

lemma bit_byte_masks:
  assumes "n < 8"
  shows "bit (248 :: int) n \<longleftrightarrow> 3 \<le> n" "bit (127 :: int) n \<longleftrightarrow> n < 7" "bit (64 :: int) n \<longleftrightarrow> n = 6"
proof -
  have "n \<in> {0, 1, 2, 3, 4, 5, 6, 7}" using assms by auto
  then show "bit (248 :: int) n \<longleftrightarrow> 3 \<le> n" "bit (127 :: int) n \<longleftrightarrow> n < 7" "bit (64 :: int) n \<longleftrightarrow> n = 6" by auto
qed

lemma clamp_decode:
  assumes "length k = 32"
  shows "le_val (clamp k) = decodeScalar25519 k"
proof (rule bit_eqI)
  fix n :: nat
  have cl: "length (clamp k) = 32" by (simp add: clamp_def Let_def assms)
  consider "n < 8" | "8 \<le> n" "n < 248" | "248 \<le> n" "n < 256" | "256 \<le> n" by linarith
  then show "bit (le_val (clamp k)) n \<longleftrightarrow> bit (decodeScalar25519 k) n"
  proof cases
    case 1
    then show ?thesis
      by (auto simp: bit_le_val assms cl decodeScalar25519_def bit_simps clamp_def Let_def bit_byte_masks)
  next
    case 2
    then have "n div 8 \<noteq> 0" "n div 8 \<noteq> 31" by simp_all
    with 2 show ?thesis by (auto simp: bit_le_val assms cl decodeScalar25519_def bit_simps clamp_def Let_def)
  next
    case 3
    define j where "j = n - 248"
    have j: "n = 248 + j" "j < 8" using 3 by (simp_all add: j_def)
    have "n = j + 31 * 8" using j(1) by simp
    then have "n mod 8 = j" "n div 8 = 31" using j(2) by (simp only: mod_mult_self1 mod_less, simp)
    then show ?thesis using j(2)
      by (auto simp: j(1) bit_le_val assms cl decodeScalar25519_def bit_simps clamp_def Let_def bit_byte_masks)
  next
    case 4
    then show ?thesis by (simp add: bit_le_val assms cl decodeScalar25519_def bit_simps)
  qed
qed

text \<open>The bit the loop reads is the bit the reference reads.\<close>

lemma ladder_bit:
  assumes "i < 8 * length z"
  shows "uint (drop_bit (i mod 8) (z ! (i div 8)) AND 1) = (if le_val z div 2 ^ i mod 2 = 1 then 1 else 0)"
proof -
  have "le_val z div 2 ^ i mod 2 = 1 \<longleftrightarrow> bit (z ! (i div 8)) (i mod 8)"
    using bit_le_val [of z i] assms by (simp add: bit_iff_odd odd_iff_mod_2_eq_one)
  moreover have "uint (drop_bit j w AND 1) = (if bit w j then 1 else 0)" for w :: u8 and j
    by (simp add: and_one_eq bit_iff_odd_drop_bit odd_iff_mod_2_eq_one)
  ultimately show ?thesis by simp
qed

section \<open>The ladder refines the reference\<close>

fun ladder_rel :: "Gf \<times> Gf \<times> Gf \<times> Gf \<Rightarrow> int \<times> int \<times> int \<times> int \<times> bool \<Rightarrow> bool" where
  "ladder_rel (a, b, c, d) (x2, z2, x3, z3, swap) \<longleftrightarrow>
     tight a \<and> tight b \<and> tight c \<and> tight d \<and>
     (x2, x3) = cswap swap (fval a) (fval b) \<and> (z2, z3) = cswap swap (fval c) (fval d)"

lemma sel25519_cswap:
  "tight p \<Longrightarrow> tight q \<Longrightarrow> sel25519 p q (if r then 1 else 0) = cswap r p q"
  by (simp add: sel25519_correct tight_length cswap_def)

lemma ladder_step_correct:
  assumes "tight x" "length z = 32" "i < 256" "ladder_rel s t"
  shows "ladder_rel (ladder_step x z i s) (rfc_step (fval x) (le_val z) i t)"
proof -
  obtain a b c d where s: "s = (a, b, c, d)" by (cases s)
  obtain x2 z2 x3 z3 swap where t: "t = (x2, z2, x3, z3, swap)" by (cases t)
  define r where "r = (le_val z div 2 ^ i mod 2 = 1)"
  obtain a1 b1 where ab: "cswap r a b = (a1, b1)" by fastforce
  obtain c1 d1 where cd: "cswap r c d = (c1, d1)" by fastforce
  obtain a2 b2 c2 d2 where core: "ladder_core x (a1, b1, c1, d1) = (a2, b2, c2, d2)" by (metis prod_cases4)
  have tt: "tight a" "tight b" "tight c" "tight d" using assms(4) by (simp_all add: s t)
  have t1: "tight a1" "tight b1" "tight c1" "tight d1" using tt ab cd by (auto simp: cswap_def split: if_splits)
  note lc = ladder_core_correct [OF assms(1) t1(1) t1(2) t1(3) t1(4) core]
  have "uint (drop_bit (i mod 8) (z ! (i div 8)) AND 1) = (if r then 1 else 0)"
    using ladder_bit [of i z] assms(2,3) by (simp add: r_def)
  then have "ladder_step x z i s = (let (a, b) = cswap r a2 b2; (c, d) = cswap r c2 d2 in (a, b, c, d))"
    unfolding ladder_step_def Let_def s by (simp add: sel25519_cswap tt ab cd core lc(1-4) split_beta)
  moreover have "rfc_step (fval x) (le_val z) i t = (fval a2, fval c2, fval b2, fval d2, r)"
    using assms(4) ab cd lc(5) unfolding rfc_step_def Let_def r_def [symmetric] s t
    by (cases swap; cases r) (auto simp: cswap_def)
  ultimately show ?thesis using lc(1-4) by (auto simp: cswap_def)
qed

lemma fold_ladder_step:
  assumes "tight x" "length z = 32"
  shows "\<forall>i\<in>set is. i < 256 \<Longrightarrow> ladder_rel s t \<Longrightarrow>
    ladder_rel (fold (ladder_step x z) is s) (fold (rfc_step (fval x) (le_val z)) is t)"
  by (induction "is" arbitrary: s t) (simp_all add: ladder_step_correct [OF assms])

lemma ladder_start_rel:
  assumes "tight x"
  shows "ladder_rel (ladder_start x) (1, 0, fval x, 1, False)"
proof -
  have "tight ((replicate 16 0)[0 := 1])" "tight (replicate 16 0)" "gval (replicate 16 0) = 0" "gval ((replicate 16 0)[0 := 1]) = 1"
    by (simp_all add: tight_def gf_bound_def numeral_eq_Suc)
  then show ?thesis using assms by (simp add: ladder_start_def cswap_def fval_def p25519_def)
qed

lemma unpack_tight: "length n = 32 \<Longrightarrow> tight (unpack25519 n)"
  unfolding tight_def by (rule gf_bound_mono [OF unpack25519_correct(1)]) simp_all

lemma fval_unpack: "length n = 32 \<Longrightarrow> fval (unpack25519 n) = decodeUCoordinate n"
  by (simp only: fval_def decodeUCoordinate_def unpack25519_correct(2))

lemma x25519_value:
  assumes "length scalar = 32" "length point = 32"
  shows "length (x25519 scalar point) = 32"
    "le_val (x25519 scalar point) = rfc_x25519 (decodeScalar25519 scalar) (decodeUCoordinate point)"
proof -
  let ?x = "unpack25519 point" and ?z = "clamp scalar"
  have z: "length ?z = 32" "le_val ?z = decodeScalar25519 scalar"
    using clamp_decode [OF assms(1)] by (simp_all add: clamp_def Let_def assms)
  obtain a b c d where l: "fold (ladder_step ?x ?z) (rev [0..<255]) (ladder_start ?x) = (a, b, c, d)"
    by (metis prod_cases4)
  obtain x2 z2 x3 z3 swap where r: "fold (rfc_step (fval ?x) (le_val ?z)) (rev [0..<255]) (1, 0, fval ?x, 1, False) = (x2, z2, x3, z3, swap)"
    by (metis prod_cases5)
  have "\<forall>i\<in>set (rev [0..<255]). i < (256::nat)" unfolding set_rev set_upt by auto
  then have rel: "ladder_rel (a, b, c, d) (x2, z2, x3, z3, swap)"
    using fold_ladder_step [OF unpack_tight [OF assms(2)] z(1) _ ladder_start_rel [OF unpack_tight [OF assms(2)]]]
    unfolding l [symmetric] r [symmetric] by blast
  define out where "out = gf_mul a (inv25519 c)"
  have x: "x25519 scalar point = pack25519 out" unfolding x25519_def Let_def l out_def by simp
  have t: "tight out" "tight a" "tight c" using rel by (simp_all add: out_def)
  then have o: "gf_bound (2 ^ 62) out" by (auto simp: tight_def elim: gf_bound_mono)
  show "length (x25519 scalar point) = 32" unfolding x by (rule pack25519_correct(1) [OF o])
  have "le_val (x25519 scalar point) = fmul (fval a) (fpow (fval c) (nat (p25519 - 2)))"
    unfolding x pack25519_correct(2) [OF o] fval_def [symmetric] using t by (simp add: out_def)
  also have "\<dots> = rfc_x25519 (decodeScalar25519 scalar) (decodeUCoordinate point)"
    unfolding rfc_x25519_def z(2) [symmetric] fval_unpack [OF assms(2), symmetric] r Let_def
    using rel by (cases swap) (auto simp: cswap_def)
  finally show "le_val (x25519 scalar point) = rfc_x25519 (decodeScalar25519 scalar) (decodeUCoordinate point)" .
qed

section \<open>Properties\<close>

text \<open>
  C24. For every 32-byte scalar and every 32-byte point, canonical or not, the function returns the 32
  little-endian bytes of the coordinate that the ladder of RFC 7748 computes with integers modulo the
  prime, from the clamped scalar and the coordinate with its top bit dropped; the public key is the
  same function at 9. No 64-bit operation on the way changes the result.\<close>

theorem x25519_rfc7748:
  assumes "length scalar = 32" "length point = 32"
  shows "length (x25519 scalar point) = 32 \<and>
    le_val (x25519 scalar point) = rfc_x25519 (decodeScalar25519 scalar) (decodeUCoordinate point) \<and>
    length (x25519_base scalar) = 32 \<and>
    le_val (x25519_base scalar) = rfc_x25519 (decodeScalar25519 scalar) 9"
proof -
  let ?b = "(replicate 32 0)[0 := 9 :: u8]"
  have "length ?b = 32" "decodeUCoordinate ?b = 9" by code_simp+
  then show ?thesis
    using x25519_value [OF assms] x25519_value [OF assms(1), of ?b] by (simp add: x25519_base_def)
qed

theorem x25519_rfc7748_witness:
  "le_val (x25519 (replicate 32 255) (replicate 32 255)) = rfc_x25519 (2 ^ 255 - 8) 18 \<and>
   le_val (x25519_base (replicate 32 255)) = rfc_x25519 (2 ^ 255 - 8) 9"
proof -
  have "decodeScalar25519 (replicate 32 255) = 2 ^ 255 - 8" "decodeUCoordinate (replicate 32 255) = 18"
    by code_simp+
  then show ?thesis using x25519_rfc7748 [of "replicate 32 255" "replicate 32 255"] by simp
qed

end
