(* ===== verification/Sha512.thy ===== *)
theory Sha512
  imports RustStd
begin

text \<open>
  The SHA-512 of \<open>libs/reticulum-core/src/ed25519.rs\<close>: padding by a loop, the message schedule, eighty
  rounds per block of 128 bytes. A \<open>u64\<close> is a 64-bit word, on which addition wraps as
  \<open>wrapping_add\<close> does.
\<close>

section \<open>The code\<close>

text \<open>The round constants, one row of the source's table per list.\<close>

definition K512 :: "u64 list" where
  "K512 = concat [
    [0x428a2f98d728ae22, 0x7137449123ef65cd, 0xb5c0fbcfec4d3b2f, 0xe9b5dba58189dbbc],
    [0x3956c25bf348b538, 0x59f111f1b605d019, 0x923f82a4af194f9b, 0xab1c5ed5da6d8118],
    [0xd807aa98a3030242, 0x12835b0145706fbe, 0x243185be4ee4b28c, 0x550c7dc3d5ffb4e2],
    [0x72be5d74f27b896f, 0x80deb1fe3b1696b1, 0x9bdc06a725c71235, 0xc19bf174cf692694],
    [0xe49b69c19ef14ad2, 0xefbe4786384f25e3, 0x0fc19dc68b8cd5b5, 0x240ca1cc77ac9c65],
    [0x2de92c6f592b0275, 0x4a7484aa6ea6e483, 0x5cb0a9dcbd41fbd4, 0x76f988da831153b5],
    [0x983e5152ee66dfab, 0xa831c66d2db43210, 0xb00327c898fb213f, 0xbf597fc7beef0ee4],
    [0xc6e00bf33da88fc2, 0xd5a79147930aa725, 0x06ca6351e003826f, 0x142929670a0e6e70],
    [0x27b70a8546d22ffc, 0x2e1b21385c26c926, 0x4d2c6dfc5ac42aed, 0x53380d139d95b3df],
    [0x650a73548baf63de, 0x766a0abb3c77b2a8, 0x81c2c92e47edaee6, 0x92722c851482353b],
    [0xa2bfe8a14cf10364, 0xa81a664bbc423001, 0xc24b8b70d0f89791, 0xc76c51a30654be30],
    [0xd192e819d6ef5218, 0xd69906245565a910, 0xf40e35855771202a, 0x106aa07032bbd1b8],
    [0x19a4c116b8d2d0c8, 0x1e376c085141ab53, 0x2748774cdf8eeb99, 0x34b0bcb5e19b48a8],
    [0x391c0cb3c5c95a63, 0x4ed8aa4ae3418acb, 0x5b9cca4f7763e373, 0x682e6ff3d6b2b8a3],
    [0x748f82ee5defb2fc, 0x78a5636f43172f60, 0x84c87814a1f0ab72, 0x8cc702081a6439ec],
    [0x90befffa23631e28, 0xa4506cebde82bde9, 0xbef9a3f7b2c67915, 0xc67178f2e372532b],
    [0xca273eceea26619c, 0xd186b8c721c0c207, 0xeada7dd6cde0eb1e, 0xf57d4f7fee6ed178],
    [0x06f067aa72176fba, 0x0a637dc5a2c898a6, 0x113f9804bef90dae, 0x1b710b35131c471b],
    [0x28db77f523047d84, 0x32caab7b40c72493, 0x3c9ebe0a15c9bebc, 0x431d67c49c100d4c],
    [0x4cc5d4becb3e42b6, 0x597f299cfc657e2a, 0x5fcb6fab3ad6faec, 0x6c44198c4a475817]]"

definition H512 :: "u64 list" where
  "H512 = [0x6a09e667f3bcc908, 0xbb67ae8584caa73b, 0x3c6ef372fe94f82b, 0xa54ff53a5f1d36f1,
    0x510e527fade682d1, 0x9b05688c2b3e6c1f, 0x1f83d9abfb41bd6b, 0x5be0cd19137e2179]"

text \<open>\<open>u64::rotate_right\<close>, for a distance between 1 and 63, and \<open>u64::from_be_bytes\<close>.\<close>

definition rotr64 :: "nat \<Rightarrow> u64 \<Rightarrow> u64" where
  "rotr64 n w = drop_bit n w OR push_bit (64 - n) w"

definition u64_be :: "bytes \<Rightarrow> u64" where
  "u64_be b = foldl (\<lambda>w x. push_bit 8 w OR ucast x) 0 b"

text \<open>The loop that pushes zeros until sixteen bytes are missing to a block.\<close>

definition zeros_missing :: "nat \<Rightarrow> nat" where
  "zeros_missing n = (240 - n mod 128) mod 128"

lemma zeros_missing_Suc:
  assumes "n mod 128 \<noteq> 112"
  shows "zeros_missing n = Suc (zeros_missing (Suc n))"
proof -
  define r where "r = n mod 128"
  have r: "r < 128" "r \<noteq> 112" using assms by (simp_all add: r_def)
  consider "r < 112" | "112 < r" "r < 127" | "r = 127" using r by linarith
  then show ?thesis
  proof cases
    case 1
    then have "(112 - r + 128) mod 128 = 112 - r" "(111 - r + 128) mod 128 = 111 - r"
      unfolding mod_add_self2 by simp_all
    with 1 show ?thesis by (simp add: zeros_missing_def mod_Suc flip: r_def)
  qed (simp_all add: zeros_missing_def mod_Suc flip: r_def)
qed

function pad_zeros :: "bytes \<Rightarrow> bytes" where
  "pad_zeros msg = (if length msg mod 128 \<noteq> 112 then pad_zeros (msg @ [0]) else msg)"
  by pat_completeness auto
termination
  by (relation "measure (\<lambda>msg. zeros_missing (length msg))") (simp_all add: zeros_missing_Suc)

declare pad_zeros.simps [simp del]

definition sha512_pad :: "bytes \<Rightarrow> bytes" where
  "sha512_pad data = pad_zeros (data @ [0x80]) @ be_bytes 16 (length data * 8)"

definition sha512_extend :: "u64 list \<Rightarrow> nat \<Rightarrow> u64 list" where
  "sha512_extend w i =
     (let s0 = rotr64 1 (w ! (i - 15)) XOR rotr64 8 (w ! (i - 15)) XOR drop_bit 7 (w ! (i - 15));
          s1 = rotr64 19 (w ! (i - 2)) XOR rotr64 61 (w ! (i - 2)) XOR drop_bit 6 (w ! (i - 2))
      in w @ [w ! (i - 16) + s0 + w ! (i - 7) + s1])"

definition sha512_schedule :: "bytes \<Rightarrow> u64 list" where
  "sha512_schedule block =
     foldl sha512_extend (map (\<lambda>i. u64_be (take 8 (drop (i * 8) block))) [0..<16]) [16..<80]"

definition sha512_round :: "u64 list \<Rightarrow> u64 list \<Rightarrow> nat \<Rightarrow> u64 list" where
  "sha512_round w h i =
     (let s1 = rotr64 14 (h ! 4) XOR rotr64 18 (h ! 4) XOR rotr64 41 (h ! 4);
          ch = (h ! 4 AND h ! 5) XOR (NOT (h ! 4) AND h ! 6);
          t1 = h ! 7 + s1 + ch + K512 ! i + w ! i;
          s0 = rotr64 28 (h ! 0) XOR rotr64 34 (h ! 0) XOR rotr64 39 (h ! 0);
          maj = (h ! 0 AND h ! 1) XOR (h ! 0 AND h ! 2) XOR (h ! 1 AND h ! 2);
          t2 = s0 + maj
      in [t1 + t2, h ! 0, h ! 1, h ! 2, h ! 3 + t1, h ! 4, h ! 5, h ! 6])"

definition sha512_block :: "u64 list \<Rightarrow> bytes \<Rightarrow> u64 list" where
  "sha512_block h block =
     (let v = foldl (sha512_round (sha512_schedule block)) h [0..<80]
      in map (\<lambda>i. h ! i + v ! i) [0..<8])"

definition sha512 :: "bytes \<Rightarrow> bytes" where
  "sha512 data =
     (let h = foldl sha512_block H512 (chunks_exact 128 (sha512_pad data))
      in concat (map (\<lambda>i. be_bytes 8 (unat (h ! i))) [0..<8]))"

section \<open>Padding\<close>

lemma pad_zeros_eq: "pad_zeros msg = msg @ replicate (zeros_missing (length msg)) 0"
proof (induction msg rule: pad_zeros.induct)
  case (1 msg)
  show ?case
  proof (cases "length msg mod 128 = 112")
    case True
    then show ?thesis by (simp add: pad_zeros.simps [of msg] zeros_missing_def)
  next
    case False
    with 1 [OF False] show ?thesis
      by (simp add: pad_zeros.simps [of msg] zeros_missing_Suc [of "length msg"] replicate_append_same)
  qed
qed

lemma length_pad_zeros: "length (pad_zeros msg) mod 128 = 112"
proof (induction msg rule: pad_zeros.induct)
  case (1 msg)
  then show ?case by (cases "length msg mod 128 = 112") (simp_all add: pad_zeros.simps [of msg])
qed

lemma length_sha512 [simp]: "length (sha512 data) = 64"
  by (simp add: sha512_def length_concat comp_def sum_list_triv)

end
