(* ===== verification/GroupOrder.thy ===== *)
theory GroupOrder
  imports Field25519
begin

text \<open>
  Reduction modulo the order of the Ed25519 group: \<open>modl\<close> and \<open>reduce\<close> of
  \<open>libs/reticulum-core/src/ed25519.rs\<close>. A number is 64 signed digits of radix 256; the order is
  \<open>2 ^ 252\<close> and a bit, so the upper digits are folded down one by one with signed carries, and what
  remains is corrected by one multiple of the order and one more. The theory shows that the bytes
  returned are the remainder, exactly, and that no 64-bit operation wraps on the way.
\<close>

section \<open>The code\<close>

definition ED_L :: "int list" where
  "ED_L = [0xed, 0xd3, 0xf5, 0x5c, 0x1a, 0x63, 0x12, 0x58, 0xd6, 0x9c, 0xf7, 0xa2, 0xde, 0xf9, 0xde, 0x14]
     @ replicate 15 0 @ [0x10]"

text \<open>\<open>modl\<close>: the four loops, on 64 signed values and the 32 bytes of the result.\<close>

definition modl_inner :: "nat \<Rightarrow> nat \<Rightarrow> int list \<times> int \<Rightarrow> int list \<times> int" where
  "modl_inner i j = (\<lambda>(x, carry).
     let x = x[j := wrap64 (x ! j + wrap64 (carry - wrap64 (wrap64 (16 * x ! i) * ED_L ! (j - (i - 32)))))];
         carry = wrap64 (x ! j + 128) div 2 ^ 8
     in (x[j := wrap64 (x ! j - wrap64 (carry * 2 ^ 8))], carry))"

definition modl_outer :: "nat \<Rightarrow> int list \<Rightarrow> int list" where
  "modl_outer i x =
     (let (x, carry) = fold (modl_inner i) [i - 32..<i - 12] (x, 0);
          x = x[i - 12 := wrap64 (x ! (i - 12) + carry)]
      in x[i := 0])"

definition modl_sub :: "nat \<Rightarrow> int list \<times> int \<Rightarrow> int list \<times> int" where
  "modl_sub j = (\<lambda>(x, carry).
     let x = x[j := wrap64 (x ! j + wrap64 (carry - wrap64 (x ! 31 div 2 ^ 4 * ED_L ! j)))];
         carry = x ! j div 2 ^ 8
     in (x[j := x ! j AND 255], carry))"

definition modl_fix :: "int \<Rightarrow> nat \<Rightarrow> int list \<Rightarrow> int list" where
  "modl_fix carry j x = x[j := wrap64 (x ! j - wrap64 (carry * ED_L ! j))]"

definition modl_out :: "nat \<Rightarrow> int list \<times> bytes \<Rightarrow> int list \<times> bytes" where
  "modl_out i = (\<lambda>(x, r).
     let x = x[i + 1 := wrap64 (x ! (i + 1) + x ! i div 2 ^ 8)]
     in (x, r[i := word_of_int (x ! i AND 255)]))"

definition modl :: "int list \<Rightarrow> bytes" where
  "modl x =
     (let x = fold modl_outer (rev [32..<64]) x;
          (x, carry) = fold modl_sub [0..<32] (x, 0);
          x = fold (modl_fix carry) [0..<32] x
      in snd (fold modl_out [0..<32] (x, replicate 32 0)))"

definition reduce :: "bytes \<Rightarrow> bytes" where
  "reduce h = modl (map uint h)"

section \<open>Digits of radix 256\<close>

definition ed_order :: int where
  "ed_order = 2 ^ 252 + 27742317777372353535851937790883648493"

fun bval :: "int list \<Rightarrow> int" where
  "bval [] = 0"
| "bval (x # xs) = x + 256 * bval xs"

lemma bval_append: "bval (xs @ ys) = bval xs + 256 ^ length xs * bval ys"
  by (induction xs) (simp_all add: algebra_simps)

lemma bval_update: "k < length x \<Longrightarrow> bval (x[k := v]) = bval x + (v - x ! k) * 256 ^ k"
proof (induction x arbitrary: k)
  case (Cons y x)
  show ?case
  proof (cases k)
    case (Suc n)
    then have "bval (x[n := v]) = bval x + (v - x ! n) * 256 ^ n" using Cons by simp
    then show ?thesis by (simp add: Suc algebra_simps)
  qed simp
qed simp

lemma bval_take_Suc: "k < length x \<Longrightarrow> bval (take (Suc k) x) = bval (take k x) + x ! k * 256 ^ k"
  by (simp add: take_Suc_conv_app_nth bval_append)

lemma bval_zero: "\<forall>x\<in>set xs. x = 0 \<Longrightarrow> bval xs = 0"
  by (induction xs) simp_all

lemma bval_uint: "bval (map uint bs) = le_val bs"
  by (induction bs) simp_all

lemma bval_bounds:
  "\<forall>x\<in>set xs. a \<le> x \<and> x \<le> b \<Longrightarrow>
   a * (256 ^ length xs - 1) \<le> 255 * bval xs \<and> 255 * bval xs \<le> b * (256 ^ length xs - 1)"
proof (induction xs)
  case (Cons x xs)
  then show ?case by (auto simp: algebra_simps)
qed simp

lemma ED_L_facts:
  "length ED_L = 32" "bval ED_L = ed_order" "bval (take 20 ED_L) = ed_order - 2 ^ 252"
  "ED_L ! 31 = 16"
  by code_simp+

lemma ED_L_range: "k < 32 \<Longrightarrow> 0 \<le> ED_L ! k \<and> ED_L ! k \<le> 255"
proof -
  have "\<forall>l\<in>set ED_L. 0 \<le> l \<and> l \<le> 255" by (simp add: ED_L_def)
  then show "k < 32 \<Longrightarrow> 0 \<le> ED_L ! k \<and> ED_L ! k \<le> 255" using ED_L_facts(1) by simp
qed

lemma ED_L_zero: "16 \<le> k \<Longrightarrow> k < 31 \<Longrightarrow> ED_L ! k = 0"
  by (simp add: ED_L_def nth_append)

section \<open>Folding down one digit\<close>

definition signed_digit :: "int \<Rightarrow> bool" where
  "signed_digit y \<longleftrightarrow> - 128 \<le> y \<and> y < 128"

lemma signed_step:
  fixes w :: int
  shows "signed_digit (w - 256 * ((w + 128) div 256))"
  using pos_mod_bound [of 256 "w + 128"] pos_mod_sign [of 256 "w + 128"]
  unfolding signed_digit_def minus_mult_div_eq_mod [symmetric] by auto

lemma div256_bound:
  fixes y K :: int
  assumes "- (256 * K) \<le> y" "y < 256 * K + 256"
  shows "\<bar>y div 256\<bar> \<le> K"
proof -
  have "y div 256 \<le> (K * 256 + 255) div 256" using assms by (intro zdiv_mono1) auto
  moreover have "(- K * 256) div 256 \<le> y div 256" using assms by (intro zdiv_mono1) auto
  ultimately show ?thesis by (simp add: abs_le_iff)
qed

lemma modl_inner_step:
  assumes "length x = 64" "j < i - 12" "i - 32 \<le> j" "32 \<le> i" "i < 64"
    and B: "1 \<le> B" "B \<le> 2 ^ 28"
    and b: "\<bar>x ! j\<bar> \<le> B" "\<bar>x ! i\<bar> \<le> B" "\<bar>c\<bar> \<le> 32 * B"
  defines "w \<equiv> x ! j + c - 16 * x ! i * ED_L ! (j - (i - 32))"
  shows "modl_inner i j (x, c) = (x[j := w - 256 * ((w + 128) div 256)], (w + 128) div 256)"
    "\<bar>(w + 128) div 256\<bar> \<le> 32 * B"
proof -
  define l where "l = ED_L ! (j - (i - 32))"
  have l: "0 \<le> l" "l \<le> 255" using ED_L_range [of "j - (i - 32)"] assms(2-5) by (simp_all add: l_def)
  have p: "\<bar>16 * x ! i * l\<bar> \<le> 16 * B * 255"
    using prod_bound [of "16 * x ! i" "16 * B" l 255] b(2) l by simp
  have w: "\<bar>w\<bar> \<le> 4113 * B" using p b(1,3) by (simp add: w_def l_def)
  then show k: "\<bar>(w + 128) div 256\<bar> \<le> 32 * B" using B by (intro div256_bound) auto
  have w41: "\<bar>w\<bar> \<le> 2 ^ 41" using w B(2) by simp
  have k33: "\<bar>(w + 128) div 256\<bar> \<le> 2 ^ 33" using k B(2) by simp
  have "\<bar>16 * x ! i * l\<bar> \<le> 2 ^ 40" using p B(2) by simp
  moreover have "\<bar>16 * x ! i\<bar> \<le> 2 ^ 40" using b(2) B(2) by simp
  ultimately have p1: "wrap64 (wrap64 (16 * x ! i) * l) = 16 * x ! i * l" by (simp add: wrap64_abs)
  have p2: "x ! j + (c - 16 * x ! i * l) = w" by (simp add: w_def l_def)
  have "wrap64 w = w" using w41 by (intro wrap64_abs) simp
  then have e: "wrap64 (x ! j + wrap64 (c - wrap64 (wrap64 (16 * x ! i) * l))) = w"
    by (simp only: p1 p2 wrap64_add_right)
  moreover have "wrap64 (w + 128) = w + 128" using w41 by (intro wrap64_abs) simp
  moreover have "wrap64 ((w + 128) div 256 * 256) = (w + 128) div 256 * 256"
    using k33 by (intro wrap64_abs) (simp add: abs_mult)
  moreover have "wrap64 (w - (w + 128) div 256 * 256) = w - 256 * ((w + 128) div 256)"
    using signed_step [of w] by (simp add: signed_digit_def wrap64_abs mult.commute)
  ultimately show "modl_inner i j (x, c) = (x[j := w - 256 * ((w + 128) div 256)], (w + 128) div 256)"
    using assms(1,2,5) unfolding modl_inner_def Let_def case_prod_conv l_def [symmetric] e by simp
qed

text \<open>After \<open>k\<close> steps of the inner loop: the digits passed are signed digits, the value moved by a
  multiple of the order's low digits, and the carry has settled once the order's digits are zero.\<close>

definition inner_inv :: "int \<Rightarrow> nat \<Rightarrow> int list \<Rightarrow> nat \<Rightarrow> int list \<times> int \<Rightarrow> bool" where
  "inner_inv B i x k = (\<lambda>(x', c). length x' = 64 \<and>
     (\<forall>j. \<not> (i - 32 \<le> j \<and> j < i - 32 + k) \<longrightarrow> x' ! j = x ! j) \<and>
     (\<forall>j. i - 32 \<le> j \<and> j < i - 32 + k \<longrightarrow> signed_digit (x' ! j)) \<and> \<bar>c\<bar> \<le> 32 * B \<and>
     bval x' + c * 256 ^ (i - 32 + k) = bval x - 16 * x ! i * bval (take k ED_L) * 256 ^ (i - 32) \<and>
     (16 \<le> k \<longrightarrow> (\<forall>j. i - 16 \<le> j \<and> j < i - 12 \<longrightarrow> signed_digit (x ! j)) \<longrightarrow> \<bar>c\<bar> \<le> 2 ^ (33 - 8 * (k - 16))))"

lemma settle_step:
  fixes y d :: int
  assumes "signed_digit y" "\<bar>d\<bar> \<le> 256 * K"
  shows "\<bar>(y + d + 128) div 256\<bar> \<le> K"
  using assms by (intro div256_bound) (auto simp: signed_digit_def)

lemma inner_inv_step:
  assumes "length x = 64" "32 \<le> i" "i < 64" "1 \<le> B" "B \<le> 2 ^ 28" "\<forall>j\<le>i. \<bar>x ! j\<bar> \<le> B" "k < 20" "inner_inv B i x k (y, d)"
  shows "inner_inv B i x (Suc k) (modl_inner i (i - 32 + k) (y, d))"
proof -
  define j where "j = i - 32 + k"
  define w where "w = x ! j + d - 16 * x ! i * ED_L ! k"
  have j: "j < i - 12" "i - 32 \<le> j" "j - (i - 32) = k" using assms(2,7) by (simp_all add: j_def)
  have y: "length y = 64" "y ! j = x ! j" "y ! i = x ! i" "\<bar>d\<bar> \<le> 32 * B"
    using assms(2,7,8) by (simp_all add: inner_inv_def j_def)
  have "\<bar>x ! j\<bar> \<le> B" "\<bar>x ! i\<bar> \<le> B" using assms(6) j(1) by simp_all
  note st = modl_inner_step [OF y(1) j(1,2) assms(2,3,4,5), of d, unfolded y(2,3) j(3), folded w_def, OF this y(4)]
  define c where "c = (w + 128) div 256"
  have eq: "modl_inner i (i - 32 + k) (y, d) = (y[j := w - 256 * c], c)" using st(1) by (simp add: j_def c_def)
  have val: "bval (y[j := w - 256 * c]) + c * 256 ^ Suc j = bval y + d * 256 ^ j - 16 * x ! i * ED_L ! k * 256 ^ j"
    using y j(1) assms(3) by (simp add: bval_update w_def algebra_simps)
  have tk: "bval (take (Suc k) ED_L) = bval (take k ED_L) + ED_L ! k * 256 ^ k"
    using assms(7) by (intro bval_take_Suc) (simp add: ED_L_facts)
  have "bval y + d * 256 ^ j = bval x - 16 * x ! i * bval (take k ED_L) * 256 ^ (i - 32)"
    using assms(8) by (simp add: inner_inv_def j_def)
  then have v: "bval (y[j := w - 256 * c]) + c * 256 ^ Suc j =
      bval x - 16 * x ! i * bval (take (Suc k) ED_L) * 256 ^ (i - 32)"
    unfolding val tk by (simp add: j_def power_add algebra_simps)
  have settle: "\<bar>c\<bar> \<le> 2 ^ (33 - 8 * (Suc k - 16))"
    if k: "16 \<le> Suc k" and sd: "\<forall>j. i - 16 \<le> j \<and> j < i - 12 \<longrightarrow> signed_digit (x ! j)"
  proof (cases "16 \<le> k")
    case True
    have "\<bar>d\<bar> \<le> 2 ^ (33 - 8 * (k - 16))" using assms(8) True sd by (simp add: inner_inv_def)
    also have "33 - 8 * (k - 16) = 8 + (33 - 8 * (Suc k - 16))" using True assms(7) by simp
    finally have "\<bar>d\<bar> \<le> 256 * 2 ^ (33 - 8 * (Suc k - 16))" by (simp add: power_add)
    moreover have "w = x ! j + d" using ED_L_zero [of k] True assms(7) by (simp add: w_def)
    moreover have "signed_digit (x ! j)" using sd True j(1) assms(2) by (simp add: j_def)
    ultimately show ?thesis by (simp only: c_def settle_step)
  next
    case False
    then have "33 - 8 * (Suc k - 16) = 33" using k by simp
    moreover have "\<bar>c\<bar> \<le> 2 ^ 33" using st(2) assms(5) by (simp add: c_def)
    ultimately show ?thesis by (simp only:)
  qed
  show ?thesis
    unfolding eq inner_inv_def case_prod_conv
  proof (intro conjI allI impI)
    show "length (y[j := w - 256 * c]) = 64" using y by simp
    show "y[j := w - 256 * c] ! m = x ! m" if "\<not> (i - 32 \<le> m \<and> m < i - 32 + Suc k)" for m
      using assms(8) that by (auto simp: inner_inv_def j_def)
    show "signed_digit (y[j := w - 256 * c] ! m)" if "i - 32 \<le> m \<and> m < i - 32 + Suc k" for m
      using assms(8) that signed_step [of w] y(1) j(1) assms(3)
      by (cases "m = j") (auto simp: inner_inv_def j_def c_def)
    show "\<bar>c\<bar> \<le> 32 * B" using st(2) by (simp add: c_def)
    show "bval (y[j := w - 256 * c]) + c * 256 ^ (i - 32 + Suc k) =
        bval x - 16 * x ! i * bval (take (Suc k) ED_L) * 256 ^ (i - 32)" using v by (simp add: j_def)
  qed (rule settle)
qed

lemma inner_inv_loop:
  assumes "length x = 64" "32 \<le> i" "i < 64" "1 \<le> B" "B \<le> 2 ^ 28" "\<forall>j\<le>i. \<bar>x ! j\<bar> \<le> B"
  shows "k \<le> 20 \<Longrightarrow> inner_inv B i x k (fold (modl_inner i) [i - 32..<i - 32 + k] (x, 0))"
proof (induction k)
  case 0
  then show ?case using assms(1,4) by (auto simp: inner_inv_def)
next
  case (Suc k)
  then have "inner_inv B i x k (fold (modl_inner i) [i - 32..<i - 32 + k] (x, 0))" by simp
  with inner_inv_step [OF assms, of k] Suc.prems show ?case
    by (cases "fold (modl_inner i) [i - 32..<i - 32 + k] (x, 0)") simp
qed

text \<open>The value after the whole step for the digit \<open>i\<close>: a multiple of the order is gone, and the digit
  with it.\<close>

lemma modl_outer_step:
  assumes "length x = 64" "32 \<le> i" "i < 64" "1 \<le> B" "B \<le> 2 ^ 28" "\<forall>j\<le>i. \<bar>x ! j\<bar> \<le> B"
  obtains c where "length (modl_outer i x) = 64"
    "\<And>j. j < i - 32 \<or> i - 12 < j \<and> j \<noteq> i \<Longrightarrow> modl_outer i x ! j = x ! j"
    "\<And>j. i - 32 \<le> j \<Longrightarrow> j < i - 12 \<Longrightarrow> signed_digit (modl_outer i x ! j)"
    "modl_outer i x ! (i - 12) = x ! (i - 12) + c" "modl_outer i x ! i = 0" "\<bar>c\<bar> \<le> 32 * B"
    "(\<And>j. i - 16 \<le> j \<Longrightarrow> j < i - 12 \<Longrightarrow> signed_digit (x ! j)) \<Longrightarrow> \<bar>c\<bar> \<le> 2"
    "bval (modl_outer i x) = bval x - 16 * x ! i * ed_order * 256 ^ (i - 32)"
proof -
  have r: "i - 32 + 20 = i - 12" using assms(2) by simp
  obtain y c where yc: "fold (modl_inner i) [i - 32..<i - 12] (x, 0) = (y, c)" by fastforce
  have inv: "inner_inv B i x 20 (y, c)" using inner_inv_loop [OF assms, of 20] by (simp add: r yc)
  have y: "length y = 64" "y ! (i - 12) = x ! (i - 12)" "y ! i = x ! i" "\<bar>c\<bar> \<le> 32 * B"
    using inv assms(2) r by (simp_all add: inner_inv_def)
  have "\<bar>x ! (i - 12)\<bar> \<le> B" using assms(6) by simp
  then have "wrap64 (x ! (i - 12) + c) = x ! (i - 12) + c" using y(4) assms(5) by (intro wrap64_abs) simp
  then have m: "modl_outer i x = y[i - 12 := x ! (i - 12) + c, i := 0]"
    unfolding modl_outer_def Let_def yc case_prod_conv y(2) by simp
  have n: "i - 12 \<noteq> i" "i - 12 < 64" using assms(2,3) by simp_all
  have "256 ^ (i - 32 + 32) = (256 :: int) ^ (i - 32) * 2 ^ 256" unfolding power_add by simp
  then have pw: "256 ^ i = (256 :: int) ^ (i - 32) * 2 ^ 256" using assms(2) by simp
  have "bval (modl_outer i x) = bval y + c * 256 ^ (i - 12) - x ! i * 256 ^ i"
    using y n assms(3) by (simp add: m bval_update)
  also have "\<dots> = bval x - 16 * x ! i * (ed_order - 2 ^ 252) * 256 ^ (i - 32) - x ! i * 256 ^ i"
    using inv r by (simp add: inner_inv_def ED_L_facts)
  also have "\<dots> = bval x - 16 * x ! i * ed_order * 256 ^ (i - 32)"
    unfolding pw by (simp add: algebra_simps)
  finally have v: "bval (modl_outer i x) = bval x - 16 * x ! i * ed_order * 256 ^ (i - 32)" .
  show thesis
  proof (rule that [of c])
    show "length (modl_outer i x) = 64" "modl_outer i x ! (i - 12) = x ! (i - 12) + c" "modl_outer i x ! i = 0"
      using y n assms(3) by (simp_all add: m)
    show "modl_outer i x ! j = x ! j" if "j < i - 32 \<or> i - 12 < j \<and> j \<noteq> i" for j
      using inv that r by (auto simp: m inner_inv_def)
    show "signed_digit (modl_outer i x ! j)" if "i - 32 \<le> j" "j < i - 12" for j
      using inv that r by (auto simp: m inner_inv_def)
    show "\<bar>c\<bar> \<le> 2" if "\<And>j. i - 16 \<le> j \<Longrightarrow> j < i - 12 \<Longrightarrow> signed_digit (x ! j)"
      using inv that by (simp add: inner_inv_def)
  qed (use y v in simp_all)
qed

definition outer_inv :: "nat \<Rightarrow> int list \<Rightarrow> bool" where
  "outer_inv i x \<longleftrightarrow> length x = 64 \<and> (\<forall>j. i < j \<and> j < 64 \<longrightarrow> x ! j = 0) \<and>
     (\<forall>j. i - 31 \<le> j \<and> j \<le> i - 12 \<longrightarrow> signed_digit (x ! j)) \<and>
     (\<forall>j. i - 12 < j \<and> j \<le> i \<and> j \<le> 50 \<longrightarrow> - 130 \<le> x ! j \<and> x ! j \<le> 129) \<and>
     (\<forall>j\<le>i. \<bar>x ! j\<bar> \<le> 2 ^ 28)"

lemma signed_digit_bound: "signed_digit y \<Longrightarrow> \<bar>y\<bar> \<le> 2 ^ 28"
  by (auto simp: signed_digit_def)

lemma outer_inv_first:
  assumes "length x = 64" "\<forall>y\<in>set x. \<bar>y\<bar> \<le> 2 ^ 22"
  shows "outer_inv 62 (modl_outer 63 x)"
proof -
  have b: "\<bar>x ! j\<bar> \<le> 2 ^ 22" if "j < 64" for j using assms that by simp
  obtain c where m: "length (modl_outer 63 x) = 64"
    "\<And>j. j < 31 \<or> 51 < j \<and> j \<noteq> 63 \<Longrightarrow> modl_outer 63 x ! j = x ! j"
    "\<And>j. 31 \<le> j \<Longrightarrow> j < 51 \<Longrightarrow> signed_digit (modl_outer 63 x ! j)"
    "modl_outer 63 x ! 51 = x ! 51 + c" "modl_outer 63 x ! 63 = 0" "\<bar>c\<bar> \<le> 32 * 2 ^ 22"
    by (rule modl_outer_step [of x 63 "2 ^ 22"]) (use assms(1) b in simp_all)
  have "\<bar>modl_outer 63 x ! j\<bar> \<le> 2 ^ 28" if "j \<le> 62" for j
  proof -
    consider "j < 31 \<or> 51 < j" | "31 \<le> j" "j < 51" | "j = 51" by linarith
    then show ?thesis
    proof cases
      case 1
      then show ?thesis using m(2) [of j] b [of j] that by simp
    next
      case 2
      then show ?thesis using signed_digit_bound [OF m(3)] by simp
    next
      case 3
      then show ?thesis using m(4,6) b [of 51] by simp
    qed
  qed
  moreover have "modl_outer 63 x ! j = 0" if "62 < j \<and> j < 64" for j
  proof -
    have "j = 63" using that by simp
    then show ?thesis using m(5) by simp
  qed
  ultimately show ?thesis using m(1,3) by (auto simp: outer_inv_def)
qed

lemma outer_inv_step:
  assumes "outer_inv i x" "32 \<le> i" "i \<le> 62"
  shows "outer_inv (i - 1) (modl_outer i x)" "bval (modl_outer i x) mod ed_order = bval x mod ed_order"
proof -
  have x: "length x = 64" "\<And>j. i < j \<Longrightarrow> j < 64 \<Longrightarrow> x ! j = 0" "\<And>j. i - 31 \<le> j \<Longrightarrow> j \<le> i - 12 \<Longrightarrow> signed_digit (x ! j)"
    "\<And>j. i - 12 < j \<Longrightarrow> j \<le> i \<Longrightarrow> j \<le> 50 \<Longrightarrow> - 130 \<le> x ! j \<and> x ! j \<le> 129" "\<forall>j\<le>i. \<bar>x ! j\<bar> \<le> 2 ^ 28"
    using assms(1) by (simp_all add: outer_inv_def)
  have i: "i < 64" using assms(3) by simp
  have sd: "signed_digit (x ! j)" if "i - 16 \<le> j" "j < i - 12" for j using x(3) that by simp
  obtain c where m: "length (modl_outer i x) = 64"
    "\<And>j. j < i - 32 \<or> i - 12 < j \<and> j \<noteq> i \<Longrightarrow> modl_outer i x ! j = x ! j"
    "\<And>j. i - 32 \<le> j \<Longrightarrow> j < i - 12 \<Longrightarrow> signed_digit (modl_outer i x ! j)"
    "modl_outer i x ! (i - 12) = x ! (i - 12) + c" "modl_outer i x ! i = 0" and c: "\<bar>c\<bar> \<le> 2"
    and v: "bval (modl_outer i x) = bval x - 16 * x ! i * ed_order * 256 ^ (i - 32)"
    by (rule modl_outer_step [OF x(1) assms(2) i _ _ x(5)]) (use sd in auto)
  have "signed_digit (x ! (i - 12))" by (rule x(3)) simp_all
  then have top: "- 130 \<le> modl_outer i x ! (i - 12)" "modl_outer i x ! (i - 12) \<le> 129"
    using m(4) c by (auto simp: signed_digit_def)
  show "outer_inv (i - 1) (modl_outer i x)"
    unfolding outer_inv_def
  proof (intro conjI allI impI)
    fix j assume j: "i - 1 < j \<and> j < 64"
    then have "j = i \<or> i < j \<and> i - 12 < j \<and> j \<noteq> i" using assms(2) by linarith
    then show "modl_outer i x ! j = 0" using m(2) [of j] m(5) x(2) [of j] j by auto
  next
    fix j assume j: "i - 1 - 31 \<le> j \<and> j \<le> i - 1 - 12"
    then show "signed_digit (modl_outer i x ! j)" using m(3) [of j] assms(2) by auto
  next
    fix j assume j: "i - 1 - 12 < j \<and> j \<le> i - 1 \<and> j \<le> 50"
    then have "j = i - 12 \<or> i - 12 < j \<and> j \<noteq> i" using assms(2) by auto
    then show "- 130 \<le> modl_outer i x ! j" "modl_outer i x ! j \<le> 129" using top m(2) [of j] x(4) [of j] j by auto
  next
    fix j assume j: "j \<le> i - 1"
    consider "j < i - 32 \<or> i - 12 < j \<and> j \<noteq> i" | "i - 32 \<le> j" "j < i - 12" | "j = i - 12" using j assms(2) by linarith
    then show "\<bar>modl_outer i x ! j\<bar> \<le> 2 ^ 28"
    proof cases
      case 1
      then show ?thesis using m(2) [of j] x(5) j by simp
    next
      case 2
      then show ?thesis using signed_digit_bound [OF m(3)] by simp
    next
      case 3
      then show ?thesis using top by simp
    qed
  qed (rule m(1))
  have "bval (modl_outer i x) = bval x + (- 16 * x ! i * 256 ^ (i - 32)) * ed_order" unfolding v by simp
  then show "bval (modl_outer i x) mod ed_order = bval x mod ed_order" by (simp only: mod_mult_self1)
qed

lemma outer_inv_loop:
  "n \<le> 31 \<Longrightarrow> outer_inv (31 + n) x \<Longrightarrow>
   outer_inv 31 (fold modl_outer (rev [32..<32 + n]) x) \<and>
   bval (fold modl_outer (rev [32..<32 + n]) x) mod ed_order = bval x mod ed_order"
proof (induction n arbitrary: x)
  case (Suc n)
  have st: "outer_inv (31 + n) (modl_outer (32 + n) x)" "bval (modl_outer (32 + n) x) mod ed_order = bval x mod ed_order"
    using outer_inv_step [of "32 + n" x] Suc.prems by simp_all
  have "rev [32..<32 + Suc n] = (32 + n) # rev [32..<32 + n]" using upt_Suc_append [of 32 "32 + n"] by simp
  then show ?case using Suc.IH [OF _ st(1)] st(2) Suc.prems(1) by simp
qed simp

lemma outer_loop:
  assumes "length x = 64" "\<forall>y\<in>set x. \<bar>y\<bar> \<le> 2 ^ 22"
  shows "outer_inv 31 (fold modl_outer (rev [32..<64]) x)"
    "bval (fold modl_outer (rev [32..<64]) x) mod ed_order = bval x mod ed_order"
proof -
  have b: "\<forall>j\<le>63. \<bar>x ! j\<bar> \<le> 2 ^ 22" using assms by simp
  obtain c where "bval (modl_outer 63 x) = bval x - 16 * x ! 63 * ed_order * 256 ^ (63 - 32)"
    by (rule modl_outer_step [of x 63 "2 ^ 22"]) (use assms(1) b in simp_all)
  then have "bval (modl_outer 63 x) = bval x + (- 16 * x ! 63 * 256 ^ 31) * ed_order" by simp
  then have v: "bval (modl_outer 63 x) mod ed_order = bval x mod ed_order" by (simp only: mod_mult_self1)
  have "rev [32..<64] = 63 # rev [32..<32 + 31]" using upt_Suc_append [of 32 63] by simp
  then show "outer_inv 31 (fold modl_outer (rev [32..<64]) x)"
    "bval (fold modl_outer (rev [32..<64]) x) mod ed_order = bval x mod ed_order"
    using outer_inv_loop [of 31 "modl_outer 63 x"] outer_inv_first [OF assms] v by simp_all
qed

section \<open>The last corrections\<close>

definition sub_inv :: "int list \<Rightarrow> nat \<Rightarrow> int list \<times> int \<Rightarrow> bool" where
  "sub_inv x k = (\<lambda>(x', c). length x' = 64 \<and> (\<forall>j\<ge>k. x' ! j = x ! j) \<and> (\<forall>j<k. 0 \<le> x' ! j \<and> x' ! j < 256) \<and>
     \<bar>c\<bar> \<le> 10 \<and> bval x' + c * 256 ^ k = bval x - x ! 31 div 16 * bval (take k ED_L))"

lemma sub_inv_step:
  assumes "length x = 64" "\<forall>j\<le>31. - 130 \<le> x ! j \<and> x ! j \<le> 129" "k < 32" "sub_inv x k (y, d)"
  shows "sub_inv x (Suc k) (modl_sub k (y, d))"
proof -
  define q w where "q = x ! 31 div 16" and "w = x ! k + d - q * ED_L ! k"
  have y: "length y = 64" "y ! k = x ! k" "y ! 31 = x ! 31" "\<bar>d\<bar> \<le> 10" using assms(3,4) by (simp_all add: sub_inv_def)
  have "- 130 \<le> x ! 31" "x ! 31 \<le> 129" using assms(2) by simp_all
  then have "(- 9) \<le> q" "q \<le> 8" unfolding q_def using zdiv_mono1 [of "- 130" "x ! 31" 16] zdiv_mono1 [of "x ! 31" 129 16] by simp_all
  then have q: "\<bar>q * ED_L ! k\<bar> \<le> 9 * 255" using ED_L_range [OF assms(3)] by (intro prod_bound) auto
  have "- 130 \<le> x ! k" "x ! k \<le> 129" using assms(2,3) by simp_all
  then have w: "\<bar>w\<bar> \<le> 2435" using q y(4) by (simp add: w_def)
  then have c: "\<bar>w div 256\<bar> \<le> 10" by (intro div256_bound) auto
  have "wrap64 (q * ED_L ! k) = q * ED_L ! k" using q by (intro wrap64_abs) simp
  moreover have "wrap64 w = w" using w by (intro wrap64_abs) simp
  moreover have "x ! k + (d - q * ED_L ! k) = w" by (simp add: w_def)
  ultimately have "wrap64 (x ! k + wrap64 (d - wrap64 (q * ED_L ! k))) = w" by (simp only: wrap64_add_right)
  then have eq: "modl_sub k (y, d) = (y[k := w mod 256], w div 256)"
    using y(1) assms(3) unfolding modl_sub_def Let_def case_prod_conv y(2,3) by (simp add: q_def and_ones_lit)
  have tk: "bval (take (Suc k) ED_L) = bval (take k ED_L) + ED_L ! k * 256 ^ k"
    using assms(3) by (intro bval_take_Suc) (simp add: ED_L_facts)
  have "(w mod 256) * 256 ^ k + w div 256 * 256 ^ Suc k = (w mod 256 + 256 * (w div 256)) * 256 ^ k"
    by (simp only: distrib_right power_Suc)
  also have "\<dots> = w * 256 ^ k" by (simp only: mod_mult_div_eq)
  finally have "bval (y[k := w mod 256]) + w div 256 * 256 ^ Suc k = bval y - x ! k * 256 ^ k + w * 256 ^ k"
    using y(1,2) assms(3) by (simp add: bval_update left_diff_distrib)
  also have "\<dots> = bval x - q * bval (take (Suc k) ED_L)"
    using assms(4) unfolding tk by (simp add: sub_inv_def w_def q_def algebra_simps)
  finally have "bval (y[k := w mod 256]) + w div 256 * 256 ^ Suc k = bval x - q * bval (take (Suc k) ED_L)" .
  then show ?thesis
    using assms(4) c y assms(3) unfolding eq by (auto simp: sub_inv_def q_def less_Suc_eq nth_list_update)
qed

lemma sub_inv_loop:
  assumes "length x = 64" "\<forall>j\<le>31. - 130 \<le> x ! j \<and> x ! j \<le> 129"
  shows "k \<le> 32 \<Longrightarrow> sub_inv x k (fold modl_sub [0..<k] (x, 0))"
proof (induction k)
  case 0
  then show ?case using assms(1) by (simp add: sub_inv_def)
next
  case (Suc k)
  then show ?case using sub_inv_step [OF assms, of k] by (cases "fold modl_sub [0..<k] (x, 0)") simp
qed

lemma modl_fix_loop:
  assumes "length x = 64" "\<bar>c\<bar> \<le> 1" "\<forall>j<64. 0 \<le> x ! j \<and> x ! j < 256"
  shows "k \<le> 32 \<Longrightarrow> length (fold (modl_fix c) [0..<k] x) = 64 \<and>
    (\<forall>j\<ge>k. fold (modl_fix c) [0..<k] x ! j = x ! j) \<and> (\<forall>j<64. \<bar>fold (modl_fix c) [0..<k] x ! j\<bar> \<le> 511) \<and>
    bval (fold (modl_fix c) [0..<k] x) = bval x - c * bval (take k ED_L)"
proof (induction k)
  case 0
  then show ?case using assms(1,3) by force
next
  case (Suc k)
  define y where "y = fold (modl_fix c) [0..<k] x"
  have y: "length y = 64" "\<forall>j\<ge>k. y ! j = x ! j" "\<forall>j<64. \<bar>y ! j\<bar> \<le> 511" "bval y = bval x - c * bval (take k ED_L)"
    using Suc by (simp_all add: y_def)
  have "\<bar>c * ED_L ! k\<bar> \<le> 1 * 255" using ED_L_range [of k] Suc.prems assms(2) by (intro prod_bound) auto
  moreover have x: "0 \<le> x ! k" "x ! k < 256" using assms(3) Suc.prems by simp_all
  ultimately have b: "\<bar>x ! k - c * ED_L ! k\<bar> \<le> 511" "\<bar>c * ED_L ! k\<bar> < 2 ^ 63" "\<bar>x ! k - c * ED_L ! k\<bar> < 2 ^ 63" by auto
  then have eq: "fold (modl_fix c) [0..<Suc k] x = y[k := x ! k - c * ED_L ! k]"
    using y(2) by (simp add: modl_fix_def wrap64_abs flip: y_def)
  have tk: "bval (take (Suc k) ED_L) = bval (take k ED_L) + ED_L ! k * 256 ^ k"
    using Suc.prems by (intro bval_take_Suc) (simp add: ED_L_facts)
  have "bval (y[k := x ! k - c * ED_L ! k]) = bval x - c * bval (take (Suc k) ED_L)"
    using y Suc.prems unfolding tk by (simp add: bval_update algebra_simps)
  then show ?case using y b(1) Suc.prems unfolding eq by (auto simp: nth_list_update)
qed

lemma le_val_append: "le_val (a @ b) = le_val a + 256 ^ length a * le_val b"
  by (induction a) (simp_all add: algebra_simps)

definition out_inv :: "int list \<Rightarrow> nat \<Rightarrow> int list \<times> bytes \<Rightarrow> bool" where
  "out_inv x k = (\<lambda>(y, r). length y = 64 \<and> length r = 32 \<and> (\<forall>j>k. y ! j = x ! j) \<and> \<bar>y ! k\<bar> \<le> 600 \<and>
     le_val (take k r) + 256 ^ k * bval (drop k y) = bval x)"

lemma out_inv_step:
  assumes "\<forall>j<64. \<bar>x ! j\<bar> \<le> 511" "k < 32" "out_inv x k (y, r)"
  shows "out_inv x (Suc k) (modl_out k (y, r))"
proof -
  have y: "length y = 64" "length r = 32" "\<forall>j>k. y ! j = x ! j" "\<bar>y ! k\<bar> \<le> 600"
    "le_val (take k r) + 256 ^ k * bval (drop k y) = bval x" using assms(3) by (simp_all add: out_inv_def)
  define v where "v = x ! Suc k + y ! k div 256"
  have "\<bar>x ! Suc k\<bar> \<le> 511" using assms(1,2) by simp
  moreover have "\<bar>y ! k div 256\<bar> \<le> 3" using y(4) by (intro div256_bound) auto
  ultimately have v: "\<bar>v\<bar> \<le> 600" by (simp add: v_def)
  then have "wrap64 v = v" by (intro wrap64_abs) simp
  then have eq: "modl_out k (y, r) = (y[Suc k := v], r[k := word_of_int (y ! k mod 256)])"
    using y(3) by (simp add: modl_out_def v_def and_ones_lit)
  have "drop k y = y ! k # drop (Suc k) y" "drop (Suc k) y = y ! Suc k # drop (Suc (Suc k)) y"
    using y(1) assms(2) by (simp_all add: Cons_nth_drop_Suc)
  then have d: "bval (drop k y) = y ! k + 256 * (x ! Suc k + 256 * bval (drop (Suc (Suc k)) y))" using y(3) by simp
  have d': "bval (drop (Suc k) (y[Suc k := v])) = v + 256 * bval (drop (Suc (Suc k)) y)"
    using y(1) assms(2) by (simp add: Cons_nth_drop_Suc [symmetric])
  have r: "le_val (take (Suc k) (r[k := word_of_int (y ! k mod 256)])) = le_val (take k r) + 256 ^ k * (y ! k mod 256)"
    using y(2) assms(2) by (simp add: take_Suc_conv_app_nth le_val_append uint_word_of_int)
  have "y ! k mod 256 + 256 * (y ! k div 256) = y ! k" by (simp only: mod_mult_div_eq)
  then have e: "y ! k mod 256 + 256 * (v + 256 * bval (drop (Suc (Suc k)) y)) = bval (drop k y)"
    unfolding d v_def by (simp add: distrib_left)
  have "256 ^ k * (y ! k mod 256) + 256 ^ Suc k * (v + 256 * bval (drop (Suc (Suc k)) y)) = 256 ^ k * bval (drop k y)"
    unfolding e [symmetric] power_Suc2 by (simp only: distrib_left mult.assoc)
  then have "le_val (take k r) + 256 ^ k * (y ! k mod 256) + 256 ^ Suc k * (v + 256 * bval (drop (Suc (Suc k)) y)) = bval x"
    using y(5) by simp
  then show ?thesis
    using y v assms(2) unfolding eq out_inv_def case_prod_conv r d' by simp
qed

lemma out_inv_loop:
  assumes "length x = 64" "\<forall>j<64. \<bar>x ! j\<bar> \<le> 511"
  shows "k \<le> 32 \<Longrightarrow> out_inv x k (fold modl_out [0..<k] (x, replicate 32 0))"
proof (induction k)
  case 0
  have "\<bar>x ! 0\<bar> \<le> 511" using assms(2) by simp
  then show ?case using assms(1) by (simp add: out_inv_def)
next
  case (Suc k)
  then show ?case using out_inv_step [OF assms(2), of k] by (cases "fold modl_out [0..<k] (x, replicate 32 0)") simp
qed

text \<open>What the first loop leaves is within one order of the multiple that its top digit names.\<close>

lemma near_multiple:
  assumes "outer_inv 31 x"
  defines "v \<equiv> bval x - x ! 31 div 16 * ed_order"
  shows "- ed_order < v" "v < ed_order" "bval x = bval (take 32 x)" "\<forall>j\<le>31. - 130 \<le> x ! j \<and> x ! j \<le> 129"
proof -
  have x: "length x = 64" "\<And>j. 31 < j \<Longrightarrow> j < 64 \<Longrightarrow> x ! j = 0" "\<And>j. j \<le> 19 \<Longrightarrow> signed_digit (x ! j)"
    "\<And>j. 19 < j \<Longrightarrow> j \<le> 31 \<Longrightarrow> - 130 \<le> x ! j \<and> x ! j \<le> 129"
    using assms(1) by (simp_all add: outer_inv_def)
  have r: "- 130 \<le> x ! j \<and> x ! j \<le> 129" if "j \<le> 31" for j
    using x(3) [of j] x(4) [of j] that by (cases "j \<le> 19") (auto simp: signed_digit_def)
  then show "\<forall>j\<le>31. - 130 \<le> x ! j \<and> x ! j \<le> 129" by blast
  have "\<forall>y\<in>set (drop 32 x). y = 0" using x(1,2) by (auto simp: in_set_conv_nth)
  then have "bval (drop 32 x) = 0" by (rule bval_zero)
  then show t: "bval x = bval (take 32 x)" using bval_append [of "take 32 x" "drop 32 x"] by simp
  have "\<forall>y\<in>set (take 31 x). - 130 \<le> y \<and> y \<le> 129" using r x(1) by (auto simp: in_set_conv_nth)
  then have low: "- 130 * (256 ^ 31 - 1) \<le> 255 * bval (take 31 x)" "255 * bval (take 31 x) \<le> 129 * (256 ^ 31 - 1)"
    using bval_bounds [of "take 31 x" "- 130" 129] x(1) by simp_all
  define q m where "q = x ! 31 div 16" and "m = x ! 31 mod 16"
  have top: "x ! 31 = 16 * q + m" "0 \<le> m" "m < 16" by (simp_all add: q_def m_def)
  then have q: "- 9 \<le> q" "q \<le> 8" using r [of 31] by simp_all
  have "bval x = bval (take 31 x) + x ! 31 * 256 ^ 31"
    unfolding t using bval_take_Suc [of 31 x] x(1) by simp
  then have "v = bval (take 31 x) + x ! 31 * 256 ^ 31 - q * ed_order" by (simp only: v_def q_def)
  then have "v = bval (take 31 x) + (16 * q + m) * 256 ^ 31 - q * ed_order" by (simp only: top(1))
  then have "v = bval (take 31 x) + m * 256 ^ 31 - q * (ed_order - 2 ^ 252)" by (simp add: algebra_simps)
  then show "- ed_order < v" "v < ed_order" using low q top(2,3) by (simp_all add: ed_order_def)
qed

lemma modl_correct:
  assumes "length x = 64" "\<forall>y\<in>set x. \<bar>y\<bar> \<le> 2 ^ 22"
  shows "length (modl x) = 32" "le_val (modl x) = bval x mod ed_order"
proof -
  define x1 where "x1 = fold modl_outer (rev [32..<64]) x"
  note inv = outer_loop [OF assms, folded x1_def]
  note near = near_multiple [OF inv(1)]
  have len: "length x1 = 64" using inv(1) by (simp add: outer_inv_def)
  obtain x2 c where x2: "fold modl_sub [0..<32] (x1, 0) = (x2, c)" by fastforce
  have s: "sub_inv x1 32 (x2, c)" using sub_inv_loop [OF len near(4), of 32] by (simp add: x2)
  define v where "v = bval x1 - x1 ! 31 div 16 * ed_order"
  have e: "bval x2 + c * 256 ^ 32 = v" "length x2 = 64" using s by (simp_all add: sub_inv_def v_def ED_L_facts)
  have dg: "0 \<le> x2 ! j \<and> x2 ! j < 256" if "j < 64" for j
    using s inv(1) that by (cases "j < 32") (auto simp: sub_inv_def outer_inv_def)
  have "bval x2 = bval (take 32 x2)"
  proof -
    have "\<forall>y\<in>set (drop 32 x2). y = 0" using s inv(1) by (auto simp: in_set_conv_nth sub_inv_def outer_inv_def)
    then show ?thesis using bval_append [of "take 32 x2" "drop 32 x2"] bval_zero by simp
  qed
  moreover have "0 \<le> x2 ! j \<and> x2 ! j \<le> 255" if "j < 32" for j using dg [of j] that by simp
  then have "\<forall>y\<in>set (take 32 x2). 0 \<le> y \<and> y \<le> 255" using e(2) by (auto simp: in_set_conv_nth)
  ultimately have b: "0 \<le> bval x2" "bval x2 < 256 ^ 32" using bval_bounds [of "take 32 x2" 0 255] e(2) by simp_all
  have v: "- ed_order < v" "v < ed_order" using near by (simp_all add: v_def)
  have "\<not> 1 \<le> c" "\<not> c \<le> - 2" using e(1) b v by (auto simp: ed_order_def)
  then have "c = - 1 \<or> c = 0" by linarith
  then have c: "c = (if v < 0 then - 1 else 0)" using e(1) b by auto
  define x3 where "x3 = fold (modl_fix c) [0..<32] x2"
  have x3: "length x3 = 64" "\<forall>j<64. \<bar>x3 ! j\<bar> \<le> 511" "bval x3 = bval x2 - c * ed_order"
    using modl_fix_loop [of x2 c 32] e(2) dg c by (simp_all add: x3_def ED_L_facts)
  obtain y r where yr: "fold modl_out [0..<32] (x3, replicate 32 0) = (y, r)" by fastforce
  have o: "length r = 32" "le_val r + 256 ^ 32 * bval (drop 32 y) = bval x3"
    using out_inv_loop [OF x3(1,2), of 32] by (auto simp: yr out_inv_def)
  have m: "modl x = r" unfolding modl_def Let_def x1_def [symmetric] x2 case_prod_conv x3_def [symmetric] yr by simp
  then show "length (modl x) = 32" using o by simp
  define u where "u = v - c * ed_order"
  have u: "0 \<le> u" "u < ed_order" using v by (simp_all add: u_def c)
  have "le_val r = u + (- c - bval (drop 32 y)) * 256 ^ 32"
    using o(2) unfolding x3(3) u_def e(1) [symmetric] by (simp add: left_diff_distrib)
  then have "le_val r mod 256 ^ 32 = u mod 256 ^ 32" by (simp only: mod_mult_self1)
  moreover have "le_val r mod 256 ^ 32 = le_val r" using le_val_bound [of r] o(1) by (simp add: mod_pos_pos_trivial)
  moreover have "u mod 256 ^ 32 = u" using u by (intro mod_pos_pos_trivial) (simp_all add: ed_order_def)
  ultimately have "le_val r = u" by simp
  also have "u = u mod ed_order" using u by simp
  also have "\<dots> = bval x1 mod ed_order"
  proof -
    have "u = bval x1 + (- (x1 ! 31 div 16) - c) * ed_order" by (simp add: u_def v_def left_diff_distrib)
    then show ?thesis by (simp only: mod_mult_self1)
  qed
  finally show "le_val (modl x) = bval x mod ed_order" using inv(2) m by simp
qed

lemma reduce_correct:
  assumes "length h = 64"
  shows "length (reduce h) = 32" "le_val (reduce h) = le_val h mod ed_order"
proof -
  have "\<bar>uint b\<bar> \<le> 2 ^ 22" for b :: u8 using uint_lt2p [of b] by simp
  then have "\<forall>y\<in>set (map uint h). \<bar>y\<bar> \<le> 2 ^ 22" by auto
  from modl_correct [OF _ this] assms show "length (reduce h) = 32" "le_val (reduce h) = le_val h mod ed_order"
    by (simp_all add: reduce_def bval_uint)
qed

section \<open>Properties\<close>

text \<open>
  Sixty-four signed digits of at most 22 bits, read with radix 256, are reduced to the 32 bytes of
  their remainder modulo the group order; in particular a 64-byte hash is.\<close>

theorem modl_reduces:
  assumes "length x = 64" "\<forall>y\<in>set x. \<bar>y\<bar> \<le> 2 ^ 22" "length h = 64"
  shows "length (modl x) = 32 \<and> le_val (modl x) = bval x mod ed_order \<and>
    length (reduce h) = 32 \<and> le_val (reduce h) = le_val h mod ed_order"
  using modl_correct [OF assms(1,2)] reduce_correct [OF assms(3)] by simp

theorem modl_reduces_witness:
  "le_val (modl (replicate 64 (- 1))) = bval (replicate 64 (- 1)) mod ed_order \<and>
   le_val (reduce (replicate 64 255)) = (2 ^ 512 - 1) mod ed_order"
proof -
  have "le_val (replicate 64 255) = 2 ^ 512 - 1" by code_simp
  then show ?thesis using modl_reduces [of "replicate 64 (- 1)" "replicate 64 255"] by simp
qed

end
