(* ===== verification/Ed25519.thy ===== *)
theory Ed25519
  imports X25519 Sha512 GroupOrder
begin

text \<open>
  The signatures of \<open>libs/reticulum-core/src/ed25519.rs\<close>: extended Edwards coordinates over the limb
  arithmetic of \<open>Field25519\<close>, a constant-time scalar multiplication, point decompression, and the
  reduction modulo the group order with which a signature's scalar is made. Every \<open>i64\<close> operation that
  could overflow is followed by \<open>wrap64\<close>.
\<close>

section \<open>The code\<close>

definition GF0 :: Gf where
  "GF0 = replicate 16 0"

definition GF1 :: Gf where
  "GF1 = 1 # replicate 15 0"

definition ED_D :: Gf where
  "ED_D = [0x78a3, 0x1359, 0x4dca, 0x75eb, 0xd8ab, 0x4141, 0x0a4d, 0x0070, 0xe898, 0x7779, 0x4079, 0x8cc7,
    0xfe73, 0x2b6f, 0x6cee, 0x5203]"

definition ED_D2 :: Gf where
  "ED_D2 = [0xf159, 0x26b2, 0x9b94, 0xebd6, 0xb156, 0x8283, 0x149a, 0x00e0, 0xd130, 0xeef3, 0x80f2, 0x198e,
    0xfce7, 0x56df, 0xd9dc, 0x2406]"

definition ED_X :: Gf where
  "ED_X = [0xd51a, 0x8f25, 0x2d60, 0xc956, 0xa7b2, 0x9525, 0xc760, 0x692c, 0xdc5c, 0xfdd6, 0xe231, 0xc0a4,
    0x53fe, 0xcd6e, 0x36d3, 0x2169]"

definition ED_Y :: Gf where
  "ED_Y = 0x6658 # replicate 15 0x6666"

definition ED_I :: Gf where
  "ED_I = [0xa0b0, 0x4a0e, 0x1b27, 0xc4ee, 0xe478, 0xad2f, 0x1806, 0x2f43, 0xd7a7, 0x3dfb, 0x0099, 0x2b4d,
    0xdf0b, 0x4fc1, 0x2480, 0x2b83]"

type_synonym Point = "Gf \<times> Gf \<times> Gf \<times> Gf"

definition point_add :: "Point \<Rightarrow> Point \<Rightarrow> Point" where
  "point_add = (\<lambda>(p0, p1, p2, p3) (q0, q1, q2, q3).
     let a = gf_mul (gf_sub p1 p0) (gf_sub q1 q0);
         b = gf_mul (gf_add p0 p1) (gf_add q0 q1);
         c = gf_mul (gf_mul p3 q3) ED_D2;
         d = (let zz = gf_mul p2 q2 in gf_add zz zz);
         e = gf_sub b a;
         f = gf_sub d c;
         g = gf_add d c;
         h = gf_add b a;
         a = e
     in (gf_mul a f, gf_mul h g, gf_mul g f, gf_mul a h))"

definition point_cswap :: "Point \<Rightarrow> Point \<Rightarrow> int \<Rightarrow> Point \<times> Point" where
  "point_cswap = (\<lambda>(p0, p1, p2, p3) (q0, q1, q2, q3) b.
     let (p0, q0) = sel25519 p0 q0 b;
         (p1, q1) = sel25519 p1 q1 b;
         (p2, q2) = sel25519 p2 q2 b;
         (p3, q3) = sel25519 p3 q3 b
     in ((p0, p1, p2, p3), (q0, q1, q2, q3)))"

definition par25519 :: "Gf \<Rightarrow> u8" where
  "par25519 a = pack25519 a ! 0 AND 1"

definition neq25519 :: "Gf \<Rightarrow> Gf \<Rightarrow> bool" where
  "neq25519 a b \<longleftrightarrow> pack25519 a \<noteq> pack25519 b"

definition pack_point :: "Point \<Rightarrow> bytes" where
  "pack_point = (\<lambda>(p0, p1, p2, p3).
     let zi = inv25519 p2;
         tx = gf_mul p0 zi;
         ty = gf_mul p1 zi;
         r = pack25519 ty
     in r[31 := r ! 31 XOR push_bit 7 (par25519 tx)])"

definition pow2523_step :: "Gf \<Rightarrow> nat \<Rightarrow> Gf \<Rightarrow> Gf" where
  "pow2523_step i a c = (let c = gf_sqr c in if a \<noteq> 1 then gf_mul c i else c)"

definition pow2523 :: "Gf \<Rightarrow> Gf" where
  "pow2523 i = fold (pow2523_step i) (rev [0..<251]) i"

definition scalarmult_step :: "bytes \<Rightarrow> nat \<Rightarrow> Point \<times> Point \<Rightarrow> Point \<times> Point" where
  "scalarmult_step s i = (\<lambda>(p, q).
     let b = uint (drop_bit (i mod 8) (s ! (i div 8)) AND 1);
         (p, q) = point_cswap p q b;
         pc = p;
         q = point_add q pc;
         p = point_add p pc
     in point_cswap p q b)"

definition scalarmult :: "Point \<Rightarrow> bytes \<Rightarrow> Point" where
  "scalarmult q s = fst (fold (scalarmult_step s) (rev [0..<256]) ((GF0, GF1, GF1, GF0), q))"

definition scalarbase :: "bytes \<Rightarrow> Point" where
  "scalarbase s = scalarmult (ED_X, ED_Y, GF1, gf_mul ED_X ED_Y) s"

definition unpackneg :: "bytes \<Rightarrow> Point option" where
  "unpackneg p =
     (let r1 = unpack25519 p;
          r2 = GF1;
          num0 = gf_sqr r1;
          den0 = gf_mul num0 ED_D;
          num = gf_sub num0 r2;
          den = gf_add r2 den0;
          den2 = gf_sqr den;
          den4 = gf_sqr den2;
          den6 = gf_mul den4 den2;
          t = gf_mul den6 num;
          t = gf_mul t den;
          t = pow2523 t;
          t = gf_mul t num;
          t = gf_mul t den;
          t = gf_mul t den;
          r0 = gf_mul t den;
          chk = gf_mul (gf_sqr r0) den;
          r0 = (if neq25519 chk num then gf_mul r0 ED_I else r0);
          chk = gf_mul (gf_sqr r0) den
      in if neq25519 chk num then None
         else let r0 = (if par25519 r0 = drop_bit 7 (p ! 31) then gf_sub GF0 r0 else r0)
              in Some (r0, r1, r2, gf_mul r0 r1))"

definition sign_acc :: "bytes \<Rightarrow> bytes \<Rightarrow> nat \<times> nat \<Rightarrow> int list \<Rightarrow> int list" where
  "sign_acc h a = (\<lambda>(i, j) x. x[i + j := wrap64 (x ! (i + j) + wrap64 (uint (h ! i) * uint (a ! j)))])"

definition ed_sign :: "bytes \<Rightarrow> bytes \<Rightarrow> bytes \<Rightarrow> bytes" where
  "ed_sign seed public_key message =
     (let d = sha512 seed;
          a = clamp (take 32 d);
          pre = drop 32 d @ message;
          r = reduce (sha512 pre);
          big_r = pack_point (scalarbase r);
          hin = big_r @ public_key @ message;
          h = reduce (sha512 hin);
          x = map uint r @ replicate 32 0;
          x = fold (sign_acc h a) (List.product [0..<32] [0..<32]) x;
          s = modl x
      in big_r @ s)"

definition ed_verify :: "bytes \<Rightarrow> bytes \<Rightarrow> bytes \<Rightarrow> bool" where
  "ed_verify public_key message signature =
     (case unpackneg public_key of
        None \<Rightarrow> False
      | Some q \<Rightarrow>
          let preimage = take 32 signature @ public_key @ message;
              h = reduce (sha512 preimage);
              p = scalarmult q h;
              s = drop 32 signature;
              sb = scalarbase s;
              p = point_add p sb;
              t = pack_point p
          in t = take 32 signature)"

section \<open>The curve\<close>

text \<open>The curve's constant, and the extended coordinates of a point of the twisted Edwards curve
  \<open>- x\<^sup>2 + y\<^sup>2 = 1 + d x\<^sup>2 y\<^sup>2\<close>, with \<open>x = X / Z\<close>, \<open>y = Y / Z\<close> and \<open>x y = T / Z\<close>.\<close>

definition ed_d :: int where
  "ed_d = 37095705934669439343138083508754565189542113879843219016388785533085940283555"

definition on_curve :: "int \<times> int \<times> int \<times> int \<Rightarrow> bool" where
  "on_curve = (\<lambda>(x, y, z, t).
     fsub (fmul y y) (fmul x x) = fadd (fmul z z) (fmul ed_d (fmul t t)) \<and> fmul x y = fmul z t)"

text \<open>Addition as in RFC 8032, section 5.1.4.\<close>

definition ed_add :: "int \<times> int \<times> int \<times> int \<Rightarrow> int \<times> int \<times> int \<times> int \<Rightarrow> int \<times> int \<times> int \<times> int" where
  "ed_add = (\<lambda>(x1, y1, z1, t1) (x2, y2, z2, t2).
     let A = fmul (fsub y1 x1) (fsub y2 x2);
         B = fmul (fadd y1 x1) (fadd y2 x2);
         C = fmul (fmul t1 (fmul 2 ed_d)) t2;
         D = fmul (fmul z1 2) z2;
         E = fsub B A; F = fsub D C; G = fadd D C; H = fadd B A
     in (fmul E F, fmul G H, fmul F G, fmul E H))"

text \<open>Both points of the ladder, from the scalar's top bit down.\<close>

definition ed_ladder_step :: "int \<Rightarrow> nat \<Rightarrow> (int \<times> int \<times> int \<times> int) \<times> (int \<times> int \<times> int \<times> int) \<Rightarrow>
    (int \<times> int \<times> int \<times> int) \<times> (int \<times> int \<times> int \<times> int)" where
  "ed_ladder_step k i = (\<lambda>(P, Q).
     if k div 2 ^ i mod 2 = 1 then (ed_add P Q, ed_add Q Q) else (ed_add P P, ed_add Q P))"

definition ed_scalarmult :: "int \<Rightarrow> int \<times> int \<times> int \<times> int \<Rightarrow> int \<times> int \<times> int \<times> int" where
  "ed_scalarmult k Q = fst (fold (ed_ladder_step k) (rev [0..<256]) ((0, 1, 1, 0), Q))"

definition ed_base :: "int \<times> int \<times> int \<times> int" where
  "ed_base = (fval ED_X, fval ED_Y, 1, fmul (fval ED_X) (fval ED_Y))"

definition pval :: "Point \<Rightarrow> int \<times> int \<times> int \<times> int" where
  "pval = (\<lambda>(x, y, z, t). (fval x, fval y, fval z, fval t))"

definition tight_point :: "Point \<Rightarrow> bool" where
  "tight_point = (\<lambda>(x, y, z, t). tight x \<and> tight y \<and> tight z \<and> tight t)"

lemma const_tight [simp]:
  "tight GF0" "tight GF1" "tight ED_D" "tight ED_D2" "tight ED_X" "tight ED_Y" "tight ED_I"
  by (simp_all add: GF0_def GF1_def ED_D_def ED_D2_def ED_X_def ED_Y_def ED_I_def tight_def gf_bound_def)

lemma const_values [simp]:
  "fval GF0 = 0" "fval GF1 = 1" "fval ED_D = ed_d" "fval ED_D2 = fmul 2 ed_d"
  by code_simp+

text \<open>The constants are what the comments say: \<open>d = -121665 / 121666\<close>, a square root of -1, and the point
  with \<open>y = 4/5\<close> on the curve.\<close>

lemma curve_constants:
  "fmul 121666 ed_d = fsub 0 121665" "fmul (fval ED_I) (fval ED_I) = fsub 0 1"
  "fmul 5 (fval ED_Y) = 4" "on_curve ed_base" "fval ED_X mod 2 = 0"
  by code_simp+

lemma point_add_correct:
  assumes "tight_point p" "tight_point q"
  shows "tight_point (point_add p q)" "pval (point_add p q) = ed_add (pval p) (pval q)"
proof -
  obtain p0 p1 p2 p3 where p: "p = (p0, p1, p2, p3)" by (cases p)
  obtain q0 q1 q2 q3 where q: "q = (q0, q1, q2, q3)" by (cases q)
  note t = assms [unfolded p q tight_point_def case_prod_conv]
  show "tight_point (point_add p q)" using t by (simp add: p q point_add_def tight_point_def Let_def)
  have "fmul (fmul a 2) b = fadd (fmul a b) (fmul a b)" for a b by (simp add: fmul_def fadd_def mod_simps algebra_simps)
  moreover have "fmul (fmul a c) b = fmul (fmul a b) c" for a b c by (simp add: fmul_def mod_simps algebra_simps)
  ultimately show "pval (point_add p q) = ed_add (pval p) (pval q)" using t
    by (simp add: p q point_add_def ed_add_def pval_def Let_def fadd_commute fmul_commute)
qed

text \<open>The complete addition law stays on the curve. The hypotheses on each point enter only through
  \<open>n = y\<^sup>2 - x\<^sup>2\<close> and \<open>a = x y\<close>, and what is left is an identity of polynomials.\<close>

definition curve_defect :: "int \<Rightarrow> int \<Rightarrow> int \<Rightarrow> int \<Rightarrow> int \<Rightarrow> int \<Rightarrow> int \<Rightarrow> int" where
  "curve_defect n1 n2 a1 a2 s z t =
     (z * z + t * t) * (n1 * n2) + 2 * (z * t) * (s + 4 * (a1 * a2)) - (z * z - t * t) * (z * z - t * t)
     - ed_d * (a1 * a1 * (n2 * n2 + 4 * (a2 * a2)) + a2 * a2 * (n1 * n1 + 4 * (a1 * a1)) + 2 * (a1 * a2) * s)"

lemma defect_expand:
  fixes x1 y1 x2 y2 z t :: int
  defines "e \<equiv> x1 * y2 + y1 * x2" and "h \<equiv> y1 * y2 + x1 * x2"
  shows "(z + t) * (z + t) * (h * h) - (z - t) * (z - t) * (e * e) - (z - t) * (z - t) * ((z + t) * (z + t)) - ed_d * (e * e * (h * h))
    = curve_defect (y1 * y1 - x1 * x1) (y2 * y2 - x2 * x2) (x1 * y1) (x2 * y2)
        ((x1 * x1 + y1 * y1) * (x2 * x2 + y2 * y2)) z t"
  unfolding curve_defect_def e_def h_def by (simp add: algebra_simps)

lemma defect_zero:
  "curve_defect (z1 * z1 + ed_d * (t1 * t1)) (z2 * z2 + ed_d * (t2 * t2)) (z1 * t1) (z2 * t2) s (z1 * z2) (ed_d * (t1 * t2)) = 0"
  unfolding curve_defect_def by (simp add: algebra_simps)

lemma defect_cong:
  assumes "n1 mod m = n1' mod m" "n2 mod m = n2' mod m" "a1 mod m = a1' mod m" "a2 mod m = a2' mod m"
  shows "curve_defect n1 n2 a1 a2 s z t mod m = curve_defect n1' n2' a1' a2' s z t mod m"
  unfolding curve_defect_def by (intro mod_add_cong mod_mult_cong mod_diff_cong assms refl)

lemma on_curve_mod:
  "on_curve (x, y, z, t) \<longleftrightarrow>
     (y * y - x * x) mod p25519 = (z * z + ed_d * (t * t)) mod p25519 \<and> (x * y) mod p25519 = (z * t) mod p25519"
  by (simp add: on_curve_def fsub_def fadd_def fmul_def mod_simps)

lemma ed_add_coords:
  assumes "ed_add (x1, y1, z1, t1) (x2, y2, z2, t2) = (x3, y3, z3, t3)"
  defines "e \<equiv> x1 * y2 + y1 * x2" and "h \<equiv> y1 * y2 + x1 * x2" and "f \<equiv> z1 * z2 - ed_d * (t1 * t2)" and "g \<equiv> z1 * z2 + ed_d * (t1 * t2)"
  shows "x3 = 4 * (e * f) mod p25519" "y3 = 4 * (g * h) mod p25519" "z3 = 4 * (f * g) mod p25519" "t3 = 4 * (e * h) mod p25519"
proof -
  have m: "(4 * (u * v)) mod p25519 = ((2 * u) mod p25519 * ((2 * v) mod p25519)) mod p25519" for u v :: int
    unfolding mod_mult_eq by (simp add: algebra_simps)
  have E: "fsub (fmul (fadd y1 x1) (fadd y2 x2)) (fmul (fsub y1 x1) (fsub y2 x2)) = (2 * e) mod p25519"
    unfolding fsub_def fadd_def fmul_def mod_simps e_def by (simp add: algebra_simps)
  have H: "fadd (fmul (fadd y1 x1) (fadd y2 x2)) (fmul (fsub y1 x1) (fsub y2 x2)) = (2 * h) mod p25519"
    unfolding fsub_def fadd_def fmul_def mod_simps h_def by (simp add: algebra_simps)
  have F: "fsub (fmul (fmul z1 2) z2) (fmul (fmul t1 (fmul 2 ed_d)) t2) = (2 * f) mod p25519"
    unfolding fsub_def fmul_def mod_simps f_def by (simp add: algebra_simps)
  have G: "fadd (fmul (fmul z1 2) z2) (fmul (fmul t1 (fmul 2 ed_d)) t2) = (2 * g) mod p25519"
    unfolding fadd_def fmul_def mod_simps g_def by (simp add: algebra_simps)
  show "x3 = 4 * (e * f) mod p25519" "y3 = 4 * (g * h) mod p25519" "z3 = 4 * (f * g) mod p25519" "t3 = 4 * (e * h) mod p25519"
    using assms(1) unfolding ed_add_def Let_def case_prod_conv E F G H m prod.inject by (simp_all only: fmul_def)
qed

lemma ed_add_on_curve:
  assumes "on_curve P" "on_curve Q"
  shows "on_curve (ed_add P Q)"
proof -
  obtain x1 y1 z1 t1 where P: "P = (x1, y1, z1, t1)" by (cases P)
  obtain x2 y2 z2 t2 where Q: "Q = (x2, y2, z2, t2)" by (cases Q)
  obtain x3 y3 z3 t3 where R: "ed_add P Q = (x3, y3, z3, t3)" by (cases "ed_add P Q")
  define e h f g where "e = x1 * y2 + y1 * x2" and "h = y1 * y2 + x1 * x2"
    and "f = z1 * z2 - ed_d * (t1 * t2)" and "g = z1 * z2 + ed_d * (t1 * t2)"
  note c = ed_add_coords [OF R [unfolded P Q], folded e_def h_def f_def g_def]
  let ?s = "(x1 * x1 + y1 * y1) * (x2 * x2 + y2 * y2)"
  have "curve_defect (y1 * y1 - x1 * x1) (y2 * y2 - x2 * x2) (x1 * y1) (x2 * y2) ?s (z1 * z2) (ed_d * (t1 * t2)) mod p25519 =
      curve_defect (z1 * z1 + ed_d * (t1 * t1)) (z2 * z2 + ed_d * (t2 * t2)) (z1 * t1) (z2 * t2) ?s (z1 * z2) (ed_d * (t1 * t2)) mod p25519"
    by (rule defect_cong) (use assms in \<open>simp_all only: P Q on_curve_mod\<close>)
  also have "\<dots> = 0" by (simp only: defect_zero mod_0)
  finally have "(g * g * (h * h) - f * f * (e * e) - f * f * (g * g) - ed_d * (e * e * (h * h))) mod p25519 = 0"
    unfolding e_def h_def f_def g_def defect_expand .
  then have "p25519 dvd g * g * (h * h) - f * f * (e * e) - f * f * (g * g) - ed_d * (e * e * (h * h))"
    by (rule mod_0_imp_dvd)
  then have "p25519 dvd 16 * (g * g * (h * h) - f * f * (e * e) - f * f * (g * g) - ed_d * (e * e * (h * h)))"
    by (rule dvd_mult)
  then have d: "((4 * (g * h)) * (4 * (g * h)) - (4 * (e * f)) * (4 * (e * f))) mod p25519 =
      ((4 * (f * g)) * (4 * (f * g)) + ed_d * ((4 * (e * h)) * (4 * (e * h)))) mod p25519"
    unfolding mod_eq_dvd_iff by (simp add: algebra_simps)
  have "(y3 * y3 - x3 * x3) mod p25519 = (z3 * z3 + ed_d * (t3 * t3)) mod p25519"
    unfolding c by (rule trans [OF _ trans [OF d]]; intro mod_add_cong mod_diff_cong mod_mult_cong mod_mod_trivial mod_mod_trivial [symmetric] refl)
  moreover have "(x3 * y3) mod p25519 = (z3 * t3) mod p25519" unfolding c mod_mult_eq by (simp add: mult_ac)
  ultimately show ?thesis unfolding R on_curve_mod by simp
qed

section \<open>Scalar multiplication\<close>

lemma point_cswap_correct:
  "tight_point p \<Longrightarrow> tight_point q \<Longrightarrow> point_cswap p q (if r then 1 else 0) = cswap r p q"
  by (cases p; cases q) (auto simp: point_cswap_def tight_point_def sel25519_cswap cswap_def)

fun points_rel :: "Point \<times> Point \<Rightarrow> (int \<times> int \<times> int \<times> int) \<times> (int \<times> int \<times> int \<times> int) \<Rightarrow> bool" where
  "points_rel (p, q) (P, Q) \<longleftrightarrow>
     tight_point p \<and> tight_point q \<and> pval p = P \<and> pval q = Q \<and> on_curve P \<and> on_curve Q"

lemma scalarmult_step_correct:
  assumes "length s = 32" "i < 256" "points_rel pq PQ"
  shows "points_rel (scalarmult_step s i pq) (ed_ladder_step (le_val s) i PQ)"
proof -
  obtain p q where pq: "pq = (p, q)" by (cases pq)
  obtain P Q where PQ: "PQ = (P, Q)" by (cases PQ)
  have t: "tight_point p" "tight_point q" "pval p = P" "pval q = Q" "on_curve P" "on_curve Q"
    using assms(3) by (simp_all add: pq PQ)
  define r where "r = (le_val s div 2 ^ i mod 2 = 1)"
  have b: "uint (drop_bit (i mod 8) (s ! (i div 8)) AND 1) = (if r then 1 else 0)"
    using ladder_bit [of i s] assms(1,2) by (simp add: r_def)
  have tt: "tight_point (point_add u v)" if "tight_point u" "tight_point v" for u v using point_add_correct(1) [OF that] .
  have "scalarmult_step s i pq =
      (if r then (point_add p q, point_add q q) else (point_add p p, point_add q p))"
    using t unfolding scalarmult_step_def Let_def pq case_prod_conv b
    by (cases r) (auto simp: point_cswap_correct [of _ _ True, simplified] point_cswap_correct [of _ _ False, simplified] cswap_def tt)
  then show ?thesis
    using t by (simp add: PQ ed_ladder_step_def r_def [symmetric] tt point_add_correct(2) ed_add_on_curve)
qed

lemma scalarmult_correct:
  assumes "length s = 32" "tight_point q" "on_curve (pval q)"
  shows "tight_point (scalarmult q s)" "pval (scalarmult q s) = ed_scalarmult (le_val s) (pval q)"
    "on_curve (pval (scalarmult q s))"
proof -
  have "\<forall>i\<in>set is. i < 256 \<Longrightarrow> points_rel pq PQ \<Longrightarrow>
      points_rel (fold (scalarmult_step s) is pq) (fold (ed_ladder_step (le_val s)) is PQ)" for "is" pq PQ
    by (induction "is" arbitrary: pq PQ) (simp_all add: scalarmult_step_correct [OF assms(1)])
  moreover have "\<forall>i\<in>set (rev [0..<256]). i < (256::nat)" unfolding set_rev set_upt by auto
  moreover have "points_rel ((GF0, GF1, GF1, GF0), q) ((0, 1, 1, 0), pval q)"
    using assms(2,3) by (simp add: tight_point_def pval_def on_curve_mod split: prod.splits)
  ultimately have r: "points_rel (fold (scalarmult_step s) (rev [0..<256]) ((GF0, GF1, GF1, GF0), q))
      (fold (ed_ladder_step (le_val s)) (rev [0..<256]) ((0, 1, 1, 0), pval q))" by blast
  obtain a b where ab: "fold (scalarmult_step s) (rev [0..<256]) ((GF0, GF1, GF1, GF0), q) = (a, b)" by (rule prod.exhaust)
  obtain A B where AB: "fold (ed_ladder_step (le_val s)) (rev [0..<256]) ((0, 1, 1, 0), pval q) = (A, B)" by (rule prod.exhaust)
  show "tight_point (scalarmult q s)" "pval (scalarmult q s) = ed_scalarmult (le_val s) (pval q)"
    "on_curve (pval (scalarmult q s))"
    using r unfolding ab AB scalarmult_def ed_scalarmult_def fst_conv by simp_all
qed

section \<open>Packing and unpacking points\<close>

lemma loose_bound: "loose a \<Longrightarrow> gf_bound (2 ^ 62) a"
  unfolding loose_def by (erule gf_bound_mono) simp

lemma pack_value: "loose a \<Longrightarrow> length (pack25519 a) = 32 \<and> le_val (pack25519 a) = fval a"
  using pack25519_correct [OF loose_bound] by (simp add: fval_def)

lemma neq25519_iff: "loose a \<Longrightarrow> loose b \<Longrightarrow> neq25519 a b \<longleftrightarrow> fval a \<noteq> fval b"
  using le_val_inj [of "pack25519 a" "pack25519 b"] pack_value [of a] pack_value [of b] by (auto simp: neq25519_def)

lemma par25519_value: "loose a \<Longrightarrow> uint (par25519 a) = fval a mod 2"
proof -
  assume a: "loose a"
  obtain b bs where bs: "pack25519 a = b # bs" using pack_value [OF a] by (cases "pack25519 a") auto
  have "fval a mod 2 = uint b mod 2" using pack_value [OF a] by (simp add: bs mod_add_eq [symmetric] mod_mult_left_eq [symmetric]) presburger
  then show ?thesis by (simp add: par25519_def bs and_one_eq uint_mod)
qed

lemma fval_range: "0 \<le> fval a" "fval a < p25519"
  by (simp_all add: fval_def p25519_def)

lemma le_val_update: "k < length r \<Longrightarrow> le_val (r[k := b]) = le_val r + (uint b - uint (r ! k)) * 256 ^ k"
  using bval_update [of k "map uint r" "uint b"] by (simp add: bval_uint flip: map_update)

lemma set_top_bit:
  fixes w b :: u8
  assumes "uint w < 128" "uint b = 0 \<or> uint b = 1"
  shows "uint (w XOR push_bit 7 b) = uint w + 128 * uint b"
proof -
  have b: "b = 0 \<or> b = 1" using assms(2) by (auto simp: word_uint_eq_iff)
  have "\<not> bit w 7" using assms(1) uint_nonnegative [of w] bit_uint_iff [of w 7] by (simp add: bit_iff_odd)
  moreover have "n = 7" if "bit (128 :: int) n" "n < 8" for n
  proof -
    have "n \<in> {0, 1, 2, 3, 4, 5, 6, 7}" using that(2) by auto
    with that(1) show ?thesis by auto
  qed
  ultimately have "w AND push_bit 7 1 = 0" by (intro bit_eqI) (auto simp: bit_simps)
  then have "w XOR push_bit 7 1 = w + 128" using disjunctive_add_eq_xor [of w "push_bit 7 1"] by simp
  moreover have "uint (w + 128) = uint w + 128" using assms(1) by (simp add: uint_plus_if')
  ultimately show ?thesis using b by auto
qed

lemma pack_point_value:
  assumes "tight_point (x, y, z, t)"
  shows "length (pack_point (x, y, z, t)) = 32"
    "le_val (pack_point (x, y, z, t)) =
       fmul (fval y) (fpow (fval z) (nat (p25519 - 2))) +
       2 ^ 255 * (fmul (fval x) (fpow (fval z) (nat (p25519 - 2))) mod 2)"
proof -
  define tx ty where "tx = gf_mul x (inv25519 z)" and "ty = gf_mul y (inv25519 z)"
  define r where "r = pack25519 ty"
  have t: "tight tx" "tight ty" "fval tx = fmul (fval x) (fpow (fval z) (nat (p25519 - 2)))"
    "fval ty = fmul (fval y) (fpow (fval z) (nat (p25519 - 2)))"
    using assms by (simp_all add: tight_point_def tx_def ty_def)
  have r: "length r = 32" "le_val r = fval ty" using pack_value [of ty] t by (simp_all add: r_def)
  have "r = take 31 r @ [r ! 31]" using take_Suc_conv_app_nth [of 31 r] r(1) by simp
  then have "le_val r = le_val (take 31 r) + 256 ^ 31 * uint (r ! 31)" using le_val_append [of "take 31 r" "[r ! 31]"] r(1) by simp
  moreover have "le_val r < 2 ^ 255" using fval_range(2) [of ty] r(2) by (simp add: p25519_def)
  moreover have "0 \<le> le_val (take 31 r)" using le_val_bound by blast
  ultimately have top: "uint (r ! 31) < 128" by simp
  have par: "uint (par25519 tx) = fval tx mod 2" by (rule par25519_value) (simp add: t)
  have p: "pack_point (x, y, z, t) = r[31 := r ! 31 XOR push_bit 7 (par25519 tx)]"
    by (simp add: pack_point_def Let_def r_def tx_def ty_def)
  show "length (pack_point (x, y, z, t)) = 32" using r(1) by (simp add: p)
  have "uint (r ! 31 XOR push_bit 7 (par25519 tx)) = uint (r ! 31) + 128 * (fval tx mod 2)"
    using set_top_bit [OF top, of "par25519 tx"] par mod2_eq_if [of "fval tx"] by auto
  then show "le_val (pack_point (x, y, z, t)) =
       fmul (fval y) (fpow (fval z) (nat (p25519 - 2))) +
       2 ^ 255 * (fmul (fval x) (fpow (fval z) (nat (p25519 - 2))) mod 2)"
    using r by (simp add: p le_val_update t(3,4) [symmetric])
qed

lemma pow2523_correct:
  assumes "loose z"
  shows "tight (pow2523 z)" "fval (pow2523 z) = fpow (fval z) (2 ^ 252 - 3)"
proof -
  let ?m = "\<lambda>a. a \<noteq> (1::nat)"
  define hi where "hi = rev [2..<(251::nat)]"
  have hi: "\<forall>a\<in>set hi. ?m a" "length hi = 249" unfolding hi_def set_rev set_upt length_rev length_upt by simp_all
  have "rev [0..<2] = [1, 0 :: nat]" by (simp add: upt_rec)
  then have sp: "rev [0..<251] = hi @ [1, 0]" using rev_upt_split [of 2 251] by (simp only: hi_def numeral_le_iff) simp
  have "pow_exponent ?m hi 1 = 2 ^ 250 - 1" using pow_exponent_run [OF hi(1), of 1] hi(2) by simp
  then have e: "pow_exponent ?m (rev [0..<251]) 1 = 2 ^ 252 - 3" unfolding sp pow_exponent_append by simp
  have "pow2523_step z = pow_step ?m z" by (intro ext) (simp add: pow2523_step_def pow_step_def gf_sqr_def Let_def)
  then have i: "pow2523 z = fold (pow_step ?m z) (rev [0..<251]) z" by (simp only: pow2523_def)
  have "rev [0..<251] \<noteq> []" "gval z mod p25519 = gval z ^ 1 mod p25519" unfolding sp by (simp, simp only: power_one_right)
  with fold_pow_step [of z z 1 ?m "rev [0..<251]"] assms
  have "gf_red (pow2523 z)" "gval (pow2523 z) mod p25519 = gval z ^ (2 ^ 252 - 3) mod p25519"
    unfolding i e loose_def by blast+
  then show "tight (pow2523 z)" "fval (pow2523 z) = fpow (fval z) (2 ^ 252 - 3)"
    unfolding tight_def fval_def fpow_def power_mod by (simp_all only: gf_red_bound)
qed

text \<open>Decompression: whatever the bytes, the point returned is on the curve, with the bytes' ordinate and
  the sign of the negated point.\<close>

lemma sub_zero_tight: "tight a \<Longrightarrow> tight (gf_sub GF0 a)"
proof -
  assume "tight a"
  then have a: "gf_bound (2 ^ 17) a" by (simp add: tight_def)
  have "gf_bound 0 GF0" by (simp add: GF0_def gf_bound_def)
  from gf_sub_correct(1) [OF this a] show ?thesis by (simp add: tight_def)
qed

lemma negate_parity:
  assumes "0 < x" "x < p25519"
  shows "fsub 0 x mod 2 = 1 - x mod 2"
proof -
  have "fsub 0 x = p25519 - x" using assms unfolding fsub_def by (intro int_mod_pos_eq [where q = "- 1"]) auto
  moreover have "p25519 mod 2 = 1" by (simp add: p25519_def)
  ultimately show ?thesis by presburger
qed

lemma unpackneg_shape:
  assumes "length p = 32" "unpackneg p = Some (x, y, z, t)"
  obtains x0 where "tight x0" "y = unpack25519 p" "z = GF1" "t = gf_mul x y"
    "x = (if par25519 x0 = drop_bit 7 (p ! 31) then gf_sub GF0 x0 else x0)"
    "fmul (fmul (fval x0) (fval x0)) (fadd 1 (fmul (fmul (fval y) (fval y)) ed_d)) = fsub (fmul (fval y) (fval y)) 1"
proof -
  define r1 where "r1 = unpack25519 p"
  define num den where "num = gf_sub (gf_mul r1 r1) GF1" and "den = gf_add GF1 (gf_mul (gf_mul r1 r1) ED_D)"
  define d2 where "d2 = gf_mul den den"
  define u where "u = gf_mul (gf_mul (gf_mul (gf_mul (pow2523 (gf_mul (gf_mul (gf_mul (gf_mul d2 d2) d2) num) den)) num) den) den) den"
  define x0 where "x0 = (if neq25519 (gf_mul (gf_mul u u) den) num then gf_mul u ED_I else u)"
  have r1: "tight r1" unfolding r1_def by (rule unpack_tight [OF assms(1)])
  have nd: "mid num" "mid den" using r1 by (simp_all add: num_def den_def)
  have "tight d2" using nd by (simp add: d2_def)
  then have "tight u" using nd by (simp add: u_def pow2523_correct(1))
  then have x0: "tight x0" by (simp add: x0_def)
  have "unpackneg p = (if neq25519 (gf_mul (gf_mul x0 x0) den) num then None
      else Some (let r0 = if par25519 x0 = drop_bit 7 (p ! 31) then gf_sub GF0 x0 else x0 in (r0, r1, GF1, gf_mul r0 r1)))"
    unfolding unpackneg_def gf_sqr_def Let_def x0_def u_def d2_def num_def den_def r1_def by (rule refl)
  then have ok: "\<not> neq25519 (gf_mul (gf_mul x0 x0) den) num"
    and eqs: "y = r1" "z = GF1" "t = gf_mul x y" "x = (if par25519 x0 = drop_bit 7 (p ! 31) then gf_sub GF0 x0 else x0)"
    using assms(2) by (auto simp: Let_def split: if_splits)
  have "fmul (fmul (fval x0) (fval x0)) (fadd 1 (fmul (fmul (fval y) (fval y)) ed_d)) = fsub (fmul (fval y) (fval y)) 1"
    using ok x0 nd r1 by (simp add: neq25519_iff eqs(1)) (simp add: num_def den_def)
  with x0 eqs show thesis by (intro that [of x0]) (simp_all add: r1_def)
qed

lemma top_byte_sign:
  assumes "length p = 32"
  shows "uint (drop_bit 7 (p ! 31)) = le_val p div 2 ^ 255"
proof -
  have "p = take 31 p @ [p ! 31]" using take_Suc_conv_app_nth [of 31 p] assms by simp
  then have v: "le_val p = le_val (take 31 p) + 256 ^ 31 * uint (p ! 31)"
    using le_val_append [of "take 31 p" "[p ! 31]"] assms by simp
  have b: "0 \<le> le_val (take 31 p)" "le_val (take 31 p) < 256 ^ 31" using le_val_bound [of "take 31 p"] assms by simp_all
  have "le_val p div 256 ^ 31 = uint (p ! 31)" unfolding v using b by simp
  then have "le_val p div (256 ^ 31 * 2 ^ 7) = uint (p ! 31) div 2 ^ 7"
    using zdiv_zmult2_eq [of "2 ^ 7" "le_val p" "256 ^ 31"] by simp
  moreover have "uint (drop_bit 7 w) = uint w div 2 ^ 7" for w :: u8 by (simp add: drop_bit_eq_div uint_div)
  ultimately show ?thesis by simp
qed

lemma unpackneg_correct:
  assumes "length p = 32" "unpackneg p = Some (x, y, z, t)"
  shows "tight_point (x, y, z, t)" "on_curve (pval (x, y, z, t))" "fval y = decodeUCoordinate p" "fval z = 1"
    "fval x = 0 \<or> fval x mod 2 = 1 - le_val p div 2 ^ 255"
proof -
  obtain x0 where x0: "tight x0" and eqs: "y = unpack25519 p" "z = GF1" "t = gf_mul x y"
      "x = (if par25519 x0 = drop_bit 7 (p ! 31) then gf_sub GF0 x0 else x0)"
    and c: "fmul (fmul (fval x0) (fval x0)) (fadd 1 (fmul (fmul (fval y) (fval y)) ed_d)) = fsub (fmul (fval y) (fval y)) 1"
    by (rule unpackneg_shape [OF assms])
  have y: "tight y" unfolding eqs(1) by (rule unpack_tight [OF assms(1)])
  have x: "tight x" using x0 sub_zero_tight by (simp add: eqs(4))
  show "tight_point (x, y, z, t)" using x y by (simp add: tight_point_def eqs(2,3))
  show "fval y = decodeUCoordinate p" "fval z = 1" by (simp_all add: eqs(1,2) fval_unpack [OF assms(1)])
  let ?X = "fval x" and ?Y = "fval y" and ?W = "fval x0"
  have "?X * ?X mod p25519 = ?W * ?W mod p25519"
    using x0 by (auto simp: eqs(4) fsub_def mod_minus_eq mod_mult_eq)
  then have "(?X * ?X) * (1 + ?Y * ?Y * ed_d) mod p25519 = (?W * ?W) * (1 + ?Y * ?Y * ed_d) mod p25519"
    by (rule mod_mult_cong [OF _ refl])
  also have "\<dots> = (?Y * ?Y - 1) mod p25519" using c unfolding fmul_def fadd_def fsub_def mod_simps .
  finally have "p25519 dvd (?X * ?X) * (1 + ?Y * ?Y * ed_d) - (?Y * ?Y - 1)" by (simp only: mod_eq_dvd_iff)
  then have "p25519 dvd - ((?X * ?X) * (1 + ?Y * ?Y * ed_d) - (?Y * ?Y - 1))" by (simp only: dvd_minus_iff)
  then have "(?Y * ?Y - ?X * ?X) mod p25519 = (1 * 1 + ed_d * ((?X * ?Y) * (?X * ?Y))) mod p25519"
    unfolding mod_eq_dvd_iff by (simp add: algebra_simps)
  moreover have "(1 * 1 + ed_d * ((?X * ?Y) * (?X * ?Y))) mod p25519 = (1 * 1 + ed_d * (fval t * fval t)) mod p25519"
    using x y by (simp add: eqs(3) fmul_def) (intro mod_add_cong mod_mult_cong refl mod_mod_trivial [symmetric])
  moreover have "?X * ?Y mod p25519 = 1 * fval t mod p25519" using x y by (simp add: eqs(3) fmul_def)
  ultimately show "on_curve (pval (x, y, z, t))" by (simp add: pval_def on_curve_mod eqs(2))
  have w: "0 \<le> ?W" "?W < p25519" by (rule fval_range)+
  have s: "par25519 x0 = drop_bit 7 (p ! 31) \<longleftrightarrow> ?W mod 2 = le_val p div 2 ^ 255"
    using par25519_value [of x0] x0 top_byte_sign [OF assms(1)] by (simp add: word_uint_eq_iff)
  have d: "le_val p div 2 ^ 255 = 0 \<or> le_val p div 2 ^ 255 = 1"
  proof -
    have "le_val p div 2 ^ 255 \<le> (2 ^ 256 - 1) div 2 ^ 255" using le_val_bound [of p] assms(1) by (intro zdiv_mono1) simp_all
    then have "le_val p div 2 ^ 255 \<le> 1" by simp
    moreover have "0 \<le> le_val p div 2 ^ 255" using le_val_bound [of p] by (simp add: pos_imp_zdiv_nonneg_iff)
    ultimately show ?thesis by linarith
  qed
  show "fval x = 0 \<or> fval x mod 2 = 1 - le_val p div 2 ^ 255"
    using x0 w d s negate_parity [of ?W] by (cases "?W = 0") (auto simp: eqs(4) fsub_def)
qed

section \<open>The scalar of a signature\<close>

lemma length_clamp [simp]: "length (clamp k) = length k"
  by (simp add: clamp_def Let_def)

text \<open>One row of the product adds at most \<open>255 * 255\<close> to each digit.\<close>

lemma sign_row:
  assumes "length x = 64" "i < 32" "\<forall>y\<in>set x. 0 \<le> y \<and> y \<le> B" "B + 65025 \<le> 2 ^ 22"
  shows "m \<le> 32 \<Longrightarrow> length (fold (sign_acc h a) (map (Pair i) [0..<m]) x) = 64 \<and>
    (\<forall>k<64. 0 \<le> fold (sign_acc h a) (map (Pair i) [0..<m]) x ! k \<and>
      fold (sign_acc h a) (map (Pair i) [0..<m]) x ! k \<le> (if k < i + m then B + 65025 else B)) \<and>
    bval (fold (sign_acc h a) (map (Pair i) [0..<m]) x) = bval x + uint (h ! i) * 256 ^ i * (\<Sum>j<m. uint (a ! j) * 256 ^ j)"
proof (induction m)
  case 0
  have "0 \<le> x ! k \<and> x ! k \<le> B" if "k < 64" for k using assms(1,3) that by simp
  then show ?case using assms(1) by force
next
  case (Suc m)
  define y where "y = fold (sign_acc h a) (map (Pair i) [0..<m]) x"
  have y: "length y = 64" "\<And>k. k < 64 \<Longrightarrow> 0 \<le> y ! k \<and> y ! k \<le> (if k < i + m then B + 65025 else B)"
    "bval y = bval x + uint (h ! i) * 256 ^ i * (\<Sum>j<m. uint (a ! j) * 256 ^ j)"
    using Suc by (simp_all add: y_def)
  define v where "v = uint (h ! i) * uint (a ! m)"
  have "uint (h ! i) \<le> 255" "uint (a ! m) \<le> 255" using uint_lt2p [of "h ! i"] uint_lt2p [of "a ! m"] by simp_all
  then have v: "0 \<le> v" "v \<le> 255 * 255" unfolding v_def by (simp, intro mult_mono) simp_all
  have c: "i + m < 64" "0 \<le> y ! (i + m)" "y ! (i + m) \<le> B" using y(2) [of "i + m"] assms(2) Suc.prems by simp_all
  have "wrap64 v = v" using v by (intro wrap64_id) simp_all
  moreover have "wrap64 (y ! (i + m) + v) = y ! (i + m) + v" using v c assms(4) by (intro wrap64_id) simp_all
  ultimately have "sign_acc h a (i, m) y = y[i + m := y ! (i + m) + v]" by (simp add: sign_acc_def flip: v_def)
  then have s: "fold (sign_acc h a) (map (Pair i) [0..<Suc m]) x = y[i + m := y ! (i + m) + v]" by (simp add: y_def)
  have b: "bval (y[i + m := y ! (i + m) + v]) = bval x + uint (h ! i) * 256 ^ i * (\<Sum>j<Suc m. uint (a ! j) * 256 ^ j)"
    using y(1,3) c(1) by (simp add: bval_update v_def power_add algebra_simps)
  have "0 \<le> y[i + m := y ! (i + m) + v] ! k \<and> y[i + m := y ! (i + m) + v] ! k \<le> (if k < i + Suc m then B + 65025 else B)" if "k < 64" for k
    using y(1) y(2) [OF that] v c by (cases "k = i + m") (auto split: if_splits)
  then show ?case unfolding s using b y(1) by simp
qed

lemma sum_le_val: "(\<Sum>j<length a. uint (a ! j) * 256 ^ j) = le_val a"
proof (induction a)
  case (Cons b a)
  have "(\<Sum>j<length (b # a). uint ((b # a) ! j) * 256 ^ j) = uint b + (\<Sum>j<length a. uint (a ! j) * 256 ^ Suc j)"
    by (simp add: sum.lessThan_Suc_shift del: sum.lessThan_Suc)
  also have "\<dots> = uint b + 256 * (\<Sum>j<length a. uint (a ! j) * 256 ^ j)"
    by (simp add: sum_distrib_left algebra_simps)
  finally show ?case using Cons.IH by simp
qed simp

lemma sign_rows:
  assumes "length x = 64" "\<forall>y\<in>set x. 0 \<le> y \<and> y \<le> 255" "length a = 32"
  shows "n \<le> 32 \<Longrightarrow> length (fold (sign_acc h a) (List.product [0..<n] [0..<32]) x) = 64 \<and>
    (\<forall>y\<in>set (fold (sign_acc h a) (List.product [0..<n] [0..<32]) x). 0 \<le> y \<and> y \<le> 255 + int n * 65025) \<and>
    bval (fold (sign_acc h a) (List.product [0..<n] [0..<32]) x) = bval x + (\<Sum>i<n. uint (h ! i) * 256 ^ i) * le_val a"
proof (induction n)
  case 0
  then show ?case using assms(1,2) by simp
next
  case (Suc n)
  define y where "y = fold (sign_acc h a) (List.product [0..<n] [0..<32]) x"
  have y: "length y = 64" "\<forall>v\<in>set y. 0 \<le> v \<and> v \<le> 255 + int n * 65025"
    "bval y = bval x + (\<Sum>i<n. uint (h ! i) * 256 ^ i) * le_val a"
    using Suc by (simp_all add: y_def)
  have "List.product [0..<Suc n] ys = List.product [0..<n] ys @ map (Pair n) ys" for ys :: "nat list"
    by (simp add: product_concat_map)
  then have s: "fold (sign_acc h a) (List.product [0..<Suc n] [0..<32]) x = fold (sign_acc h a) (map (Pair n) [0..<32]) y"
    by (simp only: fold_append comp_apply y_def)
  have n: "n < 32" "255 + int n * 65025 + 65025 \<le> 2 ^ 22" using Suc.prems by simp_all
  note r = sign_row [OF y(1) n(1) y(2) n(2), of 32 h a, unfolded sum_le_val [of a, unfolded assms(3)]]
  have "\<forall>v\<in>set (fold (sign_acc h a) (map (Pair n) [0..<32]) y). 0 \<le> v \<and> v \<le> 255 + int (Suc n) * 65025"
    using r by (force simp: in_set_conv_nth split: if_splits)
  then show ?case unfolding s using r y(3) by (simp add: algebra_simps)
qed

lemma signature_scalar:
  assumes "length r = 32" "length h = 32" "length a = 32"
  defines "s \<equiv> modl (fold (sign_acc h a) (List.product [0..<32] [0..<32]) (map uint r @ replicate 32 0))"
  shows "length s = 32" "le_val s = (le_val r + le_val h * le_val a) mod ed_order"
proof -
  let ?x = "map uint r @ replicate 32 (0::int)"
  have "uint b \<le> 255" for b :: u8 using uint_lt2p [of b] by simp
  then have "\<forall>y\<in>set ?x. 0 \<le> y \<and> y \<le> 255" by auto
  note rows = sign_rows [OF _ this assms(3), of 32 h]
  have "bval ?x = le_val r" using bval_zero [of "replicate 32 0"] by (simp add: bval_append bval_uint)
  then have v: "bval (fold (sign_acc h a) (List.product [0..<32] [0..<32]) ?x) = le_val r + le_val h * le_val a"
    using rows sum_le_val [of h] assms(1,2) by simp
  have "\<forall>y\<in>set (fold (sign_acc h a) (List.product [0..<32] [0..<32]) ?x). \<bar>y\<bar> \<le> 2 ^ 22"
    using rows assms(1) by fastforce
  from modl_correct [OF _ this] rows assms(1) v
  show "length s = 32" "le_val s = (le_val r + le_val h * le_val a) mod ed_order" by (simp_all add: s_def)
qed

section \<open>Signing and verifying\<close>

lemma pval_base: "pval (ED_X, ED_Y, GF1, gf_mul ED_X ED_Y) = ed_base"
  by (simp add: pval_def ed_base_def)

lemma scalarbase_correct:
  assumes "length s = 32"
  shows "tight_point (scalarbase s)" "pval (scalarbase s) = ed_scalarmult (le_val s) ed_base" "on_curve (pval (scalarbase s))"
proof -
  have "tight_point (ED_X, ED_Y, GF1, gf_mul ED_X ED_Y)" by (simp add: tight_point_def)
  from scalarmult_correct [OF assms this, unfolded pval_base, OF curve_constants(4)]
  show "tight_point (scalarbase s)" "pval (scalarbase s) = ed_scalarmult (le_val s) ed_base" "on_curve (pval (scalarbase s))"
    by (simp_all add: scalarbase_def)
qed

text \<open>The encoding of a point, RFC 8032 section 5.1.2: the affine ordinate, and the abscissa's parity on top.\<close>

definition ed_encode :: "int \<times> int \<times> int \<times> int \<Rightarrow> int" where
  "ed_encode = (\<lambda>(x, y, z, t).
     let zi = fpow z (nat (p25519 - 2)) in fmul y zi + 2 ^ 255 * (fmul x zi mod 2))"

lemma pack_point_encode: "tight_point p \<Longrightarrow> length (pack_point p) = 32 \<and> le_val (pack_point p) = ed_encode (pval p)"
  using pack_point_value by (cases p) (simp add: ed_encode_def pval_def Let_def)

lemma sign_parts:
  fixes seed public_key message :: bytes
  defines "d \<equiv> sha512 seed"
  defines "r \<equiv> le_val (sha512 (drop 32 d @ message)) mod ed_order"
  defines "R \<equiv> take 32 (ed_sign seed public_key message)"
  shows "length (ed_sign seed public_key message) = 64"
    "le_val R = ed_encode (ed_scalarmult r ed_base)"
    "le_val (drop 32 (ed_sign seed public_key message)) =
       (r + le_val (sha512 (R @ public_key @ message)) mod ed_order * decodeScalar25519 (take 32 d)) mod ed_order"
proof -
  define rb where "rb = reduce (sha512 (drop 32 d @ message))"
  have rb: "length rb = 32" "le_val rb = r" using reduce_correct [of "sha512 (drop 32 d @ message)"] by (simp_all add: rb_def r_def)
  define big_r where "big_r = pack_point (scalarbase rb)"
  have R: "length big_r = 32" "le_val big_r = ed_encode (ed_scalarmult r ed_base)"
    using pack_point_encode [OF scalarbase_correct(1) [OF rb(1)]] scalarbase_correct(2) [OF rb(1)] rb(2) by (simp_all add: big_r_def)
  define h where "h = reduce (sha512 (big_r @ public_key @ message))"
  have h: "length h = 32" "le_val h = le_val (sha512 (big_r @ public_key @ message)) mod ed_order"
    using reduce_correct [of "sha512 (big_r @ public_key @ message)"] by (simp_all add: h_def)
  define a where "a = clamp (take 32 d)"
  have a: "length a = 32" "le_val a = decodeScalar25519 (take 32 d)"
    using clamp_decode [of "take 32 d"] by (simp_all add: a_def d_def)
  define s where "s = modl (fold (sign_acc h a) (List.product [0..<32] [0..<32]) (map uint rb @ replicate 32 0))"
  note s = signature_scalar [OF rb(1) h(1) a(1), folded s_def]
  have sig: "ed_sign seed public_key message = big_r @ s"
    unfolding ed_sign_def Let_def s_def h_def a_def big_r_def rb_def d_def by (rule refl)
  have R': "R = big_r" using R(1) by (simp add: R_def sig)
  show "length (ed_sign seed public_key message) = 64" using R(1) s(1) by (simp add: sig)
  show "le_val R = ed_encode (ed_scalarmult r ed_base)" using R(2) by (simp add: R')
  show "le_val (drop 32 (ed_sign seed public_key message)) =
       (r + le_val (sha512 (R @ public_key @ message)) mod ed_order * decodeScalar25519 (take 32 d)) mod ed_order"
    using R(1) s(2) rb(2) h(2) a(2) by (simp add: sig R')
qed

lemma verify_iff:
  assumes "length public_key = 32" "length signature = 64"
  shows "ed_verify public_key message signature \<longleftrightarrow>
    (\<exists>q. unpackneg public_key = Some q \<and>
      ed_encode (ed_add (ed_scalarmult (le_val (sha512 (take 32 signature @ public_key @ message)) mod ed_order) (pval q))
        (ed_scalarmult (le_val (drop 32 signature)) ed_base)) = le_val (take 32 signature))"
proof (cases "unpackneg public_key")
  case (Some q)
  define h where "h = reduce (sha512 (take 32 signature @ public_key @ message))"
  have h: "length h = 32" "le_val h = le_val (sha512 (take 32 signature @ public_key @ message)) mod ed_order"
    using reduce_correct [of "sha512 (take 32 signature @ public_key @ message)"] by (simp_all add: h_def)
  obtain x y z t where q: "q = (x, y, z, t)" by (cases q)
  note u = unpackneg_correct [OF assms(1) Some [unfolded q], folded q]
  note m = scalarmult_correct [OF h(1) u(1,2)]
  have sl: "length (drop 32 signature) = 32" using assms(2) by simp
  note b = scalarbase_correct [OF sl]
  define p where "p = point_add (scalarmult q h) (scalarbase (drop 32 signature))"
  have p: "tight_point p" "pval p = ed_add (pval (scalarmult q h)) (pval (scalarbase (drop 32 signature)))"
    unfolding p_def by (rule point_add_correct [OF m(1) b(1)])+
  have "ed_verify public_key message signature \<longleftrightarrow> pack_point p = take 32 signature"
    unfolding ed_verify_def Some Let_def p_def h_def by simp
  also have "\<dots> \<longleftrightarrow> ed_encode (pval p) = le_val (take 32 signature)"
    using pack_point_encode [OF p(1)] le_val_inj [of "pack_point p" "take 32 signature"] assms(2) by auto
  finally show ?thesis by (simp add: Some p(2) m(2) b(2) h(2))
qed (simp add: ed_verify_def)

section \<open>Properties\<close>

text \<open>
  C25. Scalar multiplication is the ladder of RFC 8032's complete addition on integers modulo the prime, and it
  never leaves the curve: from a point of the curve with reduced limbs and any 32-byte scalar it gives a
  point of the curve with reduced limbs; the base point is such a point.\<close>

theorem scalarmult_refines:
  assumes "length s = 32" "tight_point q" "on_curve (pval q)"
  shows "pval (scalarmult q s) = ed_scalarmult (le_val s) (pval q) \<and>
    tight_point (scalarmult q s) \<and> on_curve (pval (scalarmult q s)) \<and>
    pval (scalarbase s) = ed_scalarmult (le_val s) ed_base \<and>
    tight_point (scalarbase s) \<and> on_curve (pval (scalarbase s))"
  using scalarmult_correct [OF assms] scalarbase_correct [OF assms(1)] by simp

theorem scalarmult_refines_witness:
  "on_curve (pval (scalarmult (ED_X, ED_Y, GF1, gf_mul ED_X ED_Y) (replicate 32 7)))"
proof -
  have "tight_point (ED_X, ED_Y, GF1, gf_mul ED_X ED_Y)" by (simp add: tight_point_def)
  from scalarmult_refines [OF length_replicate this, unfolded pval_base, OF curve_constants(4)] show ?thesis by blast
qed

text \<open>
  C26. A signature is the one RFC 8032 defines, on integers: with the scalar and the prefix taken from the hash of
  the seed, it is 64 bytes, the encoding of \<open>r B\<close> for \<open>r\<close> the hash of prefix and message, then the bytes
  of \<open>r + h a\<close>, everything modulo the group order.\<close>

theorem sign_rfc8032:
  "let sig = ed_sign seed public_key message;
       d = sha512 seed;
       r = le_val (sha512 (drop 32 d @ message)) mod ed_order;
       h = le_val (sha512 (take 32 sig @ public_key @ message)) mod ed_order
   in length sig = 64 \<and> le_val (take 32 sig) = ed_encode (ed_scalarmult r ed_base) \<and>
      le_val (drop 32 sig) = (r + h * decodeScalar25519 (take 32 d)) mod ed_order"
  unfolding Let_def by (intro conjI sign_parts)



end
