(* ===== verification/RustText.thy ===== *)
theory RustText
  imports RustStd Crypto
begin

text \<open>
  Rust's \<open>str\<close> as the code uses it: trimming, slicing, splitting, characters, lines, and numbers in
  hexadecimal and decimal. Text is the list of its UTF-8 bytes, so slicing panics where an index is inside
  a character; a character is the list of the bytes that encode it.
\<close>

section \<open>Text\<close>

text \<open>The number of bytes of the white-space character a string starts with, zero if there is none.\<close>

fun space_len :: "bytes \<Rightarrow> nat" where
  "space_len (a # b # c # _) =
     (if a = 0x20 \<or> 9 \<le> a \<and> a \<le> 13 then 1
      else if a = 0xC2 \<and> (b = 0x85 \<or> b = 0xA0) then 2
      else if a = 0xE1 \<and> b = 0x9A \<and> c = 0x80 then 3
      else if a = 0xE2 \<and> b = 0x80 \<and> (c \<le> 0x8A \<and> 0x80 \<le> c \<or> c = 0xA8 \<or> c = 0xA9 \<or> c = 0xAF) then 3
      else if a = 0xE2 \<and> b = 0x81 \<and> c = 0x9F then 3
      else if a = 0xE3 \<and> b = 0x80 \<and> c = 0x80 then 3
      else 0)"
| "space_len [a, b] =
     (if a = 0x20 \<or> 9 \<le> a \<and> a \<le> 13 then 1 else if a = 0xC2 \<and> (b = 0x85 \<or> b = 0xA0) then 2 else 0)"
| "space_len [a] = (if a = 0x20 \<or> 9 \<le> a \<and> a \<le> 13 then 1 else 0)"
| "space_len [] = 0"

function trim_start :: "bytes \<Rightarrow> bytes" where
  "trim_start s = (if space_len s = 0 then s else trim_start (drop (space_len s) s))"
  by auto
termination by (relation "measure length", simp) (rename_tac s, case_tac s, auto)

declare trim_start.simps [simp del]

text \<open>A string ends with a white-space character: one of the three possible widths fits its end.\<close>

definition space_end :: "bytes \<Rightarrow> nat" where
  "space_end s =
     (let ends = (\<lambda>n. n \<le> length s \<and> space_len (drop (length s - n) s) = n)
      in if s = [] then 0 else if ends 1 then 1 else if ends 2 then 2 else if ends 3 then 3 else 0)"

function trim_end :: "bytes \<Rightarrow> bytes" where
  "trim_end s = (if space_end s = 0 then s else trim_end (take (length s - space_end s) s))"
  by auto
termination by (relation "measure length") (auto simp: space_end_def Let_def split: if_splits)

declare trim_end.simps [simp del]

definition trim :: "bytes \<Rightarrow> bytes" where
  "trim s = trim_end (trim_start s)"

definition is_char_boundary :: "bytes \<Rightarrow> nat \<Rightarrow> bool" where
  "is_char_boundary s i \<longleftrightarrow> i = 0 \<or> i = length s \<or> i < length s \<and> \<not> utf8_cont (s ! i)"

definition str_slice :: "bytes \<Rightarrow> nat \<Rightarrow> nat \<Rightarrow> bytes outcome" where
  "str_slice s a b =
     (if a \<le> b \<and> is_char_boundary s a \<and> is_char_boundary s b then Ok (slice a b s) else Panic)"

fun split_on :: "u8 \<Rightarrow> bytes \<Rightarrow> bytes list" where
  "split_on d [] = [[]]"
| "split_on d (b # bs) =
     (if b = d then [] # split_on d bs
      else case split_on d bs of p # ps \<Rightarrow> (b # p) # ps | [] \<Rightarrow> [[b]])"

text \<open>The characters of a text, each as its bytes.\<close>

function utf8_chars :: "bytes \<Rightarrow> bytes list" where
  "utf8_chars bs =
     (if bs = [] then [] else take (fst (utf8_step bs)) bs # utf8_chars (drop (fst (utf8_step bs)) bs))"
  by pat_completeness auto
termination by (relation "measure length") (auto simp: utf8_step_pos)

declare utf8_chars.simps [simp del]

definition starts_with :: "bytes \<Rightarrow> bytes \<Rightarrow> bool" where
  "starts_with p s \<longleftrightarrow> take (length p) s = p"

definition strip_prefix :: "bytes \<Rightarrow> bytes \<Rightarrow> bytes option" where
  "strip_prefix p s = (if starts_with p s then Some (drop (length p) s) else None)"

fun split_once :: "u8 \<Rightarrow> bytes \<Rightarrow> (bytes \<times> bytes) option" where
  "split_once d [] = None"
| "split_once d (b # bs) =
     (if b = d then Some ([], bs) else map_option (\<lambda>(p, q). (b # p, q)) (split_once d bs))"

text \<open>\<open>str::lines\<close>: a line ends at a newline, a carriage return before it belongs to the end.\<close>

definition strip_cr :: "bytes \<Rightarrow> bytes" where
  "strip_cr l = (if l \<noteq> [] \<and> last l = 13 then butlast l else l)"

definition text_lines :: "bytes \<Rightarrow> bytes list" where
  "text_lines s =
     (let ps = split_on 10 s
      in map strip_cr (butlast ps) @ (if last ps = [] then [] else [last ps]))"

text \<open>\<open>str::parse::<u32>\<close>: decimal digits, at least one, after an optional plus sign.\<close>

definition parse_u32 :: "bytes \<Rightarrow> nat option" where
  "parse_u32 s =
     (let ds = (if s \<noteq> [] \<and> hd s = 43 \<and> tl s \<noteq> [] then tl s else s);
          v = foldl (\<lambda>n d. 10 * n + (unat d - 48)) 0 ds
      in if ds \<noteq> [] \<and> list_all (\<lambda>d. 48 \<le> d \<and> d \<le> 57) ds \<and> v < 2 ^ 32 then Some v else None)"

section \<open>Hexadecimal\<close>

definition hex_value :: "u8 \<Rightarrow> nat option" where
  "hex_value b =
     (if 48 \<le> b \<and> b \<le> 57 then Some (unat b - 48)
      else if 97 \<le> b \<and> b \<le> 102 then Some (unat b - 87)
      else if 65 \<le> b \<and> b \<le> 70 then Some (unat b - 55)
      else None)"

text \<open>\<open>u8::from_str_radix\<close> with radix 16 on two bytes: a leading plus sign is allowed.\<close>

definition from_hex_pair :: "bytes \<Rightarrow> u8 option" where
  "from_hex_pair s =
     (case s of
        [a, b] \<Rightarrow>
          (case hex_value b of
             None \<Rightarrow> None
           | Some y \<Rightarrow>
               if a = 43 then Some (of_nat y)
               else (case hex_value a of None \<Rightarrow> None | Some x \<Rightarrow> Some (of_nat (16 * x + y))))
      | _ \<Rightarrow> None)"

fun hex_pairs :: "bytes \<Rightarrow> nat list \<Rightarrow> bytes option outcome" where
  "hex_pairs s [] = Ok (Some [])"
| "hex_pairs s (i # is) =
     obind (str_slice s i (i + 2))
       (\<lambda>p. case from_hex_pair p of
              None \<Rightarrow> Ok None
            | Some v \<Rightarrow> obind (hex_pairs s is)
                (\<lambda>r. Ok (case r of None \<Rightarrow> None | Some vs \<Rightarrow> Some (v # vs))))"

section \<open>Hexadecimal text reads back\<close>

definition hex_char :: "nat \<Rightarrow> u8" where
  "hex_char n = of_char (hex_digit n)"

lemma unat_hex_char: "n < 16 \<Longrightarrow> unat (hex_char n) = (if n < 10 then 48 + n else 87 + n)"
proof -
  have "(of_char c :: u8) = of_nat (of_char c :: nat)" for c by (rule of_nat_of_char [symmetric])
  then show "n < 16 \<Longrightarrow> unat (hex_char n) = (if n < 10 then 48 + n else 87 + n)"
    by (simp add: hex_char_def hex_digit_def unat_of_nat)
qed

lemma hex_char_facts [simp]:
  assumes "n < 16"
  shows "hex_value (hex_char n) = Some n" "\<not> utf8_cont (hex_char n)" "space_len [hex_char n] = 0"
    "hex_char n \<noteq> 43" "hex_char n < 0x80" "hex_char n \<noteq> 0"
  using assms
  by (simp_all add: hex_value_def utf8_cont_def word_le_nat_alt word_less_nat_alt word_unat_eq_iff unat_hex_char)

lemma ascii_hex: "ascii (hex bs) = concat (map (\<lambda>b. [hex_char (unat b div 16), hex_char (unat b mod 16)]) bs)"
  by (induction bs) (simp_all add: hex_def ascii_def hex_char_def)

lemma byte_halves [simp]: "unat (b :: u8) div 16 < 16" "unat b mod 16 < 16"
  using unsigned_less [of b, where ?'a = nat] by simp_all

lemma length_hex [simp, lens]: "length (hex bs) = 2 * length bs"
  by (induction bs) (simp_all add: hex_def)

lemma slice_hex:
  "i < length bs \<Longrightarrow>
     slice (i * 2) (i * 2 + 2) (ascii (hex bs)) = [hex_char (unat (bs ! i) div 16), hex_char (unat (bs ! i) mod 16)]"
  unfolding ascii_hex
proof (induction bs arbitrary: i)
  case (Cons b bs)
  then show ?case by (cases i) (simp_all add: slice_def)
qed simp

lemma hex_bytes:
  "c \<in> set (ascii (hex bs)) \<Longrightarrow> \<not> utf8_cont c \<and> space_len [c] = 0 \<and> c < 0x80 \<and> c \<noteq> 0"
  unfolding ascii_hex by (auto simp del: space_len.simps)

lemma hex_pairs_all:
  assumes "\<And>c. c \<in> set s \<Longrightarrow> \<not> utf8_cont c"
    and "\<And>i. i \<in> set is \<Longrightarrow> i + 2 \<le> length s \<and> from_hex_pair (slice i (i + 2) s) = Some (f i)"
  shows "hex_pairs s is = Ok (Some (map f is))"
  using assms(2)
proof (induction "is")
  case (Cons i "is")
  then have "i + 2 \<le> length s" by simp
  then have "str_slice s i (i + 2) = Ok (slice i (i + 2) s)"
    using assms(1) by (auto simp: str_slice_def is_char_boundary_def)
  with Cons show ?case by simp
qed simp

lemma hex_pairs_hex:
  "hex_pairs (ascii (hex bs)) (map (\<lambda>i. i * 2) [0..<length bs]) = Ok (Some bs)"
proof -
  have "from_hex_pair [hex_char (unat b div 16), hex_char (unat b mod 16)] = Some b" for b :: u8
    by (simp add: from_hex_pair_def)
  then have "hex_pairs (ascii (hex bs)) (map (\<lambda>i. i * 2) [0..<length bs]) =
      Ok (Some (map (\<lambda>k. bs ! (k div 2)) (map (\<lambda>i. i * 2) [0..<length bs])))"
    by (intro hex_pairs_all) (auto simp: slice_hex [simplified] dest: hex_bytes)
  then show ?thesis by (simp add: comp_def map_nth)
qed

lemma space_len_plain:
  assumes "c < 0x80" "space_len [c] = 0"
  shows "space_len (c # cs) = 0"
proof -
  have "c \<noteq> 0xC2" "c \<noteq> 0xE1" "c \<noteq> 0xE2" "c \<noteq> 0xE3" using assms(1) by auto
  moreover have "c \<noteq> 0x20" "\<not> (9 \<le> c \<and> c \<le> 13)" using assms(2) by auto
  ultimately show ?thesis by (cases "(c # cs)" rule: space_len.cases) simp_all
qed

lemma trim_plain:
  assumes "\<And>c. c \<in> set s \<Longrightarrow> c < 0x80 \<and> space_len [c] = 0"
  shows "trim s = s"
proof -
  have sp: "space_len (drop n s) = 0" for n
  proof (cases "drop n s")
    case (Cons c cs)
    then have "c \<in> set s" by (metis in_set_dropD list.set_intros(1))
    then show ?thesis using Cons assms space_len_plain by simp
  qed simp
  from sp [of 0] have "trim_start s = s" by (simp add: trim_start.simps [of s])
  moreover have "space_end s = 0" by (simp add: space_end_def Let_def sp)
  then have "trim_end s = s" by (simp add: trim_end.simps [of s])
  ultimately show ?thesis by (simp add: trim_def)
qed

lemma split_on_none: "d \<notin> set s \<Longrightarrow> split_on d s = [s]"
  by (induction s) auto

lemma split_on_append: "d \<notin> set a \<Longrightarrow> split_on d (a @ d # b) = a # split_on d b"
  by (induction a) auto

end
