(* ===== verification/Micron.thy ===== *)
theory Micron
  imports RustText
begin

text \<open>
  The page markup of \<open>libs/micron/src/lib.rs\<close>: a page is parsed into a flat list of styled lines and a
  table of links, and a link's URL is resolved into a target.

  A character is the list of the bytes that encode it, so the text of a segment is the concatenation of
  its characters. The flag \<open>emitted\<close> of \<open>scan_inline\<close> is written and never read, and is left out.
\<close>

datatype Style = Regular | Bold | Mono | Heading nat

datatype Align = Left | Center | Right

datatype Kind = Text | Divider | Link nat

record Line =
  ln_text :: bytes
  ln_style :: Style
  ln_align :: Align
  ln_kind :: Kind

record PageLink =
  lk_label :: bytes
  lk_url :: bytes
  lk_fields :: "(bytes \<times> bytes) list"

record Document =
  cache_secs :: "nat option"
  doc_title :: "bytes option"
  doc_lines :: "Line list"
  doc_links :: "PageLink list"

datatype LinkTarget =
  SameNode bytes | OtherNode bytes bytes | NodeIndex bytes | Lxmf bytes | Anchor | Unsupported

definition MAX_INPUT_BYTES :: nat where "MAX_INPUT_BYTES = 64 * 1024"
definition MAX_LINES :: nat where "MAX_LINES = 2000"

section \<open>Lines and segments\<close>

definition push_line :: "bytes \<Rightarrow> Style \<Rightarrow> Align \<Rightarrow> Kind \<Rightarrow> Document \<Rightarrow> Document" where
  "push_line body style align kind doc =
     (let t = trim body;
          titled = (if doc_title doc = None \<and> (case style of Heading _ \<Rightarrow> True | _ \<Rightarrow> False) \<and> t \<noteq> []
                    then doc\<lparr>doc_title := Some t\<rparr> else doc)
      in if length (doc_lines doc) < MAX_LINES
         then titled\<lparr>doc_lines := doc_lines titled @
                [\<lparr>ln_text = body, ln_style = style, ln_align = align, ln_kind = kind\<rparr>]\<rparr>
         else titled)"

text \<open>\<open>ScanState\<close>, without the literal flag, and the locals of \<open>scan_inline\<close>.\<close>

record Scan =
  sc_bold :: bool
  sc_align :: Align
  sc_seg :: bytes
  sc_seg_bold :: "bool option"
  sc_seg_align :: "Align option"
  sc_doc :: Document

definition push_seg_char :: "bytes \<Rightarrow> Scan \<Rightarrow> Scan" where
  "push_seg_char c sc =
     (let sc = (if sc_seg sc = [] then sc\<lparr>sc_seg_bold := Some (sc_bold sc), sc_seg_align := Some (sc_align sc)\<rparr> else sc)
      in sc\<lparr>sc_seg := sc_seg sc @ c\<rparr>)"

definition flush_seg :: "nat \<Rightarrow> Scan \<Rightarrow> Scan" where
  "flush_seg heading sc =
     (if trim (sc_seg sc) \<noteq> [] then
        let style = (if heading > 0 then Heading heading
                     else if (case sc_seg_bold sc of Some b \<Rightarrow> b | None \<Rightarrow> sc_bold sc) then Bold else Regular);
            align = (case sc_seg_align sc of Some a \<Rightarrow> a | None \<Rightarrow> sc_align sc)
        in sc\<lparr>sc_seg := [], sc_doc := push_line (sc_seg sc) style align Text (sc_doc sc)\<rparr>
      else sc\<lparr>sc_seg := []\<rparr>)"

section \<open>Links\<close>

definition var_fields :: "bytes \<Rightarrow> (bytes \<times> bytes) list" where
  "var_fields varstr =
     concat (map (\<lambda>e. case split_once 0x3D e of
                        Some (k, v) \<Rightarrow> if k \<noteq> [] then [(k, v)] else []
                      | None \<Rightarrow> []) (split_on 0x7C varstr))"

definition try_parse_link :: "bytes list \<Rightarrow> (PageLink \<times> nat) option" where
  "try_parse_link chars =
     (let close = length (takeWhile (\<lambda>c. c \<noteq> [0x5D]) chars)
      in if close = length chars then None
         else if close < 2 then None
         else
           let inner = concat (slice 1 close chars);
               parts = split_on 0x60 inner;
               first = hd parts;
               url = (if length parts > 1 then parts ! 1 else first)
           in if url = [] then None
              else Some (\<lparr>lk_label = first, lk_url = url, lk_fields = concat (map var_fields (drop 2 parts))\<rparr>,
                         close + 1))"

definition on_link :: "nat \<Rightarrow> PageLink \<Rightarrow> Scan \<Rightarrow> Scan" where
  "on_link heading link sc =
     (if heading > 0 then foldl (\<lambda>sc c. push_seg_char c sc) sc (utf8_chars (lk_label link))
      else
        let sc = flush_seg heading sc; doc = sc_doc sc; n = length (doc_links doc)
        in if n < 0xFFFF
           then sc\<lparr>sc_doc := push_line (0xC2 # 0xBB # 0x20 # lk_label link) Regular (sc_align sc) (Link n)
                    (doc\<lparr>doc_links := doc_links doc @ [link]\<rparr>)\<rparr>
           else sc)"

section \<open>Inline tags\<close>

definition ch :: "char \<Rightarrow> bytes" where
  "ch c = [of_char c]"

text \<open>What follows a backtick: the characters left, and the state.\<close>

definition on_tag :: "nat \<Rightarrow> bytes \<Rightarrow> bytes list \<Rightarrow> Scan \<Rightarrow> bytes list \<times> Scan" where
  "on_tag heading t ts sc =
     (if t = ch CHR ''`'' then (ts, sc\<lparr>sc_bold := False, sc_align := Left\<rparr>)
      else if t = ch CHR ''!'' then (ts, sc\<lparr>sc_bold := \<not> sc_bold sc\<rparr>)
      else if t = ch CHR ''*'' \<or> t = ch CHR ''_'' then (ts, sc)
      else if t = ch CHR ''F'' \<or> t = ch CHR ''B'' then
        (drop (if ts \<noteq> [] \<and> hd ts = ch CHR ''T'' then 7 else 3) ts, sc)
      else if t = ch CHR ''f'' \<or> t = ch CHR ''b'' then (ts, sc)
      else if t = ch CHR ''c'' then (ts, sc\<lparr>sc_align := Center\<rparr>)
      else if t = ch CHR ''r'' then (ts, sc\<lparr>sc_align := Right\<rparr>)
      else if t = ch CHR ''l'' \<or> t = ch CHR ''a'' then (ts, sc\<lparr>sc_align := Left\<rparr>)
      else if t = ch CHR ''<'' then
        (drop 1 (dropWhile (\<lambda>c. c \<noteq> ch CHR ''>'') ts),
         foldl (\<lambda>sc c. push_seg_char (ch c) sc) sc ''[____]'')
      else if t = ch CHR ''{'' then (drop 1 (dropWhile (\<lambda>c. c \<noteq> ch CHR ''}'') ts), sc)
      else if t = ch CHR ''['' then
        (case try_parse_link (t # ts) of
           Some (link, consumed) \<Rightarrow> (drop consumed (t # ts), on_link heading link sc)
         | None \<Rightarrow> (ts, push_seg_char t sc))
      else if t = [0] then (t # ts, sc)
      else (ts, sc))"

lemma if_both: "Q x \<Longrightarrow> Q y \<Longrightarrow> Q (if b then x else y)"
  by simp

lemma on_tag_shorter: "length (fst (on_tag heading t ts sc)) \<le> length (t # ts)"
proof -
  have "length (dropWhile P ts) - Suc 0 \<le> Suc (length ts)" for P
    using length_dropWhile_le [of P ts] by simp
  then show ?thesis
    unfolding on_tag_def
    by (intro if_both [where Q = "\<lambda>p. length (fst p) \<le> length (t # ts)"]) (simp_all split: option.split)
qed

function scan_chars :: "nat \<Rightarrow> bytes list \<Rightarrow> Scan \<Rightarrow> Scan" where
  "scan_chars heading [] sc = sc"
| "scan_chars heading (c # cs) sc =
     (if c = [0x5C] then
        (case cs of d # ds \<Rightarrow> scan_chars heading ds (push_seg_char d sc) | [] \<Rightarrow> sc)
      else if c = [0x60] then
        (case cs of
           [] \<Rightarrow> sc
         | t # ts \<Rightarrow> scan_chars heading (fst (on_tag heading t ts sc)) (snd (on_tag heading t ts sc)))
      else scan_chars heading cs (push_seg_char c sc))"
  by pat_completeness auto
termination
  by (relation "measure (\<lambda>(h, cs, sc). length cs)") (simp_all add: less_Suc_eq_le split_beta on_tag_shorter [simplified])

definition scan_inline :: "bytes \<Rightarrow> nat \<Rightarrow> bool \<times> Align \<times> Document \<Rightarrow> bool \<times> Align \<times> Document" where
  "scan_inline body heading st =
     (let sc = flush_seg heading (scan_chars heading (utf8_chars body)
                 \<lparr>sc_bold = fst st, sc_align = fst (snd st), sc_seg = [], sc_seg_bold = None, sc_seg_align = None,
                  sc_doc = snd (snd st)\<rparr>)
      in (sc_bold sc, sc_align sc, sc_doc sc))"

section \<open>A page\<close>

text \<open>The start of a text, cut where a character begins.\<close>

primrec boundary_below :: "bytes \<Rightarrow> nat \<Rightarrow> nat" where
  "boundary_below s 0 = 0"
| "boundary_below s (Suc e) = (if is_char_boundary s (Suc e) then Suc e else boundary_below s e)"

definition truncate_utf8 :: "bytes \<Rightarrow> nat \<Rightarrow> bytes outcome" where
  "truncate_utf8 s limit = (if length s \<le> limit then Ok s else str_slice s 0 (boundary_below s limit))"

text \<open>Up to three leading \<open>>\<close>: their number, and the rest.\<close>

fun strip_heading :: "nat \<Rightarrow> bytes \<Rightarrow> nat \<times> bytes" where
  "strip_heading n (b # bs) = (if b = 0x3E \<and> n < 3 then strip_heading (n + 1) bs else (n, b # bs))"
| "strip_heading n [] = (n, [])"

record Page =
  pg_bold :: bool
  pg_align :: Align
  pg_literal :: bool
  pg_doc :: Document

definition parse_line :: "bytes \<Rightarrow> Page \<Rightarrow> Page" where
  "parse_line line p =
     (let doc = pg_doc p;
          put = (\<lambda>body style align kind. p\<lparr>pg_doc := push_line body style align kind doc\<rparr>)
      in if trim line = ascii ''`='' then p\<lparr>pg_literal := \<not> pg_literal p\<rparr>
         else if pg_literal p then
           put (if trim line = 0x5C # ascii ''`='' then ascii ''`='' else line) Mono Left Text
         else
           case strip_prefix (ascii ''#!c='') line of
             Some rest \<Rightarrow>
               if cache_secs doc = None then p\<lparr>pg_doc := doc\<lparr>cache_secs := parse_u32 (trim rest)\<rparr>\<rparr> else p
           | None \<Rightarrow>
               if starts_with (ascii ''#'') line then p
               else if starts_with (ascii ''`t'') line then p
               else if starts_with (ascii ''-'') line then put [] Regular (pg_align p) Divider
               else
                 let (heading, body) = strip_heading 0 line;
                     body = (if heading = 0 then (case strip_prefix (ascii ''<'') body of Some r \<Rightarrow> r | None \<Rightarrow> body)
                             else body)
                 in if body = [] \<and> heading = 0 then put [] Regular (pg_align p) Text
                    else
                      let (bold, align, doc) = scan_inline body heading (pg_bold p, pg_align p, doc)
                      in p\<lparr>pg_bold := bold, pg_align := align, pg_doc := doc\<rparr>)"

fun parse_lines :: "bytes list \<Rightarrow> Page \<Rightarrow> Page" where
  "parse_lines [] p = p"
| "parse_lines (l # ls) p =
     (if length (doc_lines (pg_doc p)) \<ge> MAX_LINES then p else parse_lines ls (parse_line l p))"

definition Document_default :: Document where
  "Document_default = \<lparr>cache_secs = None, doc_title = None, doc_lines = [], doc_links = []\<rparr>"

definition parse_page :: "bytes \<Rightarrow> Document outcome" where
  "parse_page src =
     obind (truncate_utf8 src MAX_INPUT_BYTES) (\<lambda>src.
       Ok (pg_doc (parse_lines (text_lines src)
             \<lparr>pg_bold = False, pg_align = Left, pg_literal = False, pg_doc = Document_default\<rparr>)))"

section \<open>Following a link\<close>

definition parse_hash :: "bytes \<Rightarrow> bytes option outcome" where
  "parse_hash s =
     (let s = trim s
      in if length s \<noteq> 32 \<or> \<not> list_all (\<lambda>b. hex_value b \<noteq> None) s then Ok None
         else hex_pairs s (map (\<lambda>i. i * 2) [0..<16]))"

definition ascii_lower :: "u8 \<Rightarrow> u8" where
  "ascii_lower b = (if 65 \<le> b \<and> b \<le> 90 then b + 32 else b)"

definition resolve_link :: "bytes \<Rightarrow> LinkTarget outcome" where
  "resolve_link url =
     (let url = trim url
      in if url = [] then Ok Unsupported
         else if starts_with (ascii ''#'') url then Ok Anchor
         else case split_once 0x40 url of
           Some (scheme, rest) \<Rightarrow>
             if map ascii_lower scheme = ascii ''lxmf'' then
               obind (parse_hash (hd (split_on 0x3A rest)))
                 (\<lambda>h. Ok (case h of Some a \<Rightarrow> Lxmf a | None \<Rightarrow> Unsupported))
             else Ok Unsupported
         | None \<Rightarrow>
             (case split_once 0x3A url of
                Some (addr, path) \<Rightarrow>
                  if addr = [] then Ok (SameNode path)
                  else obind (parse_hash addr) (\<lambda>h. Ok (case h of
                         Some a \<Rightarrow> if path \<noteq> [] then OtherNode a path else NodeIndex a
                       | None \<Rightarrow> Unsupported))
              | None \<Rightarrow> obind (parse_hash url) (\<lambda>h. Ok (case h of
                         Some a \<Rightarrow> NodeIndex a
                       | None \<Rightarrow> if starts_with (ascii ''/'') url then SameNode url else Unsupported))))"

section \<open>Every page is well formed\<close>

definition line_ok :: "PageLink list \<Rightarrow> Line \<Rightarrow> bool" where
  "line_ok ls l \<longleftrightarrow>
     (case ln_kind l of
        Link n \<Rightarrow> n < length ls \<and> ln_text l = 0xC2 # 0xBB # 0x20 # lk_label (ls ! n)
      | Divider \<Rightarrow> ln_text l = []
      | Text \<Rightarrow> True) \<and>
     (case ln_style l of Heading h \<Rightarrow> 1 \<le> h \<and> h \<le> 3 | _ \<Rightarrow> True)"

definition doc_ok :: "Document \<Rightarrow> bool" where
  "doc_ok d \<longleftrightarrow> length (doc_lines d) \<le> MAX_LINES \<and> length (doc_links d) \<le> 0xFFFF \<and>
     list_all (line_ok (doc_links d)) (doc_lines d) \<and> list_all (\<lambda>k. lk_url k \<noteq> []) (doc_links d) \<and>
     doc_title d \<noteq> Some []"

lemma line_ok_more: "line_ok ls l \<Longrightarrow> line_ok (ls @ ls') l"
  by (auto simp: line_ok_def nth_append split: Kind.splits)

lemma push_line_sel [simp]:
  "doc_links (push_line body style align kind d) = doc_links d"
  by (simp add: push_line_def Let_def)

lemma push_line_ok:
  assumes "doc_ok d" "line_ok (doc_links d) \<lparr>ln_text = body, ln_style = style, ln_align = align, ln_kind = kind\<rparr>"
  shows "doc_ok (push_line body style align kind d)"
  using assms by (simp add: doc_ok_def push_line_def Let_def)

lemma push_seg_char_doc [simp]: "sc_doc (push_seg_char c sc) = sc_doc sc"
  by (simp add: push_seg_char_def Let_def)

lemma push_seg_chars_doc [simp]: "sc_doc (foldl (\<lambda>sc c. push_seg_char (f c) sc) sc cs) = sc_doc sc"
  by (induction cs arbitrary: sc) simp_all

lemma flush_seg_ok: "heading \<le> 3 \<Longrightarrow> doc_ok (sc_doc sc) \<Longrightarrow> doc_ok (sc_doc (flush_seg heading sc))"
  by (simp add: flush_seg_def Let_def push_line_ok line_ok_def)

lemma try_parse_link_url: "try_parse_link chars = Some (link, n) \<Longrightarrow> lk_url link \<noteq> []"
  by (auto simp: try_parse_link_def Let_def split: if_splits)

lemma on_link_ok:
  assumes "heading \<le> 3" "doc_ok (sc_doc sc)" "lk_url link \<noteq> []"
  shows "doc_ok (sc_doc (on_link heading link sc))"
proof (cases "heading > 0")
  case True
  then show ?thesis using assms push_seg_chars_doc [of "\<lambda>c. c"] by (simp add: on_link_def)
next
  case False
  let ?d = "sc_doc (flush_seg heading sc)"
  have d: "doc_ok ?d" using flush_seg_ok assms by blast
  show ?thesis
  proof (cases "length (doc_links ?d) < 0xFFFF")
    case True
    let ?d' = "?d\<lparr>doc_links := doc_links ?d @ [link]\<rparr>"
    have "doc_ok ?d'" using d True assms(3) by (auto simp: doc_ok_def list_all_iff line_ok_more)
    then show ?thesis using False True by (simp add: on_link_def Let_def push_line_ok line_ok_def)
  next
    case n: False
    then show ?thesis using False d by (simp add: on_link_def Let_def)
  qed
qed

lemma on_tag_ok:
  assumes "heading \<le> 3" "doc_ok (sc_doc sc)"
  shows "doc_ok (sc_doc (snd (on_tag heading t ts sc)))"
  unfolding on_tag_def
  by (intro if_both [where Q = "\<lambda>p. doc_ok (sc_doc (snd p))"])
    (use assms in \<open>auto simp: on_link_ok try_parse_link_url split: option.split\<close>)

lemma scan_chars_ok:
  "heading \<le> 3 \<Longrightarrow> doc_ok (sc_doc sc) \<Longrightarrow> doc_ok (sc_doc (scan_chars heading cs sc))"
  by (induction heading cs sc rule: scan_chars.induct) (auto simp: on_tag_ok split: list.split)

lemma scan_inline_ok: "heading \<le> 3 \<Longrightarrow> doc_ok d \<Longrightarrow> doc_ok (snd (snd (scan_inline body heading (b, a, d))))"
  by (simp add: scan_inline_def Let_def flush_seg_ok scan_chars_ok)

lemma strip_heading_le: "n \<le> 3 \<Longrightarrow> fst (strip_heading n bs) \<le> 3"
  by (induction n bs rule: strip_heading.induct) simp_all

lemma parse_line_ok:
  assumes "doc_ok (pg_doc p)"
  shows "doc_ok (pg_doc (parse_line l p))"
proof -
  obtain h body where h: "strip_heading 0 l = (h, body)" by fastforce
  with strip_heading_le [of 0 l] have "h \<le> 3" by simp
  then have "doc_ok (snd (snd (scan_inline b h (pg_bold p, pg_align p, pg_doc p))))" for b
    using assms by (rule scan_inline_ok)
  moreover have "doc_ok (pg_doc p\<lparr>cache_secs := c\<rparr>)" for c using assms by (simp add: doc_ok_def)
  ultimately show ?thesis
    using assms unfolding parse_line_def Let_def h
    by (auto simp: push_line_ok line_ok_def split_beta split: option.split)
qed

lemma parse_lines_ok: "doc_ok (pg_doc p) \<Longrightarrow> doc_ok (pg_doc (parse_lines ls p))"
  by (induction ls p rule: parse_lines.induct) (simp_all add: parse_line_ok)

lemma boundary_below: "is_char_boundary s (boundary_below s n)"
  by (induction n) (simp_all add: is_char_boundary_def)

lemma truncate_utf8_total: "\<exists>t. truncate_utf8 s limit = Ok t"
  using boundary_below by (auto simp: truncate_utf8_def str_slice_def is_char_boundary_def)

text \<open>
  C22. Every page parses. Whatever a node serves, the parser returns a document without a panic, and the
  document is well formed: at most 2000 lines and 65535 links, every link line names a link of the table and
  shows that link's label, every link has a URL, headings have depth one to three, and a title is not
  empty.\<close>

theorem page_document: "\<exists>d. parse_page src = Ok d \<and> doc_ok d"
proof -
  obtain t where "truncate_utf8 src MAX_INPUT_BYTES = Ok t" using truncate_utf8_total by blast
  moreover have "doc_ok Document_default" by (simp add: doc_ok_def Document_default_def)
  ultimately show ?thesis by (simp add: parse_page_def parse_lines_ok)
qed

section \<open>Plain text is shown as it is\<close>

lemma concat_utf8_chars: "concat (utf8_chars bs) = bs"
proof (induction bs rule: utf8_chars.induct)
  case (1 bs)
  then show ?case by (subst utf8_chars.simps) (cases "bs = []", simp_all)
qed

lemma utf8_chars_nonempty: "c \<in> set (utf8_chars bs) \<Longrightarrow> c \<noteq> []"
proof (induction bs rule: utf8_chars.induct)
  case (1 bs)
  show ?case
  proof (cases "bs = []")
    case False
    then show ?thesis
      using 1 utf8_step_pos [OF False] by (auto simp: utf8_chars.simps [of bs])
  qed (use 1 in \<open>simp add: utf8_chars.simps\<close>)
qed

lemma utf8_chars_bytes: "c \<in> set (utf8_chars bs) \<Longrightarrow> b \<in> set c \<Longrightarrow> b \<in> set bs"
  using set_concat [of "utf8_chars bs"] by (auto simp: concat_utf8_chars)

lemma scan_plain:
  assumes "\<forall>c\<in>set cs. c \<noteq> [] \<and> c \<noteq> [0x5C] \<and> c \<noteq> [0x60]"
  shows "scan_chars heading cs sc =
    (if cs = [] then sc
     else if sc_seg sc = []
       then sc\<lparr>sc_seg := concat cs, sc_seg_bold := Some (sc_bold sc), sc_seg_align := Some (sc_align sc)\<rparr>
     else sc\<lparr>sc_seg := sc_seg sc @ concat cs\<rparr>)"
  using assms
proof (induction cs arbitrary: sc)
  case (Cons c cs)
  then show ?case by (cases "cs = []") (simp_all add: push_seg_char_def Let_def)
qed simp

text \<open>A line without markup: not blank, no backslash and no backtick, and no special character in front.\<close>

definition plain_line :: "bytes \<Rightarrow> bool" where
  "plain_line l \<longleftrightarrow> trim l \<noteq> [] \<and> 0x5C \<notin> set l \<and> 0x60 \<notin> set l \<and>
     l \<noteq> [] \<and> hd l \<noteq> 0x23 \<and> hd l \<noteq> 0x2D \<and> hd l \<noteq> 0x3E \<and> hd l \<noteq> 0x3C"

lemma scan_inline_plain:
  assumes "trim l \<noteq> []" "0x5C \<notin> set l" "0x60 \<notin> set l" "l \<noteq> []"
  shows "scan_inline l 0 (False, a, d) = (False, a, push_line l Regular a Text d)"
proof -
  have "\<forall>c\<in>set (utf8_chars l). c \<noteq> [] \<and> c \<noteq> [0x5C] \<and> c \<noteq> [0x60]"
    using assms(2,3) utf8_chars_nonempty utf8_chars_bytes by fastforce
  moreover have "utf8_chars l \<noteq> []" using assms(4) by (simp add: utf8_chars.simps [of l])
  ultimately show ?thesis
    using assms(1) by (simp add: scan_inline_def Let_def scan_plain concat_utf8_chars flush_seg_def)
qed

lemma trim_start_subset: "set (trim_start s) \<subseteq> set s"
proof (induction s rule: trim_start.induct)
  case (1 s)
  then show ?case using set_drop_subset [of "space_len s" s] by (subst trim_start.simps) (auto split: if_splits)
qed

lemma trim_end_subset: "set (trim_end s) \<subseteq> set s"
proof (induction s rule: trim_end.induct)
  case (1 s)
  then show ?case
    using set_take_subset [of "length s - space_end s" s] by (subst trim_end.simps) (auto split: if_splits)
qed

lemma trim_subset: "set (trim s) \<subseteq> set s"
  using trim_start_subset trim_end_subset by (fastforce simp: trim_def)

lemma parse_line_plain:
  assumes "plain_line l" "\<not> pg_bold p" "\<not> pg_literal p"
  shows "parse_line l p = p\<lparr>pg_doc := push_line l Regular (pg_align p) Text (pg_doc p)\<rparr>"
proof -
  obtain b bs where l: "l = b # bs" using assms(1) by (auto simp: plain_line_def neq_Nil_conv)
  have "0x60 \<notin> set (trim l)" using trim_subset assms(1) by (auto simp: plain_line_def)
  then have "trim l \<noteq> ascii ''`=''" by (auto simp: ascii_def)
  moreover have "strip_prefix (ascii ''#!c='') l = None" "strip_prefix (ascii ''<'') l = None"
    "\<not> starts_with (ascii ''#'') l" "\<not> starts_with (ascii ''`t'') l" "\<not> starts_with (ascii ''-'') l"
    "strip_heading 0 l = (0, l)"
    using assms(1) l by (auto simp: plain_line_def strip_prefix_def starts_with_def ascii_def)
  ultimately show ?thesis
    using assms scan_inline_plain [of l "pg_align p" "pg_doc p"] l by (simp add: parse_line_def plain_line_def)
qed

lemma parse_lines_plain:
  assumes "list_all plain_line ls" "\<not> pg_bold p" "\<not> pg_literal p" "pg_align p = Left"
    "length (doc_lines (pg_doc p)) + length ls \<le> MAX_LINES"
  shows "doc_lines (pg_doc (parse_lines ls p)) = doc_lines (pg_doc p) @
    map (\<lambda>l. \<lparr>ln_text = l, ln_style = Regular, ln_align = Left, ln_kind = Text\<rparr>) ls"
  using assms by (induction ls arbitrary: p) (simp_all add: parse_line_plain push_line_def Let_def)

lemma text_lines_concat:
  assumes "\<forall>l\<in>set ls. 10 \<notin> set l \<and> (l \<noteq> [] \<longrightarrow> last l \<noteq> 13)"
  shows "text_lines (concat (map (\<lambda>l. l @ [10]) ls)) = ls"
proof -
  have "split_on 10 (concat (map (\<lambda>l. l @ [10]) ls)) = ls @ [[]]"
    using assms by (induction ls) (simp_all add: split_on_append)
  moreover have "map strip_cr ls = ls" using assms by (intro map_idI) (auto simp: strip_cr_def)
  ultimately show ?thesis by (simp add: text_lines_def Let_def)
qed

text \<open>
  Plain text is shown as it is: a page of up to 2000 lines and 64 KiB without markup is displayed line by line,
  left-aligned and in the regular style.\<close>

theorem plain_page_shown:
  assumes "list_all plain_line ls" "\<forall>l\<in>set ls. 10 \<notin> set l \<and> last l \<noteq> 13" "length ls \<le> MAX_LINES"
    and "length (concat (map (\<lambda>l. l @ [10]) ls)) \<le> MAX_INPUT_BYTES"
  shows "\<exists>d. parse_page (concat (map (\<lambda>l. l @ [10]) ls)) = Ok d \<and>
    doc_lines d = map (\<lambda>l. \<lparr>ln_text = l, ln_style = Regular, ln_align = Left, ln_kind = Text\<rparr>) ls"
  using assms
  by (simp add: parse_page_def truncate_utf8_def text_lines_concat parse_lines_plain Document_default_def)

text \<open>The addresses that a page can link to are the ones the resolver reads back.\<close>

lemma all_hex: "list_all (\<lambda>b. hex_value b \<noteq> None) (ascii (hex a))"
  by (auto simp: ascii_hex list_all_iff)

lemma parse_hash_hex [simp]: "length a = 16 \<Longrightarrow> parse_hash (ascii (hex a)) = Ok (Some a)"
  using hex_pairs_hex [of a] trim_plain [of "ascii (hex a)"] hex_bytes [of _ a] all_hex [of a]
  by (simp add: parse_hash_def Let_def)

lemma split_once_append: "d \<notin> set a \<Longrightarrow> split_once d (a @ d # b) = Some (a, b)"
  by (induction a) auto

lemma split_once_none: "d \<notin> set a \<Longrightarrow> split_once d a = None"
  by (induction a) auto

lemma hex_no_mark: "b \<in> set (ascii (hex a)) \<Longrightarrow> b \<noteq> 0x40 \<and> b \<noteq> 0x3A \<and> b \<noteq> 0x23"
  using all_hex [of a] by (auto simp: list_all_iff hex_value_def)

theorem links_resolve:
  assumes "length a = 16" "\<forall>c\<in>set path. c < 0x80 \<and> space_len [c] = 0 \<and> c \<noteq> 0x40"
  shows "resolve_link (ascii (hex a)) = Ok (NodeIndex a)"
    and "resolve_link (ascii (hex a) @ 0x3A # path) = Ok (if path = [] then NodeIndex a else OtherNode a path)"
    and "resolve_link (0x3A # path) = Ok (SameNode path)"
proof -
  have "\<forall>c\<in>set (ascii (hex a) @ 0x3A # path). c < 0x80 \<and> space_len [c] = 0"
    using assms(2) hex_bytes [of _ a] by (simp del: space_len.simps add: ball_Un) simp
  then have tr: "trim s = s" if "set s \<subseteq> set (ascii (hex a) @ 0x3A # path)" for s
    by (intro trim_plain) (use that in \<open>blast\<close>)
  have t: "trim (ascii (hex a)) = ascii (hex a)" "trim (ascii (hex a) @ 0x3A # path) = ascii (hex a) @ 0x3A # path"
    "trim (0x3A # path) = 0x3A # path" by (rule tr; auto)+
  have ne: "ascii (hex a) \<noteq> []" using assms(1) by (auto simp: ascii_hex)
  then have h: "\<not> starts_with (ascii ''#'') (ascii (hex a) @ r)" for r
    using hex_no_mark [of "hd (ascii (hex a))" a] by (auto simp: starts_with_def ascii_def [of "''#''"] neq_Nil_conv)
  have at: "0x40 \<notin> set (ascii (hex a) @ 0x3A # path)" "0x40 \<notin> set (0x3A # path)" "0x40 \<notin> set (ascii (hex a))"
    "0x3A \<notin> set (ascii (hex a))"
    using assms(2) hex_no_mark by auto
  show "resolve_link (ascii (hex a)) = Ok (NodeIndex a)"
    using t(1) ne h [of "[]"] at(3,4) assms(1) by (simp add: resolve_link_def Let_def split_once_none)
  show "resolve_link (ascii (hex a) @ 0x3A # path) = Ok (if path = [] then NodeIndex a else OtherNode a path)"
    using t(2) ne h [of "0x3A # path"] split_once_none [OF at(1)] split_once_append [OF at(4), of path] assms(1)
    by (simp add: resolve_link_def Let_def)
  show "resolve_link (0x3A # path) = Ok (SameNode path)"
    using t(3) split_once_none [OF at(2)] by (simp add: resolve_link_def Let_def starts_with_def ascii_def)
qed

end
