(* ===== verification/Stateful.thy ===== *)
theory Stateful
  imports Prelude "HOL-Library.State_Monad"
begin

text \<open>
  Programs over a shared state, in the state monad of the library: reading a field, updating the state,
  asking the outside world, and a logic for the two kinds of fact the application's proofs need.

  \<^item> \<open>ensures I m Q\<close>: run in a state that satisfies the invariant \<open>I\<close>, the program \<open>m\<close> returns a
    value that satisfies \<open>Q\<close> and leaves a state that satisfies \<open>I\<close> again.
  \<^item> \<open>frames f m\<close>: the program does not change the part \<open>f\<close> of the state.

  The rules of the two are collected in \<open>ensures_rules\<close> and \<open>frames_rules\<close>.
\<close>

definition gets :: "('s \<Rightarrow> 'a) \<Rightarrow> ('s, 'a) state" where
  "gets f = State (\<lambda>s. (f s, s))"

definition modify :: "('s \<Rightarrow> 's) \<Rightarrow> ('s, unit) state" where
  "modify f = State (\<lambda>s. ((), f s))"

fun each :: "('a \<Rightarrow> ('s, unit) state) \<Rightarrow> 'a list \<Rightarrow> ('s, unit) state" where
  "each f [] = State_Monad.return ()"
| "each f (x # xs) = do { f x; each f xs }"

text \<open>A program that may panic: the rest runs only if the first part returned.\<close>

definition andthen :: "('s, 'a outcome) state \<Rightarrow> ('a \<Rightarrow> ('s, 'b outcome) state) \<Rightarrow> ('s, 'b outcome) state" where
  "andthen m f = do {
     r \<leftarrow> m;
     case r of
       Ok a \<Rightarrow> f a
     | Err e \<Rightarrow> State_Monad.return (Err e)
     | Panic \<Rightarrow> State_Monad.return Panic
     | OutOfFuel \<Rightarrow> State_Monad.return OutOfFuel }"

lemma run_andthen:
  "run_state (andthen m f) s =
     (case run_state m s of
        (Ok a, s') \<Rightarrow> run_state (f a) s'
      | (Err e, s') \<Rightarrow> (Err e, s')
      | (Panic, s') \<Rightarrow> (Panic, s')
      | (OutOfFuel, s') \<Rightarrow> (OutOfFuel, s'))"
  by (simp add: andthen_def split: prod.split outcome.split)

lemma run_gets [simp]: "run_state (gets f) s = (f s, s)"
  by (simp add: gets_def)

lemma run_modify [simp]: "run_state (modify f) s = ((), f s)"
  by (simp add: modify_def)

section \<open>Invariants and results\<close>

named_theorems ensures_rules \<open>rules that establish an invariant of a program\<close>

definition ensures :: "('s \<Rightarrow> bool) \<Rightarrow> ('s, 'a) state \<Rightarrow> ('a \<Rightarrow> bool) \<Rightarrow> bool" where
  "ensures I m Q \<longleftrightarrow> (\<forall>s. I s \<longrightarrow> Q (fst (run_state m s)) \<and> I (snd (run_state m s)))"

lemma ensuresD: "ensures I m Q \<Longrightarrow> I s \<Longrightarrow> run_state m s = (a, s') \<Longrightarrow> Q a \<and> I s'"
  unfolding ensures_def by (metis fst_conv snd_conv)

lemma ensures_return [ensures_rules]: "Q a \<Longrightarrow> ensures I (State_Monad.return a) Q"
  by (simp add: ensures_def)

lemma ensures_bind:
  "ensures I m R \<Longrightarrow> (\<And>a. R a \<Longrightarrow> ensures I (f a) Q) \<Longrightarrow> ensures I (State_Monad.bind m f) Q"
  unfolding ensures_def run_state_bind split_beta by blast

lemma ensures_conseq: "ensures I m R \<Longrightarrow> (\<And>a. R a \<Longrightarrow> Q a) \<Longrightarrow> ensures I m Q"
  by (auto simp: ensures_def)

lemma ensures_gets: "(\<And>s. I s \<Longrightarrow> Q (f s)) \<Longrightarrow> ensures I (gets f) Q"
  by (simp add: ensures_def)

lemma ensures_modify: "(\<And>s. I s \<Longrightarrow> I (f s)) \<Longrightarrow> Q () \<Longrightarrow> ensures I (modify f) Q"
  by (simp add: ensures_def)

lemma ensures_each: "(\<And>x. x \<in> set xs \<Longrightarrow> ensures I (f x) (\<lambda>_. True)) \<Longrightarrow> ensures I (each f xs) (\<lambda>_. True)"
  by (induction xs) (auto intro: ensures_return ensures_bind)

lemma ensures_if:
  "(b \<Longrightarrow> ensures I m Q) \<Longrightarrow> (\<not> b \<Longrightarrow> ensures I n Q) \<Longrightarrow> ensures I (if b then m else n) Q"
  by simp

lemma ensures_option:
  "(v = None \<Longrightarrow> ensures I m Q) \<Longrightarrow> (\<And>x. v = Some x \<Longrightarrow> ensures I (f x) Q) \<Longrightarrow>
     ensures I (case v of None \<Rightarrow> m | Some x \<Rightarrow> f x) Q"
  by (simp split: option.split)

lemma ensures_prod: "(\<And>x y. v = (x, y) \<Longrightarrow> ensures I (f x y) Q) \<Longrightarrow> ensures I (case v of (x, y) \<Rightarrow> f x y) Q"
  by (simp split: prod.split)

lemma ensures_andthen:
  "ensures I m R \<Longrightarrow> (\<And>a. R (Ok a) \<Longrightarrow> ensures I (f a) Q) \<Longrightarrow>
     (\<And>e. R (Err e) \<Longrightarrow> Q (Err e)) \<Longrightarrow> (R Panic \<Longrightarrow> Q Panic) \<Longrightarrow> (R OutOfFuel \<Longrightarrow> Q OutOfFuel) \<Longrightarrow>
     ensures I (andthen m f) Q"
  unfolding andthen_def by (rule ensures_bind, assumption) (auto intro: ensures_return split: outcome.split)

lemma ensures_then: "(\<And>a. ensures (\<lambda>_. True) (f a) Q) \<Longrightarrow> ensures (\<lambda>_. True) (State_Monad.bind m f) Q"
  by (simp add: ensures_def split_beta)

text \<open>For a fact about the result alone, whatever the state: follow the program to its returns.\<close>

lemmas results = ensures_return ensures_then ensures_if ensures_option ensures_prod

section \<open>Parts a program leaves alone\<close>

named_theorems frames_rules \<open>rules that a program leaves a part of the state alone\<close>

definition frames :: "('s \<Rightarrow> 'f) \<Rightarrow> ('s, 'a) state \<Rightarrow> bool" where
  "frames p m \<longleftrightarrow> (\<forall>s. p (snd (run_state m s)) = p s)"

lemma framesD: "frames p m \<Longrightarrow> run_state m s = (a, s') \<Longrightarrow> p s' = p s"
  unfolding frames_def by (metis snd_conv)

lemma frames_return [frames_rules]: "frames p (State_Monad.return a)"
  by (simp add: frames_def)

lemma frames_bind [frames_rules]: "frames p m \<Longrightarrow> (\<And>a. frames p (f a)) \<Longrightarrow> frames p (State_Monad.bind m f)"
  by (simp add: frames_def split: prod.splits) (metis snd_conv)

lemma frames_gets [frames_rules]: "frames p (gets f)"
  by (simp add: frames_def)

lemma frames_modify: "(\<And>s. p (f s) = p s) \<Longrightarrow> frames p (modify f)"
  by (simp add: frames_def)

lemma frames_if [frames_rules]: "frames p m \<Longrightarrow> frames p n \<Longrightarrow> frames p (if b then m else n)"
  by simp

lemma frames_option [frames_rules]:
  "frames p m \<Longrightarrow> (\<And>x. frames p (f x)) \<Longrightarrow> frames p (case v of None \<Rightarrow> m | Some x \<Rightarrow> f x)"
  by (simp split: option.split)

lemma frames_prod [frames_rules]: "(\<And>x y. frames p (f x y)) \<Longrightarrow> frames p (case v of (x, y) \<Rightarrow> f x y)"
  by (simp split: prod.split)

lemma frames_outcome [frames_rules]:
  "(\<And>a. frames p (f a)) \<Longrightarrow> (\<And>e. frames p (g e)) \<Longrightarrow> frames p m \<Longrightarrow> frames p n \<Longrightarrow>
     frames p (case v of Ok a \<Rightarrow> f a | Err e \<Rightarrow> g e | Panic \<Rightarrow> m | OutOfFuel \<Rightarrow> n)"
  by (simp split: outcome.split)

lemma frames_andthen [frames_rules]: "frames p m \<Longrightarrow> (\<And>a. frames p (f a)) \<Longrightarrow> frames p (andthen m f)"
  by (simp add: andthen_def frames_rules)

lemma frames_each [frames_rules]: "(\<And>x. frames p (f x)) \<Longrightarrow> frames p (each f xs)"
  by (induction xs) (simp_all add: frames_rules)

end
