(* ===== verification/App.thy ===== *)
theory App
  imports Micron Stateful Hdlc Message Session "HOL-Library.List_Lexorder"
begin

text \<open>
  The state the threads of the chat application share (\<open>apps/lxmfchat/src/net.rs\<close>, \<open>Shared\<close>), and the
  operations every handler is built from: the interfaces, the random generator, the status line, the
  store, and the requests sent on behalf of a message.

  Conventions. A handler is a program over \<open>Shared\<close>; a mutex-protected field is a field of the record,
  and taking its lock and using it is one step of the program. A Rust \<open>String\<close> is the list of its UTF-8
  bytes. What the handlers do outside the process is appended to \<open>sh_log\<close>; what the outside answers
  (the hub socket, the UDP socket, the chat server, the store) is a function of \<open>env\<close> of the number of
  the question, so that it may differ from one call to the next. A handler reads the clock once, as \<open>now\<close>.
  Times are \<open>u64\<close> seconds; the sum of a reading and one of the constants below stays far from \<open>2 ^ 64\<close>.
  A \<open>BTreeMap\<close> is an ordered association list, its keys compared as byte strings.
\<close>

section \<open>Text\<close>

definition ellipsis :: bytes where "ellipsis = [0xE2, 0x80, 0xA6]"
definition em_dash :: bytes where "em_dash = [0xE2, 0x80, 0x94]"

definition MARK_PENDING :: bytes where "MARK_PENDING = [0xE2, 0x97, 0x8B]"
definition MARK_DELIVERED :: bytes where "MARK_DELIVERED = [0xE2, 0x9C, 0x93]"
definition MARK_QUEUED :: bytes where "MARK_QUEUED = [0xC2, 0xBB]"
definition MARK_SYNCED :: bytes where "MARK_SYNCED = [0xC2, 0xBB]"
definition MARK_FAILED :: bytes where "MARK_FAILED = [0xC3, 0x97]"

definition STATUS_DELIVERED :: u8 where [simp]: "STATUS_DELIVERED = 1"
definition STATUS_QUEUED :: u8 where [simp]: "STATUS_QUEUED = 2"
definition STATUS_FAILED :: u8 where [simp]: "STATUS_FAILED = 3"

definition status_mark :: "u8 \<Rightarrow> bytes" where
  "status_mark status =
     (if status = STATUS_DELIVERED then MARK_DELIVERED
      else if status = STATUS_QUEUED then MARK_QUEUED
      else MARK_FAILED)"

definition bubble_text :: "bytes \<Rightarrow> bytes \<Rightarrow> bytes" where
  "bubble_text body mark = body @ ascii ''  '' @ mark"

definition SELF_AUTHOR :: bytes where "SELF_AUTHOR = ascii ''me''"

text \<open>A number in a format string.\<close>

fun dec :: "nat \<Rightarrow> bytes" where
  "dec n = (if n < 10 then [of_nat (48 + n)] else dec (n div 10) @ [of_nat (48 + n mod 10)])"

declare dec.simps [simp del]

section \<open>Data\<close>

record OutboundMsg =
  om_peer :: bytes
  om_display_ts :: nat
  om_text :: bytes
  om_packed :: bytes
  om_needs_stamp :: "nat option"
  om_stamped :: bool
  om_via_pn :: bool
  om_tried_pn :: bool
  om_in_flight :: "bytes option"
  om_attempts :: u8
  om_route_tries :: u8
  om_link_tries :: u8
  om_direct_rounds :: u8
  om_awaiting_key :: bool
  om_pn_blob :: "bytes option"
  om_next_action :: nat
  om_created :: nat
  om_deadline :: nat

record DeliveryUpdate =
  du_display_ts :: nat
  du_text :: bytes
  du_status :: u8

datatype SyncPhase = SyncIdle | SyncLinking | ListRequested | GetRequested

record SyncState =
  sy_phase :: SyncPhase
  sy_link_id :: "bytes option"
  sy_receiver :: "ResourceReceiver option"
  sy_deadline :: nat
  sy_auto_done :: bool
  sy_pn_probe_at :: nat
  sy_requested :: bool
  sy_next_attempt :: nat
  sy_route_tries :: u8
  sy_link_tries :: u8

definition SyncState_new :: SyncState where
  "SyncState_new =
     \<lparr>sy_phase = SyncIdle, sy_link_id = None, sy_receiver = None, sy_deadline = 0, sy_auto_done = False,
      sy_pn_probe_at = 0, sy_requested = False, sy_next_attempt = 0, sy_route_tries = 0, sy_link_tries = 0\<rparr>"

text \<open>The page browser (\<open>BrowserState\<close>): the fetch in progress, and the page on display.\<close>

datatype BrowserPhase = BrowserIdle | BrowserLinking | Fetching

type_synonym PageAddr = "bytes \<times> bytes \<times> (bytes \<times> bytes) list"

record BrowserState =
  br_phase :: BrowserPhase
  br_node :: "bytes option"
  br_path :: bytes
  br_vars :: "(bytes \<times> bytes) list"
  br_link_id :: "bytes option"
  br_receiver :: "ResourceReceiver option"
  br_deadline :: nat
  br_requested :: "PageAddr option"
  br_next_attempt :: nat
  br_route_tries :: u8
  br_link_tries :: u8
  br_current :: "PageAddr option"
  br_pending_push :: bool
  br_pending_pop :: bool
  br_back :: "PageAddr list"
  br_links :: "PageLink list"
  br_current_title :: "bytes option"
  br_viewing :: bool

definition BrowserState_new :: BrowserState where
  "BrowserState_new =
     \<lparr>br_phase = BrowserIdle, br_node = None, br_path = [], br_vars = [], br_link_id = None, br_receiver = None,
      br_deadline = 0, br_requested = None, br_next_attempt = 0, br_route_tries = 0, br_link_tries = 0,
      br_current = None, br_pending_push = False, br_pending_pop = False, br_back = [], br_links = [],
      br_current_title = None, br_viewing = False\<rparr>"

text \<open>A neighbour on the local network.\<close>

record Peer =
  pr_heard :: nat
  pr_token_sent :: nat
  pr_discovered :: nat
  pr_announced :: bool

text \<open>What a handler does outside the process.\<close>

datatype Effect =
    HubWrite bytes
  | UdpSend bytes bytes
  | StatusText bytes
  | StatusForced bytes
  | IdleText bytes
  | PostAdd bytes nat bytes
  | PostUpdate bytes nat bytes
  | DialogueSave
  | DialogueSet bytes
  | Vibe
  | IconTray nat bytes
  | ShowDocument bytes "(bytes \<times> nat \<times> nat \<times> nat \<times> nat) list"
  | DocumentSuspend

text \<open>
  \<open>Shared\<close>. A socket is present or not. The store is the contents of the PDDB, by dictionary and key.
  The fields that only a thread's own loop or the user interface uses are left out.
\<close>

record Shared =
  sh_transport :: Transport
  sh_writer :: bool
  sh_connected :: bool
  sh_ctl :: bool
  sh_disconnect_reason :: "bytes option"
  sh_our_dh :: bytes
  sh_display_name :: bytes
  sh_seen :: "(bytes \<times> bytes \<times> nat) list"
  sh_contacts :: "(bytes \<times> bytes) list"
  sh_current_peer :: "bytes option"
  sh_prev_peer :: "bytes option"
  sh_recent_msg_ids :: "bytes list"
  sh_unread :: "(bytes \<times> nat) list"
  sh_pending :: "(bytes \<times> (bytes \<times> nat \<times> bytes) list) list"
  sh_backchannels :: "(bytes \<times> bytes \<times> nat) list"
  sh_found_addrs :: "(bytes \<times> bytes \<times> nat) list"
  sh_stamp_costs :: "(bytes \<times> nat) list"
  sh_tickets :: "(bytes \<times> nat \<times> bytes) list"
  sh_ticket_pending :: "(bytes \<times> bytes) list"
  sh_outbox :: "OutboundMsg list"
  sh_delivery_updates :: "(bytes \<times> DeliveryUpdate list) list"
  sh_last_ts :: nat
  sh_sync :: SyncState
  sh_nodes_seen :: "(bytes \<times> bytes \<times> nat) list"
  sh_saved_nodes :: "(bytes \<times> bytes) list"
  sh_browser :: BrowserState
  sh_in_resources :: "(bytes \<times> ResourceReceiver) list"
  sh_auto_enabled :: bool
  sh_auto_tx :: bool
  sh_auto_peers :: "(bytes \<times> Peer) list"
  sh_pddb :: "(bytes \<times> bytes, bytes) hmap"
  sh_log :: "Effect list"
  sh_asked :: nat
  sh_drawn :: nat

datatype hub_answer = HubBusy | HubWritten | HubBroken bytes

text \<open>
  What the application runs on: the primitives, the width of \<open>usize\<close>, the build-time propagation node
  and its cost, the order in which a hash map is visited, the generator's words, the answers of the
  sockets, of the chat server and of the store, and the bzip2 decoder.
\<close>

record env =
  ev_crypto :: crypto
  ev_width :: nat
  ev_pn :: "bytes option"
  ev_pcost :: nat
  ev_order :: "bytes list \<Rightarrow> bytes list"
  ev_trng :: "nat \<Rightarrow> u32"
  ev_hub :: "nat \<Rightarrow> hub_answer"
  ev_udp :: "nat \<Rightarrow> bool"
  ev_posted :: "nat \<Rightarrow> bool"
  ev_pddb :: "nat \<Rightarrow> bool"
  ev_bz2 :: "nat \<Rightarrow> bytes \<Rightarrow> bytes option"

text \<open>The state at the start of the application, from what was loaded from the store.\<close>

definition Shared_new ::
  "Transport \<Rightarrow> bytes \<Rightarrow> bytes \<Rightarrow> (bytes \<times> bytes) list \<Rightarrow> bytes option \<Rightarrow> (bytes \<times> bytes \<times> nat) list
     \<Rightarrow> (bytes \<times> nat) list \<Rightarrow> (bytes \<times> (bytes \<times> nat \<times> bytes) list) list \<Rightarrow> (bytes \<times> nat \<times> bytes) list
     \<Rightarrow> (bytes \<times> DeliveryUpdate list) list \<Rightarrow> (bytes \<times> bytes) list \<Rightarrow> (bytes \<times> bytes, bytes) hmap \<Rightarrow> Shared" where
  "Shared_new t our_dh display_name contacts current found unread held tickets updates nodes store =
     \<lparr>sh_transport = t, sh_writer = False, sh_connected = False, sh_ctl = False, sh_disconnect_reason = None,
      sh_our_dh = our_dh, sh_display_name = display_name, sh_seen = [], sh_contacts = contacts,
      sh_current_peer = current, sh_prev_peer = None, sh_recent_msg_ids = [], sh_unread = unread, sh_pending = held,
      sh_backchannels = [], sh_found_addrs = found, sh_stamp_costs = [], sh_tickets = tickets,
      sh_ticket_pending = [], sh_outbox = [], sh_delivery_updates = updates, sh_last_ts = 0,
      sh_sync = SyncState_new, sh_nodes_seen = [], sh_saved_nodes = nodes, sh_browser = BrowserState_new,
      sh_in_resources = [], sh_auto_enabled = False, sh_auto_tx = False,
      sh_auto_peers = [], sh_pddb = store, sh_log = [], sh_asked = 0, sh_drawn = 0\<rparr>"

section \<open>Operations on the outside\<close>

definition ask :: "(nat \<Rightarrow> 'a) \<Rightarrow> (Shared, 'a) state" where
  "ask answer = do {
     k \<leftarrow> gets sh_asked;
     modify (\<lambda>s. s\<lparr>sh_asked := Suc k\<rparr>);
     State_Monad.return (answer k) }"

definition emit :: "Effect \<Rightarrow> (Shared, unit) state" where
  "emit e = modify (\<lambda>s. s\<lparr>sh_log := sh_log s @ [e]\<rparr>)"

definition fill_random :: "env \<Rightarrow> nat \<Rightarrow> (Shared, bytes) state" where
  "fill_random E n = do {
     let words = (n + 3) div 4;
     k \<leftarrow> gets sh_drawn;
     modify (\<lambda>s. s\<lparr>sh_drawn := k + words\<rparr>);
     State_Monad.return
       (take n (concat (map (\<lambda>i. rev (be_bytes 4 (unat (ev_trng E (k + i))))) [0..<words]))) }"

definition on_transport :: "(Transport \<Rightarrow> 'a \<times> Transport) \<Rightarrow> (Shared, 'a) state" where
  "on_transport f = do {
     t \<leftarrow> gets sh_transport;
     let (r, t') = f t;
     modify (\<lambda>s. s\<lparr>sh_transport := t'\<rparr>);
     State_Monad.return r }"

definition note_disconnect :: "bytes \<Rightarrow> (Shared, unit) state" where
  "note_disconnect reason =
     modify (\<lambda>s. case sh_disconnect_reason s of
                  None \<Rightarrow> s\<lparr>sh_disconnect_reason := Some reason\<rparr> | Some _ \<Rightarrow> s)"

definition HW_MTU :: nat where [simp]: "HW_MTU = 1196"

definition hub_write :: "env \<Rightarrow> bytes \<Rightarrow> (Shared, bool) state" where
  "hub_write E raw = do {
     let framed = frame raw;
     answer \<leftarrow> ask (ev_hub E);
     writer \<leftarrow> gets sh_writer;
     case answer of
       HubBusy \<Rightarrow> State_Monad.return False
     | HubWritten \<Rightarrow>
         if writer then do { emit (HubWrite framed); State_Monad.return True }
         else State_Monad.return False
     | HubBroken kind \<Rightarrow>
         if writer then do {
           note_disconnect (ascii ''write failed: '' @ kind);
           modify (\<lambda>s. s\<lparr>sh_writer := False, sh_connected := False, sh_ctl := False\<rparr>);
           State_Monad.return False }
         else State_Monad.return False }"

fun udp_all :: "env \<Rightarrow> bytes \<Rightarrow> bytes list \<Rightarrow> bool \<Rightarrow> (Shared, bool) state" where
  "udp_all E raw [] any = State_Monad.return any"
| "udp_all E raw (a # as) any = do {
     ok \<leftarrow> ask (ev_udp E);
     if ok then do { emit (UdpSend a raw); udp_all E raw as True } else udp_all E raw as any }"

definition send_to_peers :: "env \<Rightarrow> bytes \<Rightarrow> (Shared, bool) state" where
  "send_to_peers E raw = do {
     on \<leftarrow> gets sh_auto_enabled;
     if raw = [] \<or> length raw > HW_MTU \<or> \<not> on then State_Monad.return False
     else do {
       peers \<leftarrow> gets sh_auto_peers;
       tx \<leftarrow> gets sh_auto_tx;
       if peers = [] then State_Monad.return False
       else do {
         clone \<leftarrow> ask (ev_udp E);
         if tx \<and> clone then udp_all E raw (map fst peers) False else State_Monad.return False }}}"

definition broadcast_out :: "env \<Rightarrow> bytes \<Rightarrow> (Shared, bool) state" where
  "broadcast_out E raw = do {
     hub_ok \<leftarrow> hub_write E raw;
     auto_ok \<leftarrow> send_to_peers E raw;
     State_Monad.return (hub_ok \<or> auto_ok) }"

definition any_interface_up :: "(Shared, bool) state" where
  "any_interface_up = gets (\<lambda>s. sh_connected s \<or> sh_auto_enabled s \<and> sh_auto_peers s \<noteq> [])"

text \<open>The store: a deletion always takes effect, a write only if the store accepts it.\<close>

definition pddb_delete :: "bytes \<Rightarrow> bytes \<Rightarrow> (Shared, unit) state" where
  "pddb_delete dict key = modify (\<lambda>s. s\<lparr>sh_pddb := hm_remove (dict, key) (sh_pddb s)\<rparr>)"

definition pddb_write :: "env \<Rightarrow> bytes \<Rightarrow> bytes \<Rightarrow> bytes \<Rightarrow> (Shared, unit) state" where
  "pddb_write E dict key val = do {
     ok \<leftarrow> ask (ev_pddb E);
     if ok then modify (\<lambda>s. s\<lparr>sh_pddb := hm_insert (dict, key) val (sh_pddb s)\<rparr>)
     else State_Monad.return () }"

definition pddb_replace :: "env \<Rightarrow> bytes \<Rightarrow> bytes \<Rightarrow> bytes \<Rightarrow> (Shared, unit) state" where
  "pddb_replace E dict key val = do { pddb_delete dict key; pddb_write E dict key val }"

section \<open>Requests\<close>

definition label_of :: "Shared \<Rightarrow> bytes \<Rightarrow> bytes" where
  "label_of s peer =
     (case map_of (sh_contacts s) peer of
        Some n \<Rightarrow> n
      | None \<Rightarrow> (case map_of (sh_seen s) peer of
                   Some (n, _) \<Rightarrow> n
                 | None \<Rightarrow> ascii (hex (take 4 peer))))"

definition peer_label :: "bytes \<Rightarrow> (Shared, bytes) state" where
  "peer_label peer = gets (\<lambda>s. label_of s peer)"

definition request_peer_key :: "env \<Rightarrow> bytes \<Rightarrow> (Shared, bool) state" where
  "request_peer_key E target = do {
     tag \<leftarrow> fill_random E TRUNCATED_HASHLENGTH;
     broadcast_out E (make_path_request (ev_crypto E) target tag) }"

datatype LinkReqOutcome = Sent | Pending | WriteFailed

definition send_link_request :: "env \<Rightarrow> bytes \<Rightarrow> PublicIdentity \<Rightarrow> nat \<Rightarrow> (Shared, LinkReqOutcome) state" where
  "send_link_request E target identity now = do {
     pending \<leftarrow> on_transport (pending_link_to target now);
     open \<leftarrow> (if pending then State_Monad.return True
             else do {
               link \<leftarrow> on_transport (outbound_link_for (ev_order E) target now);
               State_Monad.return (link \<noteq> None) });
     if open then State_Monad.return Pending
     else do {
       ex \<leftarrow> fill_random E KEY_HALF;
       ed \<leftarrow> fill_random E KEY_HALF;
       (raw, lid) \<leftarrow> on_transport (\<lambda>t. make_link_request (ev_crypto E) t target identity ex ed now);
       ok \<leftarrow> broadcast_out E raw;
       if ok then State_Monad.return Sent
       else do {
         on_transport (\<lambda>t. ((), forget_pending_link lid t));
         State_Monad.return WriteFailed }}}"

definition make_resource_on_link :: "env \<Rightarrow> bytes \<Rightarrow> bytes \<Rightarrow> (Shared, bytes option) state" where
  "make_resource_on_link E lid data = do {
     r \<leftarrow> fill_random E 4;
     prefix \<leftarrow> fill_random E 4;
     iv \<leftarrow> fill_random E IV_LENGTH;
     adv_iv \<leftarrow> fill_random E IV_LENGTH;
     made \<leftarrow> on_transport (make_link_resource (ev_crypto E) lid data r prefix iv adv_iv);
     case made of
       None \<Rightarrow> State_Monad.return None
     | Some (adv, h) \<Rightarrow> do { broadcast_out E adv; State_Monad.return (Some h) } }"

section \<open>An environment for evaluation\<close>

definition demo_env :: env where
  "demo_env = \<lparr>ev_crypto = demo, ev_width = 32, ev_pn = None, ev_pcost = 0, ev_order = (\<lambda>ks. ks),
     ev_trng = (\<lambda>_. 0), ev_hub = (\<lambda>_. HubWritten), ev_udp = (\<lambda>_. True), ev_posted = (\<lambda>_. True),
     ev_pddb = (\<lambda>_. True), ev_bz2 = (\<lambda>_ _. None)\<rparr>"

definition demo_shared :: Shared where
  "demo_shared = Shared_new (demo_node 1) (replicate 16 1) (ascii ''me'') [] None [] [] [] [] [] [] []"

end
