(* ===== verification/Storage.thy ===== *)
theory Storage
  imports App
begin

text \<open>
  What the application keeps across restarts, and reads from the network as text
  (\<open>apps/lxmfchat/src/lib.rs\<close>, from \<open>parse_addr\<close> on): addresses in hex, contacts, held messages, tickets,
  delivery marks, addresses found in messages, nodes, and the announced name and stamp cost.

  Index arithmetic on \<open>usize\<close> is modulo \<open>2 ^ W\<close> where a stored length takes part in it. A loader takes
  the entries of its dictionary, in the order in which the store lists them.
\<close>

definition PDDB_DICT :: bytes where "PDDB_DICT = ascii ''lxmf.state''"
definition CONTACTS_DICT :: bytes where "CONTACTS_DICT = ascii ''lxmf.contacts''"
definition PENDING_DICT :: bytes where "PENDING_DICT = ascii ''lxmf.pending''"
definition TICKETS_DICT :: bytes where "TICKETS_DICT = ascii ''lxmf.tickets''"
definition DELIVERY_DICT :: bytes where "DELIVERY_DICT = ascii ''lxmf.delivery''"
definition NODES_DICT :: bytes where "NODES_DICT = ascii ''lxmf.nodes''"
definition DIALOGUE_DICT :: bytes where "DIALOGUE_DICT = ascii ''lxmf.dialogue''"
definition KEY_FOUND_ADDRS :: bytes where "KEY_FOUND_ADDRS = ascii ''found_addrs''"

section \<open>Addresses and keys in hexadecimal\<close>

definition parse_addr :: "bytes \<Rightarrow> bytes option outcome" where
  "parse_addr s =
     (let s = trim s
      in if length s \<noteq> TRUNCATED_HASHLENGTH * 2 then Ok None
         else hex_pairs s (map (\<lambda>i. i * 2) [0..<TRUNCATED_HASHLENGTH]))"

definition unhex :: "bytes \<Rightarrow> bytes option outcome" where
  "unhex s =
     (if length s mod 2 \<noteq> 0 then Ok None else hex_pairs s (map (\<lambda>i. i * 2) [0..<length s div 2]))"

section \<open>Reading a stored record\<close>

definition rd_slice :: "nat \<Rightarrow> nat \<Rightarrow> nat \<Rightarrow> bytes \<Rightarrow> (bytes \<times> nat) outcome" where
  "rd_slice W i n dat =
     (let e = (i + n) mod 2 ^ W in if i \<le> e \<and> e \<le> length dat then Ok (slice i e dat, e) else Panic)"

lemma rd_slice_bound: "rd_slice W i n dat = Ok (b, e) \<Longrightarrow> i \<le> e \<and> e \<le> length dat"
  by (simp add: rd_slice_def Let_def split: if_splits)

section \<open>Held messages\<close>

definition serialize_pending :: "(bytes \<times> nat \<times> bytes) list \<Rightarrow> bytes" where
  "serialize_pending msgs =
     concat (map (\<lambda>(author, ts, body).
       be_bytes 8 ts @ be_bytes 4 (length author) @ author @ be_bytes 4 (length body) @ body) msgs)"

function pending_from :: "nat \<Rightarrow> bytes \<Rightarrow> nat \<Rightarrow> (bytes \<times> nat \<times> bytes) list outcome" where
  "pending_from W dat i =
     (if i + 12 \<le> length dat then
        let ts = of_be (slice i (i + 8) dat); alen = of_be (slice (i + 8) (i + 12) dat)
        in if (i + 12 + alen + 4) mod 2 ^ W > length dat then Ok []
           else obind (rd_slice W (i + 12) alen dat) (\<lambda>(author, j).
                obind (rd_slice W j 4 dat) (\<lambda>(l4, j).
                  let tlen = of_be l4
                  in if (j + tlen) mod 2 ^ W > length dat then Ok []
                     else obind (rd_slice W j tlen dat) (\<lambda>(body, j).
                          obind (pending_from W dat j) (\<lambda>rest.
                            Ok ((utf8_lossy author, ts, utf8_lossy body) # rest)))))
      else Ok [])"
  by auto
termination
  by (relation "measure (\<lambda>(W, dat, i). length dat - i)") (auto dest!: rd_slice_bound)

declare pending_from.simps [simp del]

definition deserialize_pending :: "nat \<Rightarrow> bytes \<Rightarrow> (bytes \<times> nat \<times> bytes) list outcome" where
  "deserialize_pending W dat = pending_from W dat 0"

definition persist_pending :: "env \<Rightarrow> bytes \<Rightarrow> (bytes \<times> nat \<times> bytes) list \<Rightarrow> (Shared, unit) state" where
  "persist_pending E dest_hash msgs = do {
     let key = ascii (hex dest_hash);
     pddb_delete PENDING_DICT key;
     if msgs \<noteq> [] then pddb_write E PENDING_DICT key (serialize_pending msgs)
     else State_Monad.return () }"

definition delete_pending :: "bytes \<Rightarrow> (Shared, unit) state" where
  "delete_pending dest_hash = pddb_delete PENDING_DICT (ascii (hex dest_hash))"

type_synonym held = "(bytes \<times> (bytes \<times> nat \<times> bytes) list) list \<times> (bytes \<times> nat) list"

fun load_pending :: "nat \<Rightarrow> (bytes \<times> bytes) list \<Rightarrow> held \<Rightarrow> held outcome" where
  "load_pending W [] h = Ok h"
| "load_pending W ((key, dat) # es) h =
     obind (parse_addr key) (\<lambda>a. case a of
       None \<Rightarrow> load_pending W es h
     | Some dh \<Rightarrow> obind (deserialize_pending W dat) (\<lambda>msgs.
         if msgs \<noteq> []
         then load_pending W es (bt_insert dh msgs (fst h), bt_insert dh (length msgs mod 2 ^ 32) (snd h))
         else load_pending W es h))"

section \<open>Addresses found in messages\<close>

definition found_value :: "(bytes \<times> bytes \<times> nat) list \<Rightarrow> bytes" where
  "found_value xs =
     concat (map (\<lambda>(addr, sender, ts). addr @ be_bytes 8 ts @ be_bytes 4 (length sender) @ sender) xs)"

definition persist_found_addrs :: "env \<Rightarrow> (bytes \<times> bytes \<times> nat) list \<Rightarrow> (Shared, unit) state" where
  "persist_found_addrs E xs = do {
     pddb_delete PDDB_DICT KEY_FOUND_ADDRS;
     if xs = [] then State_Monad.return ()
     else pddb_write E PDDB_DICT KEY_FOUND_ADDRS (found_value xs) }"

function found_from :: "nat \<Rightarrow> bytes \<Rightarrow> nat \<Rightarrow> (bytes \<times> bytes \<times> nat) list outcome" where
  "found_from W dat i =
     (if i + TRUNCATED_HASHLENGTH + 12 \<le> length dat then
        let addr = slice i (i + 16) dat; ts = of_be (slice (i + 16) (i + 24) dat);
            flen = of_be (slice (i + 24) (i + 28) dat)
        in if (i + 28 + flen) mod 2 ^ W > length dat then Ok []
           else obind (rd_slice W (i + 28) flen dat) (\<lambda>(sender, j).
                obind (found_from W dat j) (\<lambda>rest. Ok ((addr, utf8_lossy sender, ts) # rest)))
      else Ok [])"
  by auto
termination
  by (relation "measure (\<lambda>(W, dat, i). length dat - i)") (auto dest!: rd_slice_bound)

declare found_from.simps [simp del]

definition load_found_addrs :: "nat \<Rightarrow> bytes option \<Rightarrow> (bytes \<times> bytes \<times> nat) list outcome" where
  "load_found_addrs W stored = (case stored of None \<Rightarrow> Ok [] | Some dat \<Rightarrow> found_from W dat 0)"

section \<open>Delivery marks\<close>

definition updates_value :: "DeliveryUpdate list \<Rightarrow> bytes" where
  "updates_value us =
     concat (map (\<lambda>u. be_bytes 8 (du_display_ts u) @ [du_status u] @ be_bytes 4 (length (du_text u)) @ du_text u) us)"

definition persist_delivery_updates :: "env \<Rightarrow> bytes \<Rightarrow> DeliveryUpdate list \<Rightarrow> (Shared, unit) state" where
  "persist_delivery_updates E peer updates = do {
     let key = ascii (hex peer);
     pddb_delete DELIVERY_DICT key;
     if updates \<noteq> [] then pddb_write E DELIVERY_DICT key (updates_value updates)
     else State_Monad.return () }"

definition delete_delivery_updates :: "bytes \<Rightarrow> (Shared, unit) state" where
  "delete_delivery_updates peer = pddb_delete DELIVERY_DICT (ascii (hex peer))"

function updates_from :: "nat \<Rightarrow> bytes \<Rightarrow> nat \<Rightarrow> DeliveryUpdate list outcome" where
  "updates_from W dat i =
     (if i + 13 \<le> length dat then
        let ts = of_be (slice i (i + 8) dat); status = dat ! (i + 8); tlen = of_be (slice (i + 9) (i + 13) dat)
        in if (i + 13 + tlen) mod 2 ^ W > length dat then Ok []
           else obind (rd_slice W (i + 13) tlen dat) (\<lambda>(body, j).
                obind (updates_from W dat j) (\<lambda>rest.
                  Ok (\<lparr>du_display_ts = ts, du_text = utf8_lossy body, du_status = status\<rparr> # rest)))
      else Ok [])"
  by auto
termination
  by (relation "measure (\<lambda>(W, dat, i). length dat - i)") (auto dest!: rd_slice_bound)

declare updates_from.simps [simp del]

fun load_delivery_updates ::
  "nat \<Rightarrow> (bytes \<times> bytes) list \<Rightarrow> (bytes \<times> DeliveryUpdate list) list \<Rightarrow> (bytes \<times> DeliveryUpdate list) list outcome" where
  "load_delivery_updates W [] m = Ok m"
| "load_delivery_updates W ((key, dat) # es) m =
     obind (parse_addr key) (\<lambda>a. case a of
       None \<Rightarrow> load_delivery_updates W es m
     | Some dh \<Rightarrow> obind (updates_from W dat 0) (\<lambda>us.
         load_delivery_updates W es (if us \<noteq> [] then bt_insert dh us m else m)))"

section \<open>Tickets\<close>

definition persist_ticket :: "env \<Rightarrow> bytes \<Rightarrow> nat \<Rightarrow> bytes \<Rightarrow> (Shared, unit) state" where
  "persist_ticket E dest_hash expiry tk =
     pddb_replace E TICKETS_DICT (ascii (hex dest_hash)) (be_bytes 8 expiry @ tk)"

text \<open>The tickets that are still good, and the keys of those deleted from the store as expired.\<close>

fun load_tickets ::
  "nat \<Rightarrow> (bytes \<times> bytes) list \<Rightarrow> (bytes \<times> nat \<times> bytes) list \<times> bytes list
     \<Rightarrow> ((bytes \<times> nat \<times> bytes) list \<times> bytes list) outcome" where
  "load_tickets now [] m = Ok m"
| "load_tickets now ((key, dat) # es) (m, gone) =
     obind (parse_addr key) (\<lambda>a. case a of
       None \<Rightarrow> load_tickets now es (m, gone)
     | Some dh \<Rightarrow>
         if length dat \<noteq> 8 + TRUNCATED_HASHLENGTH then load_tickets now es (m, gone)
         else let expiry = of_be (take 8 dat)
              in if expiry \<le> now then load_tickets now es (m, gone @ [key])
                 else load_tickets now es (bt_insert dh (expiry, drop 8 dat) m, gone))"

section \<open>Contacts and nodes\<close>

definition contact_value :: "bytes \<Rightarrow> bytes option \<Rightarrow> bytes option \<Rightarrow> bytes" where
  "contact_value name pubkey ratchet =
     name @ (case pubkey of
               None \<Rightarrow> []
             | Some pk \<Rightarrow> 0 # ascii (hex pk) @
                 (case ratchet of None \<Rightarrow> [] | Some r \<Rightarrow> 0 # ascii (hex r)))"

definition persist_contact :: "env \<Rightarrow> bytes \<Rightarrow> bytes \<Rightarrow> bytes option \<Rightarrow> bytes option \<Rightarrow> (Shared, unit) state" where
  "persist_contact E dest_hash name pubkey ratchet =
     pddb_replace E CONTACTS_DICT (ascii (hex dest_hash)) (contact_value name pubkey ratchet)"

definition save_contact :: "env \<Rightarrow> bytes \<Rightarrow> bytes \<Rightarrow> (Shared, unit) state" where
  "save_contact E dest_hash name = do {
     modify (\<lambda>s. s\<lparr>sh_contacts := bt_insert dest_hash name (sh_contacts s)\<rparr>);
     t \<leftarrow> gets sh_transport;
     case known t dest_hash of
       Some k \<Rightarrow> persist_contact E dest_hash name (Some (public_key (kd_identity k))) (kd_ratchet k)
     | None \<Rightarrow> persist_contact E dest_hash name None None }"

text \<open>One stored contact; \<open>parts\<close> is what \<open>split\<close> yields of the value.\<close>

definition load_contact ::
  "crypto \<Rightarrow> bytes \<Rightarrow> bytes list \<Rightarrow> Transport \<times> (bytes \<times> bytes) list \<Rightarrow> (Transport \<times> (bytes \<times> bytes) list) outcome" where
  "load_contact C dh parts tc =
     (let part = (\<lambda>i. if i < length parts then Some (parts ! i) else None);
          name = (case part 0 of Some n \<Rightarrow> n | None \<Rightarrow> []);
          decoded = (\<lambda>i. case part i of None \<Rightarrow> Ok None | Some p \<Rightarrow> unhex p);
          listed = bt_insert dh name (snd tc)
      in obind (decoded 1) (\<lambda>pk.
           case (case pk of Some k \<Rightarrow> if length k = KEYSIZE then Some k else None | None \<Rightarrow> None) of
             None \<Rightarrow> Ok (fst tc, listed)
           | Some pubkey \<Rightarrow> obind (decoded 2) (\<lambda>r.
               let ratchet = (case r of Some b \<Rightarrow> if length b = RATCHET_SIZE then Some b else None | None \<Rightarrow> None)
               in case from_public_key C pubkey of
                    Inl _ \<Rightarrow> Ok tc
                  | Inr i \<Rightarrow>
                      Ok (remember dh \<lparr>kd_identity = i, kd_name_hash = replicate NAME_HASH_LENGTH 0,
                            kd_ratchet = ratchet, kd_app_data = name\<rparr> (fst tc), listed))))"

fun load_contacts ::
  "crypto \<Rightarrow> (bytes \<times> bytes) list \<Rightarrow> Transport \<times> (bytes \<times> bytes) list \<Rightarrow> (Transport \<times> (bytes \<times> bytes) list) outcome" where
  "load_contacts C [] tc = Ok tc"
| "load_contacts C ((key, dat) # es) tc =
     obind (parse_addr key) (\<lambda>a. case a of
       None \<Rightarrow> load_contacts C es tc
     | Some dh \<Rightarrow> obind (load_contact C dh (split_on 0 (utf8_lossy dat)) tc) (load_contacts C es))"

definition persist_node :: "env \<Rightarrow> bytes \<Rightarrow> bytes \<Rightarrow> (Shared, unit) state" where
  "persist_node E dest_hash name = pddb_replace E NODES_DICT (ascii (hex dest_hash)) name"

fun load_nodes :: "(bytes \<times> bytes) list \<Rightarrow> (bytes \<times> bytes) list \<Rightarrow> (bytes \<times> bytes) list outcome" where
  "load_nodes [] m = Ok m"
| "load_nodes ((key, dat) # es) m =
     obind (parse_addr key) (\<lambda>a. case a of
       None \<Rightarrow> load_nodes es m
     | Some dh \<Rightarrow>
         let name = trim (utf8_lossy dat)
         in load_nodes es (bt_insert dh (if name = [] then key else name) m))"

section \<open>Announced data\<close>

definition lxmf_delivery_name_hash :: "crypto \<Rightarrow> bytes" where
  "lxmf_delivery_name_hash C = name_hash C (ascii ''lxmf'') [ascii ''delivery'']"

definition nomad_node_name_hash :: "crypto \<Rightarrow> bytes" where
  "nomad_node_name_hash C = name_hash C (ascii ''nomadnetwork'') [ascii ''node'']"

definition is_array_tag :: "u8 \<Rightarrow> bool" where
  "is_array_tag b \<longleftrightarrow> 0x90 \<le> b \<and> b \<le> 0x9F \<or> b = 0xDC"

definition tidy_name :: "bytes \<Rightarrow> bytes option" where
  "tidy_name raw = (let trimmed = trim (filter (\<lambda>b. b \<noteq> 0) raw) in if trimmed = [] then None else Some trimmed)"

definition lxmf_display_name :: "nat \<Rightarrow> bytes \<Rightarrow> bytes option outcome" where
  "lxmf_display_name W app_data =
     (if app_data = [] then Ok None
      else if is_array_tag (app_data ! 0) then
        case mp_decode W app_data of
          Ok (VArray (VBin b # _)) \<Rightarrow> Ok (tidy_name (utf8_lossy b))
        | Ok (VArray (VStr s # _)) \<Rightarrow> Ok (tidy_name s)
        | Ok _ \<Rightarrow> Ok None
        | Err _ \<Rightarrow> Ok None
        | Panic \<Rightarrow> Panic
        | OutOfFuel \<Rightarrow> OutOfFuel
      else Ok (tidy_name (utf8_lossy app_data)))"

text \<open>The cast of an \<open>i64\<close> to \<open>u32\<close> keeps its lowest 32 bits.\<close>

definition lxmf_stamp_cost :: "nat \<Rightarrow> bytes \<Rightarrow> nat option outcome" where
  "lxmf_stamp_cost W app_data =
     (if app_data = [] then Ok None
      else if \<not> is_array_tag (app_data ! 0) then Ok None
      else case mp_decode W app_data of
             Ok (VArray arr) \<Rightarrow>
               Ok (if length arr > 1
                   then case arr ! 1 of
                          VInt c \<Rightarrow> if c > 0 then Some (nat (c mod 2 ^ 32)) else None
                        | _ \<Rightarrow> None
                   else None)
           | Ok _ \<Rightarrow> Ok None
           | Err _ \<Rightarrow> Ok None
           | Panic \<Rightarrow> Panic
           | OutOfFuel \<Rightarrow> OutOfFuel)"

section \<open>Hexadecimal text reads back\<close>

lemma parse_addr_hex [simp]: "length a = 16 \<Longrightarrow> parse_addr (ascii (hex a)) = Ok (Some a)"
  using hex_pairs_hex [of a] trim_plain [of "ascii (hex a)"] hex_bytes [of _ a]
  by (simp add: parse_addr_def Let_def)

lemma unhex_hex [simp]: "unhex (ascii (hex bs)) = Ok (Some bs)"
  using hex_pairs_hex [of bs] by (simp add: unhex_def)

section \<open>Stored records read back\<close>

lemma rd_slice_at:
  "i = length p \<Longrightarrow> n = length x \<Longrightarrow> length (p @ x @ q) < 2 ^ W \<Longrightarrow>
     rd_slice W i n (p @ x @ q) = Ok (x, length p + length x)"
  by (simp add: rd_slice_def Let_def slice_append_mid)

text \<open>Text that fits a record: valid UTF-8 whose length fits four bytes.\<close>

definition text_ok :: "bytes \<Rightarrow> bool" where
  "text_ok s \<longleftrightarrow> utf8_valid s \<and> length s < 2 ^ 32"

definition held_ok :: "bytes \<times> nat \<times> bytes \<Rightarrow> bool" where
  "held_ok m \<longleftrightarrow> text_ok (fst m) \<and> fst (snd m) < 2 ^ 64 \<and> text_ok (snd (snd m))"

lemma pending_from_serialize:
  "list_all held_ok ms \<Longrightarrow> length (p @ serialize_pending ms) < 2 ^ W \<Longrightarrow>
     pending_from W (p @ serialize_pending ms) (length p) = Ok ms"
proof (induction ms arbitrary: p)
  case Nil
  then show ?case by (simp add: pending_from.simps serialize_pending_def)
next
  case (Cons m ms)
  obtain a ts b where m: "m = (a, ts, b)" by (metis prod.exhaust)
  define R where "R = serialize_pending ms"
  define h where "h = be_bytes 8 ts @ be_bytes 4 (length a)"
  define l where "l = be_bytes 4 (length b)"
  have dat: "p @ serialize_pending (m # ms) = p @ h @ a @ l @ b @ R"
    by (simp add: serialize_pending_def R_def h_def l_def m)
  have len: "length h = 12" "length l = 4" by (simp_all add: h_def l_def)
  have ok: "ts < 256 ^ 8" "length a < 256 ^ 4" "length b < 256 ^ 4" "utf8_valid a" "utf8_valid b"
    using Cons.prems(1) by (simp_all add: held_ok_def text_ok_def m)
  have W: "length p + 16 + length a + length b + length R < 2 ^ W"
    using Cons.prems(2) unfolding dat by (simp add: len)
  have "slice (length p) (length p + 8) (p @ h @ a @ l @ b @ R) = be_bytes 8 ts"
    by (simp add: slice_def h_def)
  moreover have "slice (length p + 8) (length p + 12) (p @ h @ a @ l @ b @ R) = be_bytes 4 (length a)"
    by (simp add: slice_def h_def)
  moreover have "rd_slice W (length p + 12) (length a) (p @ h @ a @ l @ b @ R) = Ok (a, length p + 12 + length a)"
    using rd_slice_at [of _ "p @ h" _ a "l @ b @ R" W] W by (simp add: len ac_simps)
  moreover have "rd_slice W (length p + 12 + length a) 4 (p @ h @ a @ l @ b @ R) = Ok (l, length p + 16 + length a)"
    using rd_slice_at [of _ "p @ h @ a" _ l "b @ R" W] W by (simp add: len ac_simps)
  moreover have "rd_slice W (length p + 16 + length a) (length b) (p @ h @ a @ l @ b @ R) =
      Ok (b, length p + 16 + length a + length b)"
    using rd_slice_at [of _ "p @ h @ a @ l" _ b R W] W by (simp add: len ac_simps)
  moreover have "pending_from W (p @ h @ a @ l @ b @ R) (length p + 16 + length a + length b) = Ok ms"
    using Cons.IH [of "p @ h @ a @ l @ b"] Cons.prems W by (simp add: len R_def ac_simps)
  ultimately show ?case
    unfolding dat using W ok
    by (subst pending_from.simps) (simp add: len m l_def of_be_be_bytes_id Let_def)
qed

definition found_ok :: "bytes \<times> bytes \<times> nat \<Rightarrow> bool" where
  "found_ok x \<longleftrightarrow> length (fst x) = 16 \<and> text_ok (fst (snd x)) \<and> snd (snd x) < 2 ^ 64"

lemma found_from_value:
  "list_all found_ok xs \<Longrightarrow> length (p @ found_value xs) < 2 ^ W \<Longrightarrow>
     found_from W (p @ found_value xs) (length p) = Ok xs"
proof (induction xs arbitrary: p)
  case Nil
  then show ?case by (simp add: found_from.simps found_value_def)
next
  case (Cons x xs)
  obtain a f ts where x: "x = (a, f, ts)" by (metis prod.exhaust)
  define R where "R = found_value xs"
  define h where "h = a @ be_bytes 8 ts @ be_bytes 4 (length f)"
  have dat: "p @ found_value (x # xs) = p @ h @ f @ R" by (simp add: found_value_def R_def h_def x)
  have ok: "ts < 256 ^ 8" "length f < 256 ^ 4" "utf8_valid f" "length a = 16"
    using Cons.prems(1) by (simp_all add: found_ok_def text_ok_def x)
  have len: "length h = 28" by (simp add: h_def ok)
  have W: "length p + 28 + length f + length R < 2 ^ W" using Cons.prems(2) unfolding dat by (simp add: len)
  have "slice (length p) (length p + 16) (p @ h @ f @ R) = a"
    "slice (length p + 16) (length p + 24) (p @ h @ f @ R) = be_bytes 8 ts"
    "slice (length p + 24) (length p + 28) (p @ h @ f @ R) = be_bytes 4 (length f)"
    by (simp_all add: slice_def h_def ok)
  moreover have "rd_slice W (length p + 28) (length f) (p @ h @ f @ R) = Ok (f, length p + 28 + length f)"
    using rd_slice_at [of _ "p @ h" _ f R W] W by (simp add: len ac_simps)
  moreover have "found_from W (p @ h @ f @ R) (length p + 28 + length f) = Ok xs"
    using Cons.IH [of "p @ h @ f"] Cons.prems W by (simp add: len R_def ac_simps)
  ultimately show ?case
    unfolding dat using W ok by (subst found_from.simps) (simp add: len x of_be_be_bytes_id Let_def)
qed

definition update_ok :: "DeliveryUpdate \<Rightarrow> bool" where
  "update_ok u \<longleftrightarrow> du_display_ts u < 2 ^ 64 \<and> text_ok (du_text u)"

lemma updates_from_value:
  "list_all update_ok us \<Longrightarrow> length (p @ updates_value us) < 2 ^ W \<Longrightarrow>
     updates_from W (p @ updates_value us) (length p) = Ok us"
proof (induction us arbitrary: p)
  case Nil
  then show ?case by (simp add: updates_from.simps updates_value_def)
next
  case (Cons u us)
  define R where "R = updates_value us"
  define h where "h = be_bytes 8 (du_display_ts u) @ [du_status u] @ be_bytes 4 (length (du_text u))"
  have dat: "p @ updates_value (u # us) = p @ h @ du_text u @ R" by (simp add: updates_value_def R_def h_def)
  have ok: "du_display_ts u < 256 ^ 8" "length (du_text u) < 256 ^ 4" "utf8_valid (du_text u)"
    using Cons.prems(1) by (simp_all add: update_ok_def text_ok_def)
  have len: "length h = 13" by (simp add: h_def)
  have W: "length p + 13 + length (du_text u) + length R < 2 ^ W"
    using Cons.prems(2) unfolding dat by (simp add: len)
  have "slice (length p) (length p + 8) (p @ h @ du_text u @ R) = be_bytes 8 (du_display_ts u)"
    "(p @ h @ du_text u @ R) ! (length p + 8) = du_status u"
    "slice (length p + 9) (length p + 13) (p @ h @ du_text u @ R) = be_bytes 4 (length (du_text u))"
    by (simp_all add: slice_def h_def nth_append)
  moreover have "rd_slice W (length p + 13) (length (du_text u)) (p @ h @ du_text u @ R) =
      Ok (du_text u, length p + 13 + length (du_text u))"
    using rd_slice_at [of _ "p @ h" _ "du_text u" R W] W by (simp add: len ac_simps)
  moreover have "updates_from W (p @ h @ du_text u @ R) (length p + 13 + length (du_text u)) = Ok us"
    using Cons.IH [of "p @ h @ du_text u"] Cons.prems W by (simp add: len R_def ac_simps)
  ultimately show ?case
    unfolding dat using W ok by (subst updates_from.simps) (simp add: len of_be_be_bytes_id Let_def)
qed

lemma utf8_valid_plain: "(\<And>c. c \<in> set s \<Longrightarrow> c < 0x80) \<Longrightarrow> utf8_valid s"
proof (induction s)
  case (Cons c s)
  then have "utf8_valid s" and "c < 0x80" by simp_all
  then show ?case by (simp add: utf8_valid.simps [of "c # s"] utf8_len_def)
qed simp

lemma hex_no_nul [simp]: "0 \<notin> set (ascii (hex bs))" "utf8_valid (ascii (hex bs))"
  by (auto intro!: utf8_valid_plain dest: hex_bytes)

lemma utf8_valid_hex_field: "utf8_valid (0 # ascii (hex b) @ z) = utf8_valid z"
proof -
  have "c < 0x80" if "c \<in> set (0 # ascii (hex b))" for c
    using that hex_bytes [of c b] by auto
  then have "utf8_valid (0 # ascii (hex b))" by (rule utf8_valid_plain)
  from utf8_valid_prefix [OF this] show ?thesis by simp
qed

lemma contact_value_text:
  "utf8_valid name \<Longrightarrow> utf8_lossy (contact_value name pk r) = contact_value name pk r"
  using utf8_valid_hex_field [of _ "[]"]
  by (intro utf8_lossy_valid) (simp add: contact_value_def utf8_valid_prefix utf8_valid_hex_field split: option.split)

lemma contact_value_split:
  "0 \<notin> set name \<Longrightarrow> split_on 0 (contact_value name pk r) =
     name # (case pk of None \<Rightarrow> [] | Some k \<Rightarrow>
       ascii (hex k) # (case r of None \<Rightarrow> [] | Some x \<Rightarrow> [ascii (hex x)]))"
  by (simp add: contact_value_def split_on_append split_on_none split: option.split)

lemma pddb_replace_get:
  "ev_pddb E (sh_asked s) \<Longrightarrow> hm_get (sh_pddb (snd (run_state (pddb_replace E d k v) s))) (d, k) = Some v"
  by (simp add: pddb_replace_def pddb_delete_def pddb_write_def ask_def)



end
