(* ===== verification/Outbox.thy ===== *)
theory Outbox
  imports Storage
begin

text \<open>
  The delivery engine of the application (\<open>apps/lxmfchat/src/net.rs\<close>, from \<open>enqueue_outbound\<close> on): the
  queue of sent messages, the pass that drives each of them (a link to the peer, its backchannel, or the
  propagation node), the proof-of-work stamps mined on the way, and the mark a message ends with.

  One iteration of the pass is \<open>pump_step\<close>, on the message at the current index: it says whether the loop
  goes on with the next message (\<open>Next\<close>), looks at the same one again (\<open>Again\<close>), removes it as failed
  (\<open>Failed\<close>), or panics (\<open>Crash\<close>). The \<open>u8\<close> counters wrap, as in a release build.
\<close>

section \<open>Constants\<close>

definition PROOF_TIMEOUT :: nat where [simp]: "PROOF_TIMEOUT = 18"
definition LINK_RETRY :: nat where [simp]: "LINK_RETRY = 15"
definition KEY_RETRY :: nat where [simp]: "KEY_RETRY = 5"
definition DIRECT_DEADLINE :: nat where [simp]: "DIRECT_DEADLINE = 90"
definition PROP_DEADLINE :: nat where [simp]: "PROP_DEADLINE = 120"
definition DELIVERY_RETRY :: nat where [simp]: "DELIVERY_RETRY = 10"
definition MAX_ATTEMPTS :: u8 where [simp]: "MAX_ATTEMPTS = 5"
definition MAX_ROUTE_TRIES :: u8 where [simp]: "MAX_ROUTE_TRIES = 3"
definition MAX_LINK_TRIES :: u8 where [simp]: "MAX_LINK_TRIES = 1"
definition MAX_DIRECT_ROUNDS :: u8 where [simp]: "MAX_DIRECT_ROUNDS = 1"
definition LINK_PACKED_MAX :: nat where [simp]: "LINK_PACKED_MAX = 431"
definition BACKCHANNEL_MAX_IDLE :: nat where [simp]: "BACKCHANNEL_MAX_IDLE = 540"
definition RESOURCE_RETRY :: nat where [simp]: "RESOURCE_RETRY = 45"
definition MAX_DELIVERY_STAMP_COST :: nat where [simp]: "MAX_DELIVERY_STAMP_COST = 20"

section \<open>Marks\<close>

definition post_update :: "env \<Rightarrow> bytes \<Rightarrow> nat \<Rightarrow> bytes \<Rightarrow> (Shared, bool) state" where
  "post_update E author ts body = do { emit (PostUpdate author ts body); ask (ev_posted E) }"

text \<open>The thread is not open: the mark is held, and stored, until it is.\<close>

definition defer_mark :: "env \<Rightarrow> bytes \<Rightarrow> nat \<Rightarrow> bytes \<Rightarrow> u8 \<Rightarrow> (Shared, unit) state" where
  "defer_mark E peer display_ts body status = do {
     m \<leftarrow> gets sh_delivery_updates;
     let updates = (case map_of m peer of Some l \<Rightarrow> l | None \<Rightarrow> []) @
                   [\<lparr>du_display_ts = display_ts, du_text = body, du_status = status\<rparr>];
     modify (\<lambda>s. s\<lparr>sh_delivery_updates := bt_insert peer updates m\<rparr>);
     persist_delivery_updates E peer updates }"

definition update_mark :: "env \<Rightarrow> bytes \<Rightarrow> nat \<Rightarrow> bytes \<Rightarrow> u8 \<Rightarrow> (Shared, unit) state" where
  "update_mark E peer display_ts body status = do {
     let new_text = bubble_text body (status_mark status);
     found \<leftarrow> post_update E SELF_AUTHOR display_ts new_text;
     if found then emit DialogueSave else defer_mark E peer display_ts body status }"

definition apply_delivery_updates :: "env \<Rightarrow> bytes \<Rightarrow> (Shared, unit) state" where
  "apply_delivery_updates E peer = do {
     m \<leftarrow> gets sh_delivery_updates;
     modify (\<lambda>s. s\<lparr>sh_delivery_updates := hm_remove peer m\<rparr>);
     case map_of m peer of
       None \<Rightarrow> State_Monad.return ()
     | Some updates \<Rightarrow> do {
         each (\<lambda>u. do {
           post_update E SELF_AUTHOR (du_display_ts u) (bubble_text (du_text u) (status_mark (du_status u)));
           State_Monad.return () }) updates;
         emit DialogueSave;
         delete_delivery_updates peer }}"

fun remove_first :: "('a \<Rightarrow> bool) \<Rightarrow> 'a list \<Rightarrow> 'a list" where
  "remove_first P [] = []"
| "remove_first P (x # xs) = (if P x then xs else x # remove_first P xs)"

definition mark_delivered :: "env \<Rightarrow> bytes \<Rightarrow> (Shared, unit) state" where
  "mark_delivered E phash = do {
     outbox \<leftarrow> gets sh_outbox;
     case find (\<lambda>m. om_in_flight m = Some phash) outbox of
       None \<Rightarrow> State_Monad.return ()
     | Some m \<Rightarrow> do {
         modify (\<lambda>s. s\<lparr>sh_outbox := remove_first (\<lambda>m. om_in_flight m = Some phash) outbox\<rparr>);
         let status = (if om_via_pn m then STATUS_QUEUED else STATUS_DELIVERED);
         label \<leftarrow> peer_label (om_peer m);
         emit (StatusText (if status = STATUS_QUEUED
                           then MARK_QUEUED @ ascii '' stored at propagation node for '' @ label
                           else MARK_DELIVERED @ ascii '' delivered to '' @ label));
         update_mark E (om_peer m) (om_display_ts m) (om_text m) status }}"

section \<open>The queue\<close>

definition enqueue_outbound ::
  "nat \<Rightarrow> bytes \<Rightarrow> nat \<Rightarrow> bytes \<Rightarrow> bytes \<Rightarrow> nat option \<Rightarrow> bool \<Rightarrow> (Shared, unit) state" where
  "enqueue_outbound now peer display_ts body pkd needs_stamp has_stamp =
     modify (\<lambda>s. s\<lparr>sh_outbox := sh_outbox s @
       [\<lparr>om_peer = peer, om_display_ts = display_ts, om_text = body, om_packed = pkd,
         om_needs_stamp = needs_stamp, om_stamped = has_stamp, om_via_pn = False, om_tried_pn = False,
         om_in_flight = None, om_attempts = 0, om_route_tries = 0, om_link_tries = 0, om_direct_rounds = 0,
         om_awaiting_key = False, om_pn_blob = None, om_next_action = 0, om_created = now,
         om_deadline = now + DIRECT_DEADLINE\<rparr>]\<rparr>)"

datatype Turn = Next OutboundMsg | Again OutboundMsg | Failed OutboundMsg bytes | Crash

definition say :: "bytes \<Rightarrow> string \<Rightarrow> (Shared, unit) state" where
  "say label what = emit (StatusText (label @ ascii '': '' @ ascii what @ ellipsis))"

definition say_pn :: "bytes \<Rightarrow> string \<Rightarrow> (Shared, unit) state" where
  "say_pn label why =
     emit (StatusText (label @ ascii '': '' @ ascii why @ ascii '' '' @ em_dash @
       ascii '' trying propagation node'' @ ellipsis))"

definition send_status :: "bytes \<Rightarrow> u8 \<Rightarrow> bytes" where
  "send_status label attempt =
     label @ ascii '': sent over link, awaiting confirmation'' @ ellipsis @
       (if attempt > 1
        then ascii '' (try '' @ dec (unat attempt) @ ascii ''/'' @ dec (unat MAX_ATTEMPTS) @ ascii '')''
        else [])"

text \<open>The phase's time is up: the message goes to the propagation node, or has failed.\<close>

definition expire_phase :: "env \<Rightarrow> nat \<Rightarrow> OutboundMsg \<Rightarrow> (Shared, Turn) state" where
  "expire_phase E now m =
     (if \<not> om_via_pn m \<and> \<not> om_tried_pn m \<and> ev_pn E \<noteq> None then do {
        label \<leftarrow> peer_label (om_peer m);
        say_pn label ''direct delivery timed out'';
        State_Monad.return (Next (m\<lparr>om_via_pn := True, om_deadline := now + PROP_DEADLINE, om_next_action := now\<rparr>)) }
      else if om_via_pn m then do {
        (if \<not> om_tried_pn m then
           case ev_pn E of
             Some pn \<Rightarrow> do { on_transport (expire_path pn); State_Monad.return () }
           | None \<Rightarrow> State_Monad.return ()
         else State_Monad.return ());
        State_Monad.return (Failed m (ascii ''propagation node unconfirmed'')) }
      else if om_attempts m = 0 \<and> \<not> om_tried_pn m then do {
        t \<leftarrow> gets sh_transport;
        State_Monad.return
          (Failed m (if has_path t (om_peer m) then ascii ''link could not be established''
                     else ascii ''no route found'')) }
      else State_Monad.return (Failed m (ascii ''no acknowledgement'')))"

text \<open>No proof arrived in time. \<open>None\<close>: the message has failed; otherwise the pass goes on to send it.\<close>

definition proof_timed_out :: "env \<Rightarrow> nat \<Rightarrow> OutboundMsg \<Rightarrow> (Shared, OutboundMsg option) state" where
  "proof_timed_out E now m = do {
     let m = m\<lparr>om_in_flight := None\<rparr>;
     label \<leftarrow> peer_label (om_peer m);
     if \<not> om_via_pn m then
       if om_attempts m < MAX_ATTEMPTS then do {
         modify (\<lambda>s. s\<lparr>sh_backchannels := hm_remove (om_peer m) (sh_backchannels s)\<rparr>);
         link \<leftarrow> on_transport (outbound_link_for (ev_order E) (om_peer m) now);
         (case link of
            Some lid \<Rightarrow> on_transport (\<lambda>t. ((), drop_out_link lid t))
          | None \<Rightarrow> State_Monad.return ());
         State_Monad.return (Some m) }
       else if \<not> om_tried_pn m \<and> ev_pn E \<noteq> None then do {
         say_pn label ''no confirmation'';
         State_Monad.return (Some (m\<lparr>om_via_pn := True, om_deadline := now + PROP_DEADLINE\<rparr>)) }
       else State_Monad.return None
     else do {
       (case ev_pn E of
          Some target \<Rightarrow> do {
            sync_lid \<leftarrow> gets (\<lambda>s. sy_link_id (sh_sync s));
            link \<leftarrow> on_transport (outbound_link_for (ev_order E) target now);
            (case link of
               Some lid \<Rightarrow> if sync_lid \<noteq> Some lid then on_transport (\<lambda>t. ((), drop_out_link lid t))
                           else State_Monad.return ()
             | None \<Rightarrow> State_Monad.return ()) }
        | None \<Rightarrow> State_Monad.return ());
       say label ''retrying propagation node'';
       State_Monad.return (Some m) }}"

text \<open>The propagation branch: the node's key, its route, a link to it, the blob, the transmission.\<close>

definition send_blob :: "env \<Rightarrow> nat \<Rightarrow> bytes \<Rightarrow> bytes \<Rightarrow> OutboundMsg \<Rightarrow> (Shared, Turn) state" where
  "send_blob E now lid blob m =
     (if length blob > LINK_PACKED_MAX then do {
        sent \<leftarrow> make_resource_on_link E lid blob;
        case sent of
          Some h \<Rightarrow> do {
            label \<leftarrow> peer_label (om_peer m);
            say label ''transferring to propagation node'';
            State_Monad.return
              (Next (m\<lparr>om_in_flight := Some h, om_tried_pn := True, om_next_action := now + RESOURCE_RETRY\<rparr>)) }
        | None \<Rightarrow> State_Monad.return (Next (m\<lparr>om_next_action := now + 2\<rparr>)) }
      else do {
        div_iv \<leftarrow> fill_random E IV_LENGTH;
        sent \<leftarrow> on_transport (make_link_data (ev_crypto E) lid blob div_iv);
        case sent of
          Some (raw, phash) \<Rightarrow> do {
            broadcast_out E raw;
            label \<leftarrow> peer_label (om_peer m);
            say label ''sending to propagation node'';
            State_Monad.return
              (Next (m\<lparr>om_in_flight := Some phash, om_tried_pn := True, om_next_action := now + PROOF_TIMEOUT\<rparr>)) }
        | None \<Rightarrow> State_Monad.return (Next (m\<lparr>om_next_action := now + 2\<rparr>)) })"

definition pump_pn :: "env \<Rightarrow> nat \<Rightarrow> OutboundMsg \<Rightarrow> (Shared, Turn) state" where
  "pump_pn E now m =
     (case ev_pn E of
        None \<Rightarrow> State_Monad.return Crash
      | Some target \<Rightarrow> do {
          t \<leftarrow> gets sh_transport;
          case known t target of
            None \<Rightarrow> do {
              request_peer_key E target;
              State_Monad.return (Next (m\<lparr>om_awaiting_key := True, om_next_action := now + KEY_RETRY\<rparr>)) }
          | Some k \<Rightarrow>
              if \<not> has_path t target then do {
                request_peer_key E target;
                State_Monad.return (Next (m\<lparr>om_awaiting_key := False, om_next_action := now + KEY_RETRY\<rparr>)) }
              else do {
                link \<leftarrow> on_transport (outbound_link_for (ev_order E) target now);
                case link of
                  None \<Rightarrow> do {
                    send_link_request E target (kd_identity k) now;
                    label \<leftarrow> peer_label (om_peer m);
                    say label ''contacting propagation node'';
                    State_Monad.return (Next (m\<lparr>om_next_action := now + LINK_RETRY\<rparr>)) }
                | Some lid \<Rightarrow>
                    (case om_pn_blob m of
                       None \<Rightarrow> State_Monad.return (Next (m\<lparr>om_next_action := now + 1\<rparr>))
                     | Some blob \<Rightarrow> send_blob E now lid blob m) }})"

text \<open>The direct branch, over our own link.\<close>

definition send_on_link :: "env \<Rightarrow> nat \<Rightarrow> bytes \<Rightarrow> bytes \<Rightarrow> OutboundMsg \<Rightarrow> (Shared, Turn) state" where
  "send_on_link E now label lid m =
     (if length (om_packed m) > LINK_PACKED_MAX then do {
        sent \<leftarrow> make_resource_on_link E lid (om_packed m);
        case sent of
          Some h \<Rightarrow> do {
            say label ''transferring (large message)'';
            State_Monad.return (Next (m\<lparr>om_in_flight := Some h, om_attempts := om_attempts m + 1,
              om_next_action := now + RESOURCE_RETRY\<rparr>)) }
        | None \<Rightarrow> State_Monad.return (Next (m\<lparr>om_next_action := now + 1\<rparr>)) }
      else do {
        iv \<leftarrow> fill_random E IV_LENGTH;
        made \<leftarrow> on_transport (make_link_data (ev_crypto E) lid (om_packed m) iv);
        case made of
          Some (raw, phash) \<Rightarrow> do {
            broadcast_out E raw;
            emit (StatusText (send_status label (om_attempts m + 1)));
            State_Monad.return (Next (m\<lparr>om_in_flight := Some phash, om_attempts := om_attempts m + 1,
              om_next_action := now + DELIVERY_RETRY\<rparr>)) }
        | None \<Rightarrow> State_Monad.return (Next (m\<lparr>om_next_action := now + 1\<rparr>)) })"

text \<open>The link the peer opened to us, unless it has been idle for too long.\<close>

definition live_backchannel :: "nat \<Rightarrow> bytes \<Rightarrow> (Shared, bytes option) state" where
  "live_backchannel now peer = do {
     b \<leftarrow> gets sh_backchannels;
     case map_of b peer of
       None \<Rightarrow> State_Monad.return None
     | Some (lid, seen) \<Rightarrow>
         if now - seen \<le> BACKCHANNEL_MAX_IDLE then State_Monad.return (Some lid)
         else do {
           modify (\<lambda>s. s\<lparr>sh_backchannels := hm_remove peer b\<rparr>);
           State_Monad.return None }}"

definition drop_backchannel :: "bytes \<Rightarrow> (Shared, unit) state" where
  "drop_backchannel peer = modify (\<lambda>s. s\<lparr>sh_backchannels := hm_remove peer (sh_backchannels s)\<rparr>)"

text \<open>A reply over that link; \<open>None\<close> when there is none or it did not take the message.\<close>

definition send_on_backchannel ::
  "env \<Rightarrow> nat \<Rightarrow> bytes \<Rightarrow> OutboundMsg \<Rightarrow> (Shared, OutboundMsg option) state" where
  "send_on_backchannel E now label m = do {
     bc \<leftarrow> live_backchannel now (om_peer m);
     case bc of
       None \<Rightarrow> State_Monad.return None
     | Some lid \<Rightarrow>
         if length (om_packed m) > LINK_PACKED_MAX then do {
           sent \<leftarrow> make_resource_on_link E lid (om_packed m);
           case sent of
             Some h \<Rightarrow> do {
               say label ''transferring over their link'';
               State_Monad.return (Some (m\<lparr>om_in_flight := Some h, om_attempts := om_attempts m + 1,
                 om_next_action := now + RESOURCE_RETRY\<rparr>)) }
           | None \<Rightarrow> do { drop_backchannel (om_peer m); State_Monad.return None } }
         else do {
           iv \<leftarrow> fill_random E IV_LENGTH;
           made \<leftarrow> on_transport (make_in_link_data (ev_crypto E) lid (om_packed m) iv);
           case made of
             Some (raw, phash) \<Rightarrow> do {
               broadcast_out E raw;
               emit (StatusText (send_status label (om_attempts m + 1)));
               State_Monad.return (Some (m\<lparr>om_in_flight := Some phash, om_attempts := om_attempts m + 1,
                 om_next_action := now + DELIVERY_RETRY\<rparr>)) }
           | None \<Rightarrow> do { drop_backchannel (om_peer m); State_Monad.return None } }}"

text \<open>No route to the peer: ask for one, or turn to the propagation node.\<close>

definition find_route :: "env \<Rightarrow> nat \<Rightarrow> bytes \<Rightarrow> OutboundMsg \<Rightarrow> (Shared, Turn) state" where
  "find_route E now label m =
     (if om_route_tries m \<ge> MAX_ROUTE_TRIES \<and> \<not> om_tried_pn m \<and> ev_pn E \<noteq> None then do {
        say_pn label ''no route'';
        State_Monad.return
          (Again (m\<lparr>om_via_pn := True, om_deadline := now + PROP_DEADLINE, om_next_action := now\<rparr>)) }
      else do {
        asked \<leftarrow> request_peer_key E (om_peer m);
        say label ''finding a route'';
        State_Monad.return
          (Next (m\<lparr>om_route_tries := (if asked then om_route_tries m + 1 else om_route_tries m),
                   om_awaiting_key := False, om_next_action := now + KEY_RETRY\<rparr>)) })"

text \<open>The link did not come up: the route is dropped and found again, or the propagation node takes over.\<close>

definition give_up_link :: "env \<Rightarrow> nat \<Rightarrow> bytes \<Rightarrow> OutboundMsg \<Rightarrow> (Shared, Turn) state" where
  "give_up_link E now label m = do {
     on_transport (expire_path (om_peer m));
     if om_direct_rounds m < MAX_DIRECT_ROUNDS then do {
       emit (StatusText (label @ ascii '': route lost '' @ em_dash @ ascii '' rediscovering'' @ ellipsis));
       State_Monad.return (Next (m\<lparr>om_direct_rounds := om_direct_rounds m + 1, om_link_tries := 0,
         om_route_tries := 0, om_next_action := now + 1\<rparr>)) }
     else if \<not> om_tried_pn m \<and> ev_pn E \<noteq> None then do {
       say_pn label ''link won't establish'';
       State_Monad.return
         (Again (m\<lparr>om_via_pn := True, om_deadline := now + PROP_DEADLINE, om_next_action := now\<rparr>)) }
     else State_Monad.return (Next (m\<lparr>om_link_tries := 0, om_next_action := now + 1\<rparr>)) }"

definition establish :: "env \<Rightarrow> nat \<Rightarrow> bytes \<Rightarrow> OutboundMsg \<Rightarrow> (Shared, Turn) state" where
  "establish E now label m = do {
     t \<leftarrow> gets sh_transport;
     case known t (om_peer m) of
       None \<Rightarrow> do {
         say label ''requesting key'';
         request_peer_key E (om_peer m);
         State_Monad.return (Next (m\<lparr>om_awaiting_key := True, om_next_action := now + KEY_RETRY\<rparr>)) }
     | Some k \<Rightarrow>
         if \<not> has_path t (om_peer m) then find_route E now label m
         else do {
           pending \<leftarrow> on_transport (pending_link_to (om_peer m) now);
           if \<not> pending \<and> om_link_tries m \<ge> MAX_LINK_TRIES then give_up_link E now label m
           else do {
             r \<leftarrow> send_link_request E (om_peer m) (kd_identity k) now;
             case r of
               Sent \<Rightarrow> do {
                 say label ''establishing link'';
                 State_Monad.return (Next (m\<lparr>om_link_tries := om_link_tries m + 1, om_next_action := now + 2\<rparr>)) }
             | Pending \<Rightarrow> State_Monad.return (Next (m\<lparr>om_next_action := now + 2\<rparr>))
             | WriteFailed \<Rightarrow> State_Monad.return (Next (m\<lparr>om_next_action := now + 2\<rparr>)) }}}"

definition pump_direct :: "env \<Rightarrow> nat \<Rightarrow> OutboundMsg \<Rightarrow> (Shared, Turn) state" where
  "pump_direct E now m = do {
     label \<leftarrow> peer_label (om_peer m);
     link \<leftarrow> on_transport (outbound_link_for (ev_order E) (om_peer m) now);
     case link of
       Some lid \<Rightarrow> send_on_link E now label lid m
     | None \<Rightarrow> do {
         sent \<leftarrow> send_on_backchannel E now label m;
         case sent of
           Some m' \<Rightarrow> State_Monad.return (Next m')
         | None \<Rightarrow> establish E now label m }}"

definition pump_send :: "env \<Rightarrow> nat \<Rightarrow> OutboundMsg \<Rightarrow> (Shared, Turn) state" where
  "pump_send E now m = (if om_via_pn m then pump_pn E now m else pump_direct E now m)"

definition pump_step :: "env \<Rightarrow> nat \<Rightarrow> OutboundMsg \<Rightarrow> (Shared, Turn) state" where
  "pump_step E now m =
     (if om_needs_stamp m \<noteq> None then State_Monad.return (Next m)
      else if now > om_deadline m then expire_phase E now m
      else if om_in_flight m \<noteq> None then
        if now < om_next_action m then State_Monad.return (Next m)
        else do {
          r \<leftarrow> proof_timed_out E now m;
          case r of
            None \<Rightarrow> State_Monad.return (Failed m (ascii ''no acknowledgement''))
          | Some m' \<Rightarrow> pump_send E now m' }
      else if now < om_next_action m then State_Monad.return (Next m)
      else pump_send E now m)"

section \<open>The pass\<close>

lemma ensures_link_req:
  "ensures I a Q \<Longrightarrow> ensures I b Q \<Longrightarrow> ensures I c Q \<Longrightarrow>
     ensures I (case r of Sent \<Rightarrow> a | Pending \<Rightarrow> b | WriteFailed \<Rightarrow> c) Q"
  by (simp split: LinkReqOutcome.split)

text \<open>
  What an iteration can make of a message, whatever the network does. The propagation branch sends or
  waits. The direct branch sends, waits, or hands the message to the propagation branch.
\<close>

definition same_msg :: "OutboundMsg \<Rightarrow> OutboundMsg \<Rightarrow> bool" where
  "same_msg m m' \<longleftrightarrow> om_peer m' = om_peer m \<and> om_display_ts m' = om_display_ts m \<and> om_text m' = om_text m \<and>
     om_packed m' = om_packed m \<and> om_needs_stamp m' = om_needs_stamp m \<and> om_stamped m' = om_stamped m \<and>
     om_pn_blob m' = om_pn_blob m \<and> om_created m' = om_created m"

definition pn_turn :: "env \<Rightarrow> OutboundMsg \<Rightarrow> Turn \<Rightarrow> bool" where
  "pn_turn E m r =
     (case r of
        Next m' \<Rightarrow> same_msg m m' \<and> om_via_pn m' = om_via_pn m \<and> om_deadline m' = om_deadline m \<and>
          om_attempts m' = om_attempts m \<and> om_direct_rounds m' = om_direct_rounds m \<and>
          (om_in_flight m' = om_in_flight m \<and> om_tried_pn m' = om_tried_pn m \<or> om_in_flight m' \<noteq> None \<and> om_tried_pn m')
      | Crash \<Rightarrow> ev_pn E = None
      | _ \<Rightarrow> False)"

definition direct_turn :: "env \<Rightarrow> nat \<Rightarrow> OutboundMsg \<Rightarrow> Turn \<Rightarrow> bool" where
  "direct_turn E now m r =
     (case r of
        Next m' \<Rightarrow> same_msg m m' \<and> om_via_pn m' = om_via_pn m \<and> om_deadline m' = om_deadline m \<and>
          om_tried_pn m' = om_tried_pn m \<and>
          (om_in_flight m' = om_in_flight m \<and> om_attempts m' = om_attempts m \<or>
           om_in_flight m' \<noteq> None \<and> om_attempts m' = om_attempts m + 1) \<and>
          (om_direct_rounds m' = om_direct_rounds m \<or> om_direct_rounds m < 1 \<and> om_direct_rounds m' = om_direct_rounds m + 1)
      | Again m' \<Rightarrow> \<not> om_tried_pn m \<and> ev_pn E \<noteq> None \<and>
          m' = m\<lparr>om_via_pn := True, om_deadline := now + PROP_DEADLINE, om_next_action := now\<rparr>
      | _ \<Rightarrow> False)"

lemma pump_pn_turn: "ensures (\<lambda>_. True) (pump_pn E now m) (pn_turn E m)"
  unfolding pump_pn_def send_blob_def
  by (intro results; simp add: pn_turn_def same_msg_def)

lemma send_on_backchannel_turn:
  "ensures (\<lambda>_. True) (send_on_backchannel E now label m)
     (\<lambda>r. case r of None \<Rightarrow> True | Some m' \<Rightarrow> direct_turn E now m (Next m'))"
  unfolding send_on_backchannel_def
  by (intro results; simp add: direct_turn_def same_msg_def)

lemma establish_turn: "ensures (\<lambda>_. True) (establish E now label m) (direct_turn E now m)"
  unfolding establish_def find_route_def give_up_link_def
  by (intro results ensures_link_req; simp add: direct_turn_def same_msg_def)

lemma send_on_link_turn: "ensures (\<lambda>_. True) (send_on_link E now label lid m) (direct_turn E now m)"
  unfolding send_on_link_def
  by (intro results; simp add: direct_turn_def same_msg_def)

lemma pump_direct_turn: "ensures (\<lambda>_. True) (pump_direct E now m) (direct_turn E now m)"
  unfolding pump_direct_def
  by (intro ensures_then ensures_option send_on_link_turn establish_turn ensures_bind [OF send_on_backchannel_turn]
      ensures_return; simp)

lemma proof_timed_out_result:
  "ensures (\<lambda>_. True) (proof_timed_out E now m)
     (\<lambda>r. case r of
        None \<Rightarrow> \<not> om_via_pn m \<and> \<not> om_attempts m < 5 \<and> (om_tried_pn m \<or> ev_pn E = None)
      | Some m' \<Rightarrow> m' = m\<lparr>om_in_flight := None\<rparr> \<and> (om_via_pn m \<or> om_attempts m < 5) \<or>
          m' = m\<lparr>om_in_flight := None, om_via_pn := True, om_deadline := now + PROP_DEADLINE\<rparr> \<and>
            \<not> om_via_pn m \<and> \<not> om_tried_pn m \<and> ev_pn E \<noteq> None)"
  unfolding proof_timed_out_def Let_def
  by (intro ensures_return ensures_then ensures_if; simp)

text \<open>The invariant of a queued message.\<close>

definition om_ok :: "env \<Rightarrow> OutboundMsg \<Rightarrow> bool" where
  "om_ok E m \<longleftrightarrow> (om_via_pn m \<longrightarrow> ev_pn E \<noteq> None) \<and> (om_tried_pn m \<longrightarrow> om_via_pn m) \<and> om_attempts m \<le> 5 \<and>
     (\<not> om_via_pn m \<and> om_in_flight m = None \<longrightarrow> om_attempts m < 5) \<and> om_direct_rounds m \<le> 1 \<and>
     (om_needs_stamp m \<noteq> None \<longrightarrow> om_in_flight m = None)"

text \<open>
  What a pass makes of a message. It is kept with its time budget, moves once to the propagation path
  with a fresh budget, or fails; it fails on the propagation path if there is a node at all.
\<close>

definition survives :: "env \<Rightarrow> nat \<Rightarrow> OutboundMsg \<Rightarrow> OutboundMsg \<Rightarrow> bool" where
  "survives E now m m' \<longleftrightarrow> same_msg m m' \<and> om_ok E m' \<and> (om_needs_stamp m \<noteq> None \<longrightarrow> m' = m) \<and>
     (om_via_pn m' = om_via_pn m \<and> om_deadline m' = om_deadline m \<and> (om_needs_stamp m = None \<longrightarrow> now \<le> om_deadline m) \<or>
      \<not> om_via_pn m \<and> om_via_pn m' \<and> om_deadline m' = now + PROP_DEADLINE)"

definition fails :: "env \<Rightarrow> nat \<Rightarrow> OutboundMsg \<Rightarrow> OutboundMsg \<Rightarrow> bool" where
  "fails E now m m' \<longleftrightarrow> same_msg m m' \<and> om_needs_stamp m = None \<and>
     (ev_pn E = None \<or> om_via_pn m \<and> now > om_deadline m)"

definition turn :: "env \<Rightarrow> nat \<Rightarrow> OutboundMsg \<Rightarrow> Turn \<Rightarrow> bool" where
  "turn E now m r =
     (case r of
        Next m' \<Rightarrow> survives E now m m'
      | Again m' \<Rightarrow> survives E now m m' \<and> om_needs_stamp m = None \<and> \<not> om_via_pn m \<and> om_via_pn m'
      | Failed m' why \<Rightarrow> fails E now m m'
      | Crash \<Rightarrow> False)"

lemmas turn_defs = turn_def survives_def fails_def

lemma same_msg_refl [simp]: "same_msg m m"
  by (simp add: same_msg_def)

lemma attempt_counts: "(a :: u8) < 5 \<Longrightarrow> a + 1 \<le> 5" "(d :: u8) < 1 \<Longrightarrow> d + 1 \<le> 1"
  by (simp_all add: inc_le) 

lemma pump_send_turn:
  assumes "om_ok E m" "om_needs_stamp m = None" "now \<le> om_deadline m" "om_in_flight m = None"
  shows "ensures (\<lambda>_. True) (pump_send E now m) (turn E now m)"
proof (cases "om_via_pn m")
  case True
  show ?thesis
    unfolding pump_send_def if_P [OF True]
    by (rule ensures_conseq [OF pump_pn_turn])
      (use True assms in \<open>auto simp: pn_turn_def turn_defs om_ok_def same_msg_def split: Turn.splits\<close>)
next
  case False
  show ?thesis
    unfolding pump_send_def if_not_P [OF False]
    by (rule ensures_conseq [OF pump_direct_turn])
      (use False assms in \<open>auto simp: direct_turn_def turn_defs om_ok_def same_msg_def attempt_counts split: Turn.splits\<close>)
qed

lemma retry_turn:
  assumes "om_ok E m" "om_needs_stamp m = None" "now \<le> om_deadline m" "om_via_pn m \<or> om_attempts m < 5"
  shows "ensures (\<lambda>_. True) (pump_send E now (m\<lparr>om_in_flight := None\<rparr>)) (turn E now m)"
  using assms
  by (intro ensures_conseq [OF pump_send_turn]) (auto simp: turn_defs om_ok_def same_msg_def split: Turn.splits)

lemma escalate_turn:
  assumes "om_ok E m" "om_needs_stamp m = None" "\<not> om_via_pn m" "\<not> om_tried_pn m" "ev_pn E \<noteq> None"
  shows "ensures (\<lambda>_. True)
     (pump_send E now (m\<lparr>om_in_flight := None, om_via_pn := True, om_deadline := now + PROP_DEADLINE\<rparr>)) (turn E now m)"
  using assms
  by (intro ensures_conseq [OF pump_send_turn]) (auto simp: turn_defs om_ok_def same_msg_def split: Turn.splits)

lemma pump_step_turn:
  assumes "om_ok E m"
  shows "ensures (\<lambda>_. True) (pump_step E now m) (turn E now m)"
proof -
  have expired: "ensures (\<lambda>_. True) (expire_phase E now m) (turn E now m)"
    if "om_needs_stamp m = None" "now > om_deadline m"
    unfolding expire_phase_def
    by (intro ensures_return ensures_then ensures_if)
      (use assms that in \<open>auto simp: turn_defs om_ok_def same_msg_def\<close>)
  have retried: "ensures (\<lambda>_. True) (State_Monad.bind (proof_timed_out E now m)
      (\<lambda>r. case r of None \<Rightarrow> State_Monad.return (Failed m why) | Some m' \<Rightarrow> pump_send E now m')) (turn E now m)"
    if n: "om_needs_stamp m = None" and d: "now \<le> om_deadline m" for why
  proof (rule ensures_bind [OF proof_timed_out_result], rule ensures_option, goal_cases)
    case (1 r)
    then show ?case
      by (intro ensures_return) (use assms that in \<open>auto simp: turn_defs om_ok_def\<close>)
  next
    case (2 r m')
    from 2(1) [unfolded 2(2) option.case] show ?case
      using retry_turn [OF assms n d] escalate_turn [OF assms n] by blast
  qed
  show ?thesis
    unfolding pump_step_def
    by (intro ensures_if ensures_return expired retried pump_send_turn)
      (use assms in \<open>auto simp: turn_defs not_less\<close>)
qed

lemma pump_step_again:
  "ensures (\<lambda>_. True) (pump_step E now m)
     (\<lambda>r. case r of Again m' \<Rightarrow> \<not> om_via_pn m \<and> om_via_pn m' | _ \<Rightarrow> True)"
proof -
  have send: "ensures (\<lambda>_. True) (pump_send E now m')
      (\<lambda>r. case r of Again m'' \<Rightarrow> \<not> om_via_pn m' \<and> om_via_pn m'' | _ \<Rightarrow> True)" for m'
    unfolding pump_send_def
    by (intro ensures_if ensures_conseq [OF pump_pn_turn] ensures_conseq [OF pump_direct_turn])
      (auto simp: pn_turn_def direct_turn_def split: Turn.splits)
  show ?thesis
    unfolding pump_step_def expire_phase_def
    by (intro ensures_if ensures_return ensures_then ensures_bind [OF proof_timed_out_result] ensures_option
        ensures_conseq [OF send])
      (auto split: Turn.splits)
qed

text \<open>
  The loop over the queue: the messages kept, those that failed with the reason, and whether it panicked.
\<close>

type_synonym pass = "OutboundMsg list \<times> (OutboundMsg \<times> bytes) list \<times> bool"

function pump_loop :: "env \<Rightarrow> nat \<Rightarrow> OutboundMsg list \<Rightarrow> Shared \<Rightarrow> pass \<times> Shared" where
  "pump_loop E now [] s = (([], [], False), s)"
| "pump_loop E now (m # ms) s =
     (case run_state (pump_step E now m) s of
        (Next m', s') \<Rightarrow>
          (case pump_loop E now ms s' of ((kept, failed, crashed), s'') \<Rightarrow> ((m' # kept, failed, crashed), s''))
      | (Again m', s') \<Rightarrow> pump_loop E now (m' # ms) s'
      | (Failed m' why, s') \<Rightarrow>
          (case pump_loop E now ms s' of ((kept, failed, crashed), s'') \<Rightarrow> ((kept, (m', why) # failed, crashed), s''))
      | (Crash, s') \<Rightarrow> ((m # ms, [], True), s'))"
  by pat_completeness auto
termination
proof (relation "measure (\<lambda>(E, now, ms, s). length ms + length (filter (\<lambda>m. \<not> om_via_pn m) ms))", goal_cases)
  case (3 E now m ms s r s' m')
  then show ?case using ensuresD [OF pump_step_again _ 3(1) [symmetric]] by simp
qed auto

text \<open>The pass as a specification: every message survives, in order, or is reported as failed.\<close>

inductive passes :: "env \<Rightarrow> nat \<Rightarrow> OutboundMsg list \<Rightarrow> OutboundMsg list \<Rightarrow> (OutboundMsg \<times> bytes) list \<Rightarrow> bool"
  for E now where
  passes_Nil: "passes E now [] [] []"
| passes_kept: "survives E now m m' \<Longrightarrow> passes E now ms kept failed \<Longrightarrow> passes E now (m # ms) (m' # kept) failed"
| passes_failed: "fails E now m m' \<Longrightarrow> passes E now ms kept failed \<Longrightarrow> passes E now (m # ms) kept ((m', why) # failed)"

inductive_simps passes_simps: "passes E now [] kept failed" "passes E now (m # ms) kept failed"

lemma survives_trans:
  "om_needs_stamp m = None \<Longrightarrow> \<not> om_via_pn m \<Longrightarrow> survives E now m m' \<Longrightarrow> om_via_pn m' \<Longrightarrow> survives E now m' m'' \<Longrightarrow>
     survives E now m m''"
  by (auto simp: survives_def same_msg_def)

lemma moved_does_not_fail:
  "\<not> om_via_pn m \<Longrightarrow> survives E now m m' \<Longrightarrow> om_via_pn m' \<Longrightarrow> \<not> fails E now m' m''"
  by (auto simp: survives_def fails_def om_ok_def)

lemma pump_loop_passes:
  "list_all (om_ok E) ms \<Longrightarrow> pump_loop E now ms s = ((kept, failed, crashed), s') \<Longrightarrow>
     \<not> crashed \<and> passes E now ms kept failed"
proof (induction E now ms s arbitrary: kept failed crashed s' rule: pump_loop.induct)
  case (1 E now s)
  then show ?case by (simp add: passes_Nil)
next
  case (2 E now m ms s)
  obtain r s1 where st: "run_state (pump_step E now m) s = (r, s1)" by fastforce
  have ok: "om_ok E m" "list_all (om_ok E) ms" using "2.prems" by simp_all
  have t: "turn E now m r" using ensuresD [OF pump_step_turn [OF ok(1)] _ st] by simp
  show ?case
  proof (cases r)
    case (Next m')
    then show ?thesis
      using "2.IH"(1) [OF st [symmetric] Next ok(2)] "2.prems"(2) t st
      by (fastforce simp: turn_def split: prod.splits intro: passes_kept)
  next
    case (Again m')
    then have a: "survives E now m m'" "om_needs_stamp m = None" "\<not> om_via_pn m" "om_via_pn m'"
      using t by (simp_all add: turn_def)
    then have "om_ok E m'" by (simp add: survives_def)
    then have "\<not> crashed \<and> passes E now (m' # ms) kept failed"
      using "2.IH"(2) [OF st [symmetric] Again] "2.prems"(2) st Again ok(2) by simp
    then show ?thesis
      using survives_trans [OF a(2,3,1,4)] moved_does_not_fail [OF a(3,1,4)]
      by (auto simp: passes_simps)
  next
    case (Failed m' why)
    then show ?thesis
      using "2.IH"(3) [OF st [symmetric] Failed ok(2)] "2.prems"(2) t st
      by (fastforce simp: turn_def split: prod.splits intro: passes_failed)
  next
    case Crash
    then show ?thesis using t by (simp add: turn_def)
  qed
qed

definition report_failure :: "env \<Rightarrow> OutboundMsg \<times> bytes \<Rightarrow> (Shared, unit) state" where
  "report_failure E mw = (case mw of (m, why) \<Rightarrow> do {
     label \<leftarrow> peer_label (om_peer m);
     let note = MARK_FAILED @ ascii '' '' @ label @ ascii '': '' @ why;
     emit (StatusText note);
     emit (IdleText note);
     update_mark E (om_peer m) (om_display_ts m) (om_text m) STATUS_FAILED })"

definition pump_outbox :: "env \<Rightarrow> nat \<Rightarrow> (Shared, unit outcome) state" where
  "pump_outbox E now = do {
     outbox \<leftarrow> gets sh_outbox;
     (kept, failed, crashed) \<leftarrow> State (pump_loop E now outbox);
     modify (\<lambda>s. s\<lparr>sh_outbox := kept\<rparr>);
     if crashed then State_Monad.return Panic
     else do { each (report_failure E) failed; State_Monad.return (Ok ()) }}"

section \<open>Stamps and blobs\<close>

fun update_first :: "('a \<Rightarrow> bool) \<Rightarrow> ('a \<Rightarrow> 'a) \<Rightarrow> 'a list \<Rightarrow> 'a list" where
  "update_first P f [] = []"
| "update_first P f (x # xs) = (if P x then f x # xs else x # update_first P f xs)"

definition is_entry :: "bytes \<Rightarrow> nat \<Rightarrow> OutboundMsg \<Rightarrow> bool" where
  "is_entry peer display_ts m \<longleftrightarrow> om_peer m = peer \<and> om_display_ts m = display_ts"

definition fail_stamp :: "env \<Rightarrow> OutboundMsg \<Rightarrow> bytes \<Rightarrow> (Shared, bool outcome) state" where
  "fail_stamp E m why = do {
     modify (\<lambda>s. s\<lparr>sh_outbox := filter (\<lambda>x. \<not> is_entry (om_peer m) (om_display_ts m) x) (sh_outbox s)\<rparr>);
     update_mark E (om_peer m) (om_display_ts m) (om_text m) STATUS_FAILED;
     emit (IdleText why);
     emit (StatusText why);
     State_Monad.return (Ok False) }"

text \<open>
  The entry is looked up again after mining, and armed: the delivery clock starts now.
\<close>

definition store_stamped :: "nat \<Rightarrow> OutboundMsg \<Rightarrow> bytes \<Rightarrow> bytes \<Rightarrow> (Shared, bool outcome) state" where
  "store_stamped now m label pkd = do {
     outbox \<leftarrow> gets sh_outbox;
     if list_ex (is_entry (om_peer m) (om_display_ts m)) outbox then do {
       modify (\<lambda>s. s\<lparr>sh_outbox := update_first (is_entry (om_peer m) (om_display_ts m))
         (\<lambda>x. x\<lparr>om_packed := pkd, om_needs_stamp := None, om_created := now, om_deadline := now + DIRECT_DEADLINE\<rparr>) outbox\<rparr>);
       emit (StatusText (ascii ''stamp ready '' @ em_dash @ ascii '' sending to '' @ label @ ellipsis));
       State_Monad.return (Ok True) }
     else State_Monad.return (Ok False) }"

text \<open>\<open>OutOfFuel\<close> stands for mining that does not end.\<close>

definition compute_pending_delivery_stamp :: "env \<Rightarrow> nat \<Rightarrow> (Shared, bool outcome) state" where
  "compute_pending_delivery_stamp E now = do {
     outbox \<leftarrow> gets sh_outbox;
     case find (\<lambda>m. om_needs_stamp m \<noteq> None) outbox of
       None \<Rightarrow> State_Monad.return (Ok False)
     | Some m \<Rightarrow> do {
         let cost = (case om_needs_stamp m of Some c \<Rightarrow> c | None \<Rightarrow> 0);
         label \<leftarrow> peer_label (om_peer m);
         if cost > MAX_DELIVERY_STAMP_COST then
           fail_stamp E m (MARK_FAILED @ ascii '' '' @ label @ ascii '': stamp cost '' @ dec cost @ ascii '' is too high'')
         else do {
           emit (StatusText (ascii ''computing stamp for '' @ label @ ascii '' (cost '' @ dec cost @ ascii '')'' @ ellipsis));
           if length (om_packed m) < 2 * TRUNCATED_HASHLENGTH + SIG_LENGTH then State_Monad.return Panic
           else do {
             let hashed = take (2 * TRUNCATED_HASHLENGTH) (om_packed m) @
                          drop (2 * TRUNCATED_HASHLENGTH + SIG_LENGTH) (om_packed m);
             let mid = full_hash (ev_crypto E) hashed;
             case generate_stamp (ev_crypto E) mid cost WORKBLOCK_EXPAND_ROUNDS_DELIVERY of
               None \<Rightarrow> State_Monad.return OutOfFuel
             | Some stamp \<Rightarrow>
                 (case append_stamp (ev_width E) (om_packed m) stamp of
                    Ok (Some pkd) \<Rightarrow> store_stamped now m label pkd
                  | Ok None \<Rightarrow>
                      fail_stamp E m (MARK_FAILED @ ascii '' '' @ label @ ascii '': could not stamp message'')
                  | Err e \<Rightarrow> State_Monad.return (Err e)
                  | Panic \<Rightarrow> State_Monad.return Panic
                  | OutOfFuel \<Rightarrow> State_Monad.return OutOfFuel) }}}}"

definition compute_pending_pn_blob :: "env \<Rightarrow> nat \<Rightarrow> (Shared, bool outcome) state" where
  "compute_pending_pn_blob E now = do {
     outbox \<leftarrow> gets sh_outbox;
     case find (\<lambda>m. om_via_pn m \<and> om_pn_blob m = None) outbox of
       None \<Rightarrow> State_Monad.return (Ok False)
     | Some m \<Rightarrow> do {
         t \<leftarrow> gets sh_transport;
         case known t (om_peer m) of
           None \<Rightarrow> State_Monad.return (Ok False)
         | Some k \<Rightarrow> do {
             label \<leftarrow> peer_label (om_peer m);
             say label ''computing propagation stamp'';
             eph \<leftarrow> fill_random E KEY_HALF;
             iv \<leftarrow> fill_random E IV_LENGTH;
             if length (om_packed m) < TRUNCATED_HASHLENGTH then State_Monad.return Panic
             else case pack_propagation (ev_crypto E) (kd_identity k) (om_peer m)
                    (drop TRUNCATED_HASHLENGTH (om_packed m)) (kd_ratchet k) eph iv (f64_of_u64 now) (ev_pcost E) of
                 None \<Rightarrow> State_Monad.return OutOfFuel
               | Some blob \<Rightarrow> do {
                   modify (\<lambda>s. s\<lparr>sh_outbox := update_first (is_entry (om_peer m) (om_display_ts m))
                     (\<lambda>x. x\<lparr>om_pn_blob := Some blob\<rparr>) (sh_outbox s)\<rparr>);
                   State_Monad.return (Ok True) }}}}"

text \<open>
  An announce of the peer releases the messages that have not been sent yet (\<open>handle_frame\<close>, the
  \<open>Announce\<close> arm): they are due now, and wait for a stamp if the announce demands one. The results say
  whether there was such a message and whether one had been waiting for the key.
\<close>

definition waits_for :: "bytes \<Rightarrow> OutboundMsg \<Rightarrow> bool" where
  "waits_for dest m \<longleftrightarrow> om_peer m = dest \<and> om_attempts m = 0 \<and> om_in_flight m = None"

definition release :: "nat option \<Rightarrow> OutboundMsg \<Rightarrow> OutboundMsg" where
  "release cost m =
     m\<lparr>om_needs_stamp := (case cost of
                            Some c \<Rightarrow> if \<not> om_stamped m \<and> om_needs_stamp m = None then Some c else om_needs_stamp m
                          | None \<Rightarrow> om_needs_stamp m),
       om_next_action := 0\<rparr>"

definition release_waiting :: "bytes \<Rightarrow> nat option \<Rightarrow> (Shared, bool \<times> bool) state" where
  "release_waiting dest cost = do {
     outbox \<leftarrow> gets sh_outbox;
     modify (\<lambda>s. s\<lparr>sh_outbox := map (\<lambda>m. if waits_for dest m then release cost m else m) outbox\<rparr>);
     State_Monad.return (list_ex (waits_for dest) outbox,
       list_ex (\<lambda>m. waits_for dest m \<and> om_awaiting_key m) outbox) }"

text \<open>One tick of the pump thread.\<close>

definition pump_tick :: "env \<Rightarrow> nat \<Rightarrow> (Shared, unit outcome) state" where
  "pump_tick E now = do {
     outbox \<leftarrow> gets sh_outbox;
     if outbox = [] then State_Monad.return (Ok ())
     else do {
       a \<leftarrow> compute_pending_delivery_stamp E now;
       case a of
         Ok _ \<Rightarrow> do {
           b \<leftarrow> compute_pending_pn_blob E now;
           case b of
             Ok _ \<Rightarrow> pump_outbox E now
           | Err e \<Rightarrow> State_Monad.return (Err e)
           | Panic \<Rightarrow> State_Monad.return Panic
           | OutOfFuel \<Rightarrow> State_Monad.return OutOfFuel }
       | Err e \<Rightarrow> State_Monad.return (Err e)
       | Panic \<Rightarrow> State_Monad.return Panic
       | OutOfFuel \<Rightarrow> State_Monad.return OutOfFuel }}"

end
