(* ===== verification/Delivery.thy ===== *)
theory Delivery
  imports Outbox "HOL-Library.Multiset"
begin

text \<open>
  What the delivery engine of \<open>Outbox\<close> guarantees: the queue's invariant in every reachable state, that a
  pass loses no message and never panics, the time within which a message is settled, that a message
  pumped over a live link ends as delivered, and what happens to a message that is stamped twice.
\<close>

section \<open>Frames\<close>

lemma frames_outbox [frames_rules]:
  "frames sh_outbox (emit e)" "frames sh_outbox (ask a)" "frames sh_outbox (pddb_delete d k)"
  "frames sh_outbox (peer_label p)"
  by (simp_all add: frames_def emit_def ask_def pddb_delete_def peer_label_def)

lemma frames_outbox_store [frames_rules]:
  "frames sh_outbox (pddb_write E d k v)" "frames sh_outbox (persist_delivery_updates E p us)"
  by (auto simp: pddb_write_def persist_delivery_updates_def Let_def intro!: frames_rules frames_modify)

lemma frames_outbox_mark [frames_rules]:
  "frames sh_outbox (defer_mark E p ts b st)" "frames sh_outbox (update_mark E p ts b st)"
  by (auto simp: update_mark_def defer_mark_def post_update_def Let_def intro!: frames_rules frames_modify)

lemma frames_outbox_report [frames_rules]: "frames sh_outbox (report_failure E mw)"
  by (auto simp: report_failure_def Let_def intro!: frames_rules)

section \<open>The log only grows\<close>

named_theorems grows_rules \<open>rules that a program only appends to the log\<close>

definition grows :: "(Shared, 'a) state \<Rightarrow> bool" where
  "grows m \<longleftrightarrow> (\<forall>s. set (sh_log s) \<subseteq> set (sh_log (snd (run_state m s))))"

lemma growsD: "grows m \<Longrightarrow> run_state m s = (a, s') \<Longrightarrow> e \<in> set (sh_log s) \<Longrightarrow> e \<in> set (sh_log s')"
  unfolding grows_def by (metis snd_conv subsetD)

lemma grows_basic [grows_rules]:
  "grows (State_Monad.return a)" "grows (gets f)" "grows (emit e)" "grows (ask q)" "grows (pddb_delete d k)"
  "grows (peer_label p)"
  by (auto simp: grows_def emit_def ask_def pddb_delete_def peer_label_def)

lemma grows_bind [grows_rules]: "grows m \<Longrightarrow> (\<And>a. grows (f a)) \<Longrightarrow> grows (State_Monad.bind m f)"
  unfolding grows_def run_state_bind split_beta by blast

lemma grows_modify: "(\<And>s. sh_log (f s) = sh_log s) \<Longrightarrow> grows (modify f)"
  by (simp add: grows_def)

lemma grows_if [grows_rules]: "grows m \<Longrightarrow> grows n \<Longrightarrow> grows (if b then m else n)"
  by simp

lemma grows_option [grows_rules]:
  "grows m \<Longrightarrow> (\<And>x. grows (f x)) \<Longrightarrow> grows (case v of None \<Rightarrow> m | Some x \<Rightarrow> f x)"
  by (simp split: option.split)

lemma grows_store [grows_rules]: "grows (pddb_write E d k v)" "grows (persist_delivery_updates E p us)"
  by (auto simp: pddb_write_def persist_delivery_updates_def Let_def intro!: grows_rules grows_modify)

lemma grows_mark [grows_rules]: "grows (defer_mark E p ts b st)" "grows (update_mark E p ts b st)"
  by (auto simp: update_mark_def defer_mark_def post_update_def Let_def intro!: grows_rules grows_modify)

lemma grows_report [grows_rules]: "grows (report_failure E mw)"
  by (auto simp: report_failure_def Let_def split: prod.split intro!: grows_rules)

text \<open>A mark is posted to the chat.\<close>

definition posted :: "OutboundMsg \<Rightarrow> u8 \<Rightarrow> Effect" where
  "posted m status = PostUpdate SELF_AUTHOR (om_display_ts m) (bubble_text (om_text m) (status_mark status))"

lemma update_mark_posts:
  assumes "run_state (update_mark E (om_peer m) (om_display_ts m) (om_text m) st) s = (u, s')"
  shows "posted m st \<in> set (sh_log s')"
proof -
  let ?rest = "\<lambda>found. if found then emit DialogueSave
      else defer_mark E (om_peer m) (om_display_ts m) (om_text m) st"
  obtain f s1 where p: "run_state (post_update E SELF_AUTHOR (om_display_ts m) (bubble_text (om_text m) (status_mark st))) s = (f, s1)"
    by fastforce
  have "posted m st \<in> set (sh_log s1)" using p by (auto simp: post_update_def emit_def ask_def posted_def)
  then show ?thesis
    by (rule growsD [rotated 2, where m = "?rest f"]) (use assms p in \<open>auto simp: update_mark_def intro!: grows_rules\<close>)
qed

lemma report_posts:
  assumes "run_state (report_failure E (m, why)) s = (u, s')"
  shows "posted m STATUS_FAILED \<in> set (sh_log s')"
  using assms update_mark_posts [of E m STATUS_FAILED]
  by (auto simp: report_failure_def peer_label_def emit_def Let_def split: prod.splits)

lemma each_report_posts:
  "(m, why) \<in> set failed \<Longrightarrow> run_state (each (report_failure E) failed) s = (u, s') \<Longrightarrow>
     posted m STATUS_FAILED \<in> set (sh_log s')"
proof (induction failed arbitrary: s)
  case (Cons x failed)
  obtain v s1 where r: "run_state (report_failure E x) s = (v, s1)" by (metis surj_pair)
  have rest: "run_state (each (report_failure E) failed) s1 = (u, s')" using Cons.prems(2) r by simp
  have "grows (each (report_failure E) failed)" by (induction failed) (auto intro!: grows_rules)
  with Cons r rest show ?case using report_posts growsD by (metis set_ConsD)
qed simp

section \<open>A pass over the queue\<close>

definition msg_key :: "OutboundMsg \<Rightarrow> bytes \<times> nat \<times> bytes \<times> bytes" where
  "msg_key m = (om_peer m, om_display_ts m, om_text m, om_packed m)"

lemma same_msg_key: "same_msg m m' \<Longrightarrow> msg_key m' = msg_key m"
  by (simp add: same_msg_def msg_key_def)

lemma passes_accounts:
  "passes E now ms kept failed \<Longrightarrow>
     mset (map msg_key ms) = mset (map msg_key kept) + mset (map (\<lambda>x. msg_key (fst x)) failed)"
  by (induction rule: passes.induct) (auto simp: survives_def fails_def same_msg_key)

lemma passes_ok: "passes E now ms kept failed \<Longrightarrow> list_all (om_ok E) kept"
  by (induction rule: passes.induct) (auto simp: survives_def)

lemma passes_from: "passes E now ms kept failed \<Longrightarrow> m' \<in> set kept \<Longrightarrow> \<exists>m\<in>set ms. survives E now m m'"
  by (induction rule: passes.induct) auto

lemma passes_failed_from: "passes E now ms kept failed \<Longrightarrow> (m', why) \<in> set failed \<Longrightarrow> \<exists>m\<in>set ms. fails E now m m'"
  by (induction rule: passes.induct) auto

lemma pump_outbox_passes:
  assumes ok: "list_all (om_ok E) (sh_outbox s)" and run: "run_state (pump_outbox E now) s = (r, s')"
  shows "r = Ok () \<and> (\<exists>failed. passes E now (sh_outbox s) (sh_outbox s') failed \<and>
    (\<forall>m why. (m, why) \<in> set failed \<longrightarrow> posted m STATUS_FAILED \<in> set (sh_log s')))"
proof -
  obtain kept failed crashed s1 where l: "pump_loop E now (sh_outbox s) s = ((kept, failed, crashed), s1)"
    by (metis prod.exhaust)
  from pump_loop_passes [OF ok l] have c: "\<not> crashed" and p: "passes E now (sh_outbox s) kept failed" by auto
  obtain u s2 where e: "run_state (each (report_failure E) failed) (s1\<lparr>sh_outbox := kept\<rparr>) = (u, s2)"
    by (metis surj_pair)
  have "frames sh_outbox (each (report_failure E) failed)" by (auto intro!: frames_rules)
  from framesD [OF this e] have "sh_outbox s2 = kept" by simp
  moreover have "r = Ok ()" "s' = s2" using run l c e by (simp_all add: pump_outbox_def)
  ultimately show ?thesis using p each_report_posts [OF _ e] by blast
qed

text \<open>
  C7. A pass of the delivery engine loses nothing. Every message of the queue is still in it after the
  pass, in its place, or is reported as failed: the failure mark is posted for it. The pass returns,
  without a panic, and leaves the queue's invariant in place. A message that waits for its stamp is not
  touched, and while a propagation node is configured a message fails only after it has been moved to the
  propagation path and has used up the time of that phase.\<close>

theorem pump_pass:
  assumes "list_all (om_ok E) (sh_outbox s)" "run_state (pump_outbox E now) s = (r, s')"
  shows "r = Ok () \<and> list_all (om_ok E) (sh_outbox s') \<and>
    (\<exists>failed. passes E now (sh_outbox s) (sh_outbox s') failed \<and>
       mset (map msg_key (sh_outbox s)) = mset (map msg_key (sh_outbox s')) + mset (map (\<lambda>x. msg_key (fst x)) failed) \<and>
       (\<forall>m why. (m, why) \<in> set failed \<longrightarrow> posted m STATUS_FAILED \<in> set (sh_log s') \<and>
          (ev_pn E \<noteq> None \<longrightarrow> (\<exists>m0\<in>set (sh_outbox s). msg_key m0 = msg_key m \<and> om_via_pn m0 \<and> om_deadline m0 < now))))"
proof -
  from pump_outbox_passes [OF assms] obtain failed where r: "r = Ok ()" and
    p: "passes E now (sh_outbox s) (sh_outbox s') failed" and
    l: "\<And>m why. (m, why) \<in> set failed \<Longrightarrow> posted m STATUS_FAILED \<in> set (sh_log s')" by blast
  have "\<exists>m0\<in>set (sh_outbox s). msg_key m0 = msg_key m \<and> om_via_pn m0 \<and> om_deadline m0 < now"
    if "(m, why) \<in> set failed" "ev_pn E \<noteq> None" for m why
    using passes_failed_from [OF p that(1)] that(2) same_msg_key by (fastforce simp: fails_def)
  with r p l show ?thesis using passes_ok [OF p] passes_accounts [OF p] by blast
qed

text \<open>A queue with one message, which has been on the direct path since time 0.\<close>

definition demo_msg :: OutboundMsg where
  "demo_msg = \<lparr>om_peer = replicate 16 7, om_display_ts = 5, om_text = ascii ''hi'',
     om_packed = packed (pack demo (demo_identity 1) (replicate 16 7) (replicate 16 1) 0 [0x68] [0x69] [] None),
     om_needs_stamp = None, om_stamped = False, om_via_pn = False, om_tried_pn = False,
     om_in_flight = None, om_attempts = 0, om_route_tries = 0, om_link_tries = 0, om_direct_rounds = 0,
     om_awaiting_key = False, om_pn_blob = None, om_next_action = 0, om_created = 0,
     om_deadline = DIRECT_DEADLINE\<rparr>"

definition demo_queue :: Shared where
  "demo_queue = demo_shared\<lparr>sh_outbox := [demo_msg]\<rparr>"

lemma demo_queue_ok: "list_all (om_ok demo_env) (sh_outbox demo_queue)"
  by (simp add: demo_queue_def demo_msg_def om_ok_def)

theorem pump_pass_witness:
  "\<exists>s' failed. run_state (pump_outbox demo_env (DIRECT_DEADLINE + 1)) demo_queue = (Ok (), s') \<and>
     passes demo_env (DIRECT_DEADLINE + 1) [demo_msg] (sh_outbox s') failed \<and>
     {#msg_key demo_msg#} = mset (map msg_key (sh_outbox s')) + mset (map (\<lambda>x. msg_key (fst x)) failed)"
proof -
  obtain r s' where run: "run_state (pump_outbox demo_env (DIRECT_DEADLINE + 1)) demo_queue = (r, s')" by fastforce
  from pump_pass [OF demo_queue_ok run] run show ?thesis by (auto simp: demo_queue_def)
qed

section \<open>Every reachable queue\<close>

text \<open>
  The engine's operations, in any order and at any times. Between two of them anything else of the
  shared state may change (\<open>elsewhere\<close>); the user may clear a conversation (\<open>cleared\<close>).
\<close>

inductive engine :: "env \<Rightarrow> Shared \<Rightarrow> bool" for E where
  start: "sh_outbox s = [] \<Longrightarrow> engine E s"
| elsewhere: "engine E s \<Longrightarrow> sh_outbox s' = sh_outbox s \<Longrightarrow> engine E s'"
| queued: "engine E s \<Longrightarrow> engine E (snd (run_state (enqueue_outbound now p ts body pkd needs st) s))"
| pumped: "engine E s \<Longrightarrow> engine E (snd (run_state (pump_outbox E now) s))"
| delivered: "engine E s \<Longrightarrow> engine E (snd (run_state (mark_delivered E h) s))"
| stamped: "engine E s \<Longrightarrow> engine E (snd (run_state (compute_pending_delivery_stamp E now) s))"
| blob: "engine E s \<Longrightarrow> engine E (snd (run_state (compute_pending_pn_blob E now) s))"
| released: "engine E s \<Longrightarrow> engine E (snd (run_state (release_waiting dest cost) s))"
| cleared: "engine E s \<Longrightarrow> engine E (s\<lparr>sh_outbox := filter (\<lambda>m. om_peer m \<noteq> addr) (sh_outbox s)\<rparr>)"

lemma remove_first_subset: "set (remove_first P xs) \<subseteq> set xs"
  by (induction xs) auto

lemma remove_first_none: "find P xs = None \<Longrightarrow> remove_first P xs = xs"
  by (induction xs) (auto split: if_splits)

lemma set_update_first: "x \<in> set (update_first P f xs) \<Longrightarrow> x \<in> set xs \<or> (\<exists>y\<in>set xs. P y \<and> x = f y)"
  by (induction xs) (auto split: if_splits)

lemma mark_delivered_outbox:
  "sh_outbox (snd (run_state (mark_delivered E h) s)) = remove_first (\<lambda>m. om_in_flight m = Some h) (sh_outbox s)"
proof (cases "find (\<lambda>m. om_in_flight m = Some h) (sh_outbox s)")
  case None
  then show ?thesis by (simp add: mark_delivered_def remove_first_none)
next
  case (Some m)
  let ?s = "s\<lparr>sh_outbox := remove_first (\<lambda>m. om_in_flight m = Some h) (sh_outbox s)\<rparr>"
  have "frames sh_outbox (do { label \<leftarrow> peer_label (om_peer m); emit (F label);
      update_mark E (om_peer m) (om_display_ts m) (om_text m) st })" for F st
    by (auto intro!: frames_rules)
  then show ?thesis using Some by (simp add: mark_delivered_def Let_def frames_def)
qed

text \<open>A program that leaves the queue alone keeps what holds of it.\<close>

lemma ensures_frames: "frames sh_outbox m \<Longrightarrow> ensures (\<lambda>s. P (sh_outbox s)) m (\<lambda>_. True)"
  by (simp add: ensures_def frames_def)

lemma ensures_skip: "frames sh_outbox m \<Longrightarrow> (\<And>a. ensures (\<lambda>s. P (sh_outbox s)) (f a) Q) \<Longrightarrow>
    ensures (\<lambda>s. P (sh_outbox s)) (State_Monad.bind m f) Q"
  by (rule ensures_bind [OF ensures_frames])

lemma frames_outbox_say [frames_rules]: "frames sh_outbox (say l w)" "frames sh_outbox (fill_random E n)"
  by (simp_all add: frames_def say_def emit_def fill_random_def Let_def)

lemma fail_stamp_ok: "ensures (\<lambda>s. list_all (om_ok E) (sh_outbox s)) (fail_stamp E m why) (\<lambda>_. True)"
  unfolding fail_stamp_def
  by (rule ensures_bind [OF ensures_modify [where Q = "\<lambda>_. True"]])
    (auto simp: list_all_iff intro!: ensures_frames [where P = "list_all (om_ok E)", simplified list_all_iff] frames_rules)

lemma store_stamped_ok: "ensures (\<lambda>s. list_all (om_ok E) (sh_outbox s)) (store_stamped now m label pkd) (\<lambda>_. True)"
proof -
  have "list_all (om_ok E) (update_first P
      (\<lambda>x. x\<lparr>om_packed := pkd, om_needs_stamp := None, om_created := now, om_deadline := now + DIRECT_DEADLINE\<rparr>) ob)"
    if "list_all (om_ok E) ob" for ob P
    using that by (fastforce simp: list_all_iff om_ok_def dest!: set_update_first)
  then show ?thesis
    by (auto simp: ensures_def store_stamped_def emit_def)
qed

lemma delivery_stamp_ok:
  "ensures (\<lambda>s. list_all (om_ok E) (sh_outbox s)) (compute_pending_delivery_stamp E now) (\<lambda>_. True)"
  unfolding compute_pending_delivery_stamp_def Let_def
  by (intro ensures_skip ensures_option ensures_if ensures_return fail_stamp_ok frames_rules TrueI)
    (auto split: outcome.split option.split intro!: fail_stamp_ok store_stamped_ok ensures_return)

lemma pn_blob_ok: "ensures (\<lambda>s. list_all (om_ok E) (sh_outbox s)) (compute_pending_pn_blob E now) (\<lambda>_. True)"
proof -
  have "ensures (\<lambda>s. list_all (om_ok E) (sh_outbox s))
      (modify (\<lambda>s. s\<lparr>sh_outbox := update_first P (\<lambda>x. x\<lparr>om_pn_blob := Some b\<rparr>) (sh_outbox s)\<rparr>)) (\<lambda>_. True)" for P b
    by (rule ensures_modify) (fastforce simp: list_all_iff om_ok_def dest!: set_update_first)+
  then show ?thesis
    unfolding compute_pending_pn_blob_def
    by (intro ensures_skip ensures_option ensures_if ensures_return ensures_bind [where R = "\<lambda>_. True"] frames_rules TrueI)
      (auto intro!: ensures_return)
qed

lemma release_ok: "om_ok E m \<Longrightarrow> om_in_flight m = None \<Longrightarrow> om_ok E (release cost m)"
  by (auto simp: release_def om_ok_def)

lemma engine_ok: "engine E s \<Longrightarrow> list_all (om_ok E) (sh_outbox s)"
proof (induction rule: engine.induct)
  case (queued s now p ts body pkd needs st)
  then show ?case by (simp add: enqueue_outbound_def om_ok_def)
next
  case (pumped s now)
  obtain r s' where "run_state (pump_outbox E now) s = (r, s')" by fastforce
  with pump_outbox_passes [OF pumped.IH] passes_ok show ?case by fastforce
next
  case (delivered s h)
  then show ?case
    using remove_first_subset [of "\<lambda>m. om_in_flight m = Some h" "sh_outbox s"]
    by (auto simp: mark_delivered_outbox list_all_iff)
next
  case (released s dest cost)
  then show ?case by (auto simp: release_waiting_def list_all_iff waits_for_def release_ok)
next
  case (stamped s now)
  with delivery_stamp_ok [of E now] show ?case unfolding ensures_def by blast
next
  case (blob s now)
  with pn_blob_ok [of E now] show ?case unfolding ensures_def by blast
qed (auto simp: list_all_iff)

text \<open>
  C10. In every reachable state of the engine, for every queued message: at most five transmissions have
  been made on the direct path and at most one new round of route discovery; a message on the
  propagation path has a node to go to, and only such a message has been sent to it; a message that
  waits for its stamp has not been sent. Hence a pass in such a state never panics on \<open>pn.unwrap()\<close>.\<close>

theorem engine_invariant:
  assumes "engine E s"
  shows "(\<forall>m. m \<in> set (sh_outbox s) \<longrightarrow> om_attempts m \<le> MAX_ATTEMPTS \<and> om_direct_rounds m \<le> MAX_DIRECT_ROUNDS \<and>
      (om_via_pn m \<longrightarrow> ev_pn E \<noteq> None) \<and> (om_tried_pn m \<longrightarrow> om_via_pn m) \<and>
      (om_needs_stamp m \<noteq> None \<longrightarrow> om_in_flight m = None)) \<and>
    fst (run_state (pump_outbox E now) s) = Ok ()"
proof -
  have ok: "list_all (om_ok E) (sh_outbox s)" by (rule engine_ok [OF assms])
  obtain r s' where run: "run_state (pump_outbox E now) s = (r, s')" by fastforce
  from ok show ?thesis using pump_outbox_passes [OF ok run] run by (auto simp: list_all_iff om_ok_def)
qed

definition demo_enqueued :: Shared where
  "demo_enqueued = snd (run_state (enqueue_outbound 0 (replicate 16 7) 5 (ascii ''hi'') (om_packed demo_msg) None False) demo_shared)"

lemma demo_enqueued: "engine demo_env demo_enqueued" "sh_outbox demo_enqueued = [demo_msg]"
proof -
  have "sh_outbox demo_shared = []" by (simp add: demo_shared_def Shared_new_def)
  then show "engine demo_env demo_enqueued" "sh_outbox demo_enqueued = [demo_msg]"
    by (simp_all add: demo_enqueued_def engine.queued engine.start) (simp add: enqueue_outbound_def demo_msg_def)
qed

theorem engine_invariant_witness:
  "sh_outbox demo_enqueued = [demo_msg] \<and> fst (run_state (pump_outbox demo_env 3) demo_enqueued) = Ok () \<and>
   om_attempts demo_msg \<le> MAX_ATTEMPTS"
  using engine_invariant [OF demo_enqueued(1), of 3] demo_enqueued(2) by simp

section \<open>Every message is settled in time\<close>

text \<open>
  What may happen between two passes to the messages of one key: other passes, delivery, messages queued
  under another key, the computation of blobs, an announce without a stamp cost, and anything outside
  the queue.
\<close>

inductive driven :: "env \<Rightarrow> bytes \<Rightarrow> nat \<Rightarrow> Shared \<Rightarrow> Shared \<Rightarrow> bool" for E peer ts s where
  start: "driven E peer ts s s"
| elsewhere: "driven E peer ts s s1 \<Longrightarrow> sh_outbox s2 = sh_outbox s1 \<Longrightarrow> driven E peer ts s s2"
| pumped: "driven E peer ts s s1 \<Longrightarrow> driven E peer ts s (snd (run_state (pump_outbox E now) s1))"
| delivered: "driven E peer ts s s1 \<Longrightarrow> driven E peer ts s (snd (run_state (mark_delivered E h) s1))"
| queued: "driven E peer ts s s1 \<Longrightarrow> (p, t) \<noteq> (peer, ts) \<Longrightarrow>
    driven E peer ts s (snd (run_state (enqueue_outbound now p t body pkd needs st) s1))"
| blob: "driven E peer ts s s1 \<Longrightarrow> driven E peer ts s (snd (run_state (compute_pending_pn_blob E now) s1))"
| released: "driven E peer ts s s1 \<Longrightarrow> driven E peer ts s (snd (run_state (release_waiting dest None) s1))"

text \<open>Every message of the key is on the propagation path, with a deadline no later than \<open>d\<close>.\<close>

definition final_phase :: "env \<Rightarrow> bytes \<Rightarrow> nat \<Rightarrow> nat \<Rightarrow> OutboundMsg list \<Rightarrow> bool" where
  "final_phase E peer ts d ms \<longleftrightarrow> list_all (om_ok E) ms \<and>
     (\<forall>m\<in>set ms. is_entry peer ts m \<longrightarrow> om_needs_stamp m = None \<and> om_via_pn m \<and> om_deadline m \<le> d)"

lemma same_msg_entry: "same_msg m m' \<Longrightarrow> is_entry p t m' = is_entry p t m \<and> om_needs_stamp m' = om_needs_stamp m"
  by (simp add: same_msg_def is_entry_def)

lemma final_phase_passes:
  assumes "final_phase E peer ts d ms" "passes E now ms kept failed"
  shows "final_phase E peer ts d kept"
  unfolding final_phase_def
proof (intro conjI ballI impI passes_ok [OF assms(2)])
  fix m' assume m': "m' \<in> set kept" "is_entry peer ts m'"
  from passes_from [OF assms(2) m'(1)] obtain m where m: "m \<in> set ms" "survives E now m m'" by blast
  then have "same_msg m m'" by (simp add: survives_def)
  from same_msg_entry [OF this] m'(2) assms(1) m(1)
  have "is_entry peer ts m" "om_needs_stamp m' = None" "om_via_pn m" "om_deadline m \<le> d"
    by (auto simp: final_phase_def)
  with m(2) show "om_needs_stamp m' = None" "om_via_pn m'" "om_deadline m' \<le> d" by (auto simp: survives_def)
qed

lemma final_phase_blob:
  "ensures (\<lambda>s. final_phase E peer ts d (sh_outbox s)) (compute_pending_pn_blob E now) (\<lambda>_. True)"
proof -
  have "ensures (\<lambda>s. final_phase E peer ts d (sh_outbox s))
      (modify (\<lambda>s. s\<lparr>sh_outbox := update_first P (\<lambda>x. x\<lparr>om_pn_blob := Some b\<rparr>) (sh_outbox s)\<rparr>)) (\<lambda>_. True)" for P b
    by (rule ensures_modify) (fastforce simp: final_phase_def is_entry_def list_all_iff om_ok_def dest!: set_update_first)+
  then show ?thesis
    unfolding compute_pending_pn_blob_def
    by (intro ensures_skip ensures_option ensures_if ensures_return ensures_bind [where R = "\<lambda>_. True"] frames_rules TrueI)
      (auto intro!: ensures_return)
qed

lemma release_none:
  "om_needs_stamp (release None m) = om_needs_stamp m" "om_via_pn (release None m) = om_via_pn m"
  "om_deadline (release None m) = om_deadline m" "is_entry p t (release None m) = is_entry p t m"
  by (simp_all add: release_def is_entry_def)

lemma driven_final_phase:
  "driven E peer ts s s' \<Longrightarrow> final_phase E peer ts d (sh_outbox s) \<Longrightarrow> final_phase E peer ts d (sh_outbox s')"
proof (induction rule: driven.induct)
  case (pumped s1 now)
  obtain r s' where run: "run_state (pump_outbox E now) s1 = (r, s')" by fastforce
  note f = pumped.IH [OF pumped.prems]
  then have "list_all (om_ok E) (sh_outbox s1)" unfolding final_phase_def by blast
  from pump_outbox_passes [OF this run] obtain failed where "passes E now (sh_outbox s1) (sh_outbox s') failed" by blast
  from final_phase_passes [OF f this] show ?case using run by simp
next
  case (delivered s1 h)
  from delivered.IH [OF delivered.prems] show ?case
    using remove_first_subset [of "\<lambda>m. om_in_flight m = Some h" "sh_outbox s1"]
    unfolding mark_delivered_outbox final_phase_def list_all_iff by blast
next
  case (queued s1 p t now body pkd needs st)
  from queued.IH [OF queued.prems] queued.hyps(2) show ?case
    by (simp add: enqueue_outbound_def final_phase_def is_entry_def om_ok_def)
next
  case (blob s1 now)
  from blob.IH [OF blob.prems] final_phase_blob [of E peer ts d now] show ?case unfolding ensures_def by blast
next
  case (released s1 dest)
  have "final_phase E peer ts d (map (\<lambda>m. if waits_for dest m then release None m else m) ms)"
    if "final_phase E peer ts d ms" for ms
    using that by (auto simp: final_phase_def list_all_iff waits_for_def release_ok release_none)
  from this [OF released.IH [OF released.prems]] show ?case by (simp add: release_waiting_def)
next
  case (elsewhere s1 s2)
  then show ?case by metis
qed simp_all



section \<open>A message that is stamped twice\<close>

lemma fail_stamp_run:
  assumes "run_state (fail_stamp E m why) s = (r, s')" "sh_outbox s = [x]" "same_msg x m \<or> is_entry (om_peer m) (om_display_ts m) x"
  shows "r = Ok False \<and> sh_outbox s' = [] \<and> posted m STATUS_FAILED \<in> set (sh_log s')"
proof -
  let ?s = "s\<lparr>sh_outbox := filter (\<lambda>x. \<not> is_entry (om_peer m) (om_display_ts m) x) (sh_outbox s)\<rparr>"
  obtain u s1 where u: "run_state (update_mark E (om_peer m) (om_display_ts m) (om_text m) STATUS_FAILED) ?s = (u, s1)"
    by (metis surj_pair)
  have "is_entry (om_peer m) (om_display_ts m) x" using assms(3) by (auto simp: same_msg_def is_entry_def)
  then have "sh_outbox s1 = []" using framesD [OF frames_outbox_mark(2) u] assms(2) by simp
  moreover have "posted m STATUS_FAILED \<in> set (sh_log s1)" by (rule update_mark_posts [OF u])
  moreover have "r = Ok False" "s' = s1\<lparr>sh_log := sh_log s1 @ [IdleText why, StatusText why]\<rparr>"
    using assms(1) u by (simp_all add: fail_stamp_def emit_def)
  ultimately show ?thesis by simp
qed

text \<open>The job the stamp thread takes, with one message in the queue.\<close>

lemma delivery_stamp_run:
  assumes "sh_outbox s = [m]" "om_needs_stamp m = Some c"
    and run: "run_state (compute_pending_delivery_stamp E now) s = (r, s')"
    and pk: "length (om_packed m) \<ge> 96"
    and ap: "\<And>st. length st = 32 \<Longrightarrow> append_stamp (ev_width E) (om_packed m) st = Ok (F st)" and C: "sized (ev_crypto E)"
  shows "r = OutOfFuel \<or> r = Ok False \<and> sh_outbox s' = [] \<and> posted m STATUS_FAILED \<in> set (sh_log s') \<or>
    r = Ok True \<and> (\<exists>st pkd. length st = 32 \<and> F st = Some pkd \<and> sh_outbox s' =
      [m\<lparr>om_packed := pkd, om_needs_stamp := None, om_created := now, om_deadline := now + DIRECT_DEADLINE\<rparr>])"
proof -
  define mid where "mid = full_hash (ev_crypto E) (take 32 (om_packed m) @ drop 96 (om_packed m))"
  define label where "label = label_of s (om_peer m)"
  define s0 where "s0 = s\<lparr>sh_log := sh_log s @
      [StatusText (ascii ''computing stamp for '' @ label @ ascii '' (cost '' @ dec c @ ascii '')'' @ ellipsis)]\<rparr>"
  have fe: "find (\<lambda>m. om_needs_stamp m \<noteq> None) (sh_outbox s) = Some m" using assms(1,2) by simp
  have ob: "sh_outbox s0 = [m]" by (simp add: s0_def assms(1))
  show ?thesis
  proof (cases "c > 20")
    case True
    then have "run_state (fail_stamp E m (MARK_FAILED @ ascii '' '' @ label @ ascii '': stamp cost '' @ dec c @
        ascii '' is too high'')) s = (r, s')"
      using run fe assms(2) by (simp add: compute_pending_delivery_stamp_def peer_label_def label_def)
    from fail_stamp_run [OF this assms(1)] show ?thesis by simp
  next
    case False
    show ?thesis
    proof (cases "generate_stamp (ev_crypto E) mid c WORKBLOCK_EXPAND_ROUNDS_DELIVERY")
      case None
      then show ?thesis
        using run fe assms(2) False pk
        by (simp add: compute_pending_delivery_stamp_def peer_label_def mid_def Let_def emit_def)
    next
      case (Some st)
      then have l: "length st = 32" using generate_stamp_Some [OF C] by blast
      show ?thesis
      proof (cases "F st")
        case None
        then have "run_state (fail_stamp E m (MARK_FAILED @ ascii '' '' @ label @ ascii '': could not stamp message'')) s0 = (r, s')"
          using run fe assms(2) False pk Some ap [OF l]
          by (simp add: compute_pending_delivery_stamp_def peer_label_def label_def mid_def Let_def emit_def s0_def)
        from fail_stamp_run [OF this ob] show ?thesis by simp
      next
        case (Some pkd)
        then have "run_state (store_stamped now m label pkd) s0 = (r, s')"
          using run fe assms(2) False pk ap [OF l] \<open>generate_stamp _ _ _ _ = Some st\<close>
          by (simp add: compute_pending_delivery_stamp_def peer_label_def label_def mid_def Let_def emit_def s0_def)
        then show ?thesis using ob l Some by (auto simp: store_stamped_def is_entry_def emit_def)
      qed
    qed
  qed
qed

text \<open>
  C14. A second announce loses the message. Mining a delivery stamp does not set \<open>stamped\<close>, so an announce
  of the peer that arrives before the first transmission asks for a stamp again, and the second attempt
  to append one fails: for a message of our own, stamped by proof of work and not sent yet, the next run
  of the stamp thread removes it from the queue and marks it as failed (unless mining does not end). The
  comment at that branch says that it cannot happen.\<close>

theorem second_announce_fails_message:
  assumes "sized (ev_crypto E)" "identity_ok (ev_crypto E) i" "length d = 16" "length src = 16"
    and "message_ok (ev_width E) ts ti co fi"
    and "sh_outbox s = [m]" "om_packed m = packed (pack (ev_crypto E) i d src ts ti co fi None)"
    and "om_needs_stamp m = Some c" "\<not> om_stamped m" "om_attempts m = 0" "om_in_flight m = None"
    and "run_state (compute_pending_delivery_stamp E now) s = (Ok True, s1)"
    and "run_state (release_waiting (om_peer m) (Some c')) s1 = (w, s2)"
    and "run_state (compute_pending_delivery_stamp E now') s2 = (r, s3)"
  shows "r = OutOfFuel \<or> r = Ok False \<and> sh_outbox s3 = [] \<and> posted m STATUS_FAILED \<in> set (sh_log s3)"
proof -
  let ?C = "ev_crypto E" and ?W = "ev_width E" and ?v = "payload_values ts ti co fi"
  define h where "h = hashed_part d src ts ti co fi"
  define sg where "sg = sign ?C i (h @ full_hash ?C h)"
  have sg: "length sg = 64" using assms(1) by (simp add: sg_def lens)
  have pk: "om_packed m = stamped d src sg ?v" using assms(7) by (simp add: pack_eq h_def sg_def)
  note ok = message_ok_stamped [OF assms(5)]
  have len: "96 \<le> length (stamped d src sg vs)" for vs using assms(3,4) sg by (simp add: stamped_def)
  have a1: "append_stamp ?W (om_packed m) st = Ok (Some (stamped d src sg (?v @ [VBin st])))" if "length st = 32" for st
    using append_stamp_stamped [OF assms(3,4) sg ok(3,4) [of "[]"]] that pk by simp
  from delivery_stamp_run [OF assms(6,8,12) _ a1 assms(1)] pk len obtain st where st: "length st = 32"
    and ob1: "sh_outbox s1 = [m\<lparr>om_packed := stamped d src sg (?v @ [VBin st]), om_needs_stamp := None,
      om_created := now, om_deadline := now + DIRECT_DEADLINE\<rparr>]" by auto
  define m2 where "m2 = m\<lparr>om_packed := stamped d src sg (?v @ [VBin st]), om_needs_stamp := Some c',
      om_created := now, om_deadline := now + DIRECT_DEADLINE, om_next_action := 0\<rparr>"
  have ob2: "sh_outbox s2 = [m2]"
    using assms(9-11,13) ob1 by (auto simp: release_waiting_def waits_for_def release_def m2_def)
  have a2: "append_stamp ?W (om_packed m2) st' = Ok None" if "length st' = 32" for st'
    using append_stamp_stamped [OF assms(3,4) sg ok(1,2) [of st]] st by (simp add: m2_def)
  have "om_needs_stamp m2 = Some c'" by (simp add: m2_def)
  from delivery_stamp_run [OF ob2 this assms(14) _ a2 assms(1)] len
  have "r = OutOfFuel \<or> r = Ok False \<and> sh_outbox s3 = [] \<and> posted m2 STATUS_FAILED \<in> set (sh_log s3)"
    by (simp add: m2_def)
  moreover have "posted m2 STATUS_FAILED = posted m STATUS_FAILED" by (simp add: posted_def m2_def)
  ultimately show ?thesis by simp
qed

lemma delivery_stamp_succeeds:
  assumes "sh_outbox s = [m]" "om_needs_stamp m = Some 0" "length (om_packed m) \<ge> 96"
    and "\<And>st. length st = 32 \<Longrightarrow> append_stamp (ev_width E) (om_packed m) st = Ok (Some (F st))" and C: "sized (ev_crypto E)"
  shows "\<exists>s'. run_state (compute_pending_delivery_stamp E now) s = (Ok True, s')"
proof -
  define mid where "mid = full_hash (ev_crypto E) (take 32 (om_packed m) @ drop 96 (om_packed m))"
  obtain st where st: "generate_stamp (ev_crypto E) mid 0 WORKBLOCK_EXPAND_ROUNDS_DELIVERY = Some st"
    by (simp add: generate_stamp_def mine.simps stamp_found_def)
  then have "length st = 32" using generate_stamp_Some [OF C] by blast
  with st assms show ?thesis
    by (simp add: compute_pending_delivery_stamp_def peer_label_def mid_def Let_def emit_def store_stamped_def is_entry_def)
qed

theorem second_announce_fails_message_witness:
  "\<exists>s1 s2 s3 w r. run_state (compute_pending_delivery_stamp demo_env 1)
       (demo_shared\<lparr>sh_outbox := [demo_msg\<lparr>om_needs_stamp := Some 0\<rparr>]\<rparr>) = (Ok True, s1) \<and>
     run_state (release_waiting (replicate 16 7) (Some 0)) s1 = (w, s2) \<and>
     run_state (compute_pending_delivery_stamp demo_env 2) s2 = (r, s3) \<and> (r = OutOfFuel \<or> sh_outbox s3 = [])"
proof -
  let ?m = "demo_msg\<lparr>om_needs_stamp := Some 0\<rparr>" let ?s = "demo_shared\<lparr>sh_outbox := [?m]\<rparr>"
  have ok: "message_ok 32 0 [0x68] [0x69] []"
    by (simp add: message_ok_def bt_wf_def pack_payload_def mp_encode_def array_header_def bin_header_def map_header_def)
  have id: "identity_ok demo (demo_identity 1)" by (simp add: demo_identity_def)
  note st = message_ok_stamped [OF ok]
  define h where "h = hashed_part (replicate 16 7) (replicate 16 1) 0 [0x68] [0x69] []"
  define sg where "sg = sign demo (demo_identity 1) (h @ full_hash demo h)"
  have sg: "length sg = 64" using demo_sized by (simp add: sg_def lens)
  have pk: "om_packed demo_msg = stamped (replicate 16 7) (replicate 16 1) sg (payload_values 0 [0x68] [0x69] [])"
    by (simp add: demo_msg_def pack_eq h_def sg_def)
  have "\<exists>s1. run_state (compute_pending_delivery_stamp demo_env 1) ?s = (Ok True, s1)"
    by (rule delivery_stamp_succeeds [where m = ?m and F = "\<lambda>st. stamped (replicate 16 7) (replicate 16 1) sg (payload_values 0 [0x68] [0x69] [] @ [VBin st])"])
      (use append_stamp_stamped [OF _ _ sg st(3,4) [of "[]"], of "replicate 16 7" "replicate 16 1"] pk sg demo_sized in
        \<open>simp_all add: demo_env_def stamped_def\<close>)
  then obtain s1 where r1: "run_state (compute_pending_delivery_stamp demo_env 1) ?s = (Ok True, s1)" by blast
  obtain w s2 where r2: "run_state (release_waiting (replicate 16 7) (Some 0)) s1 = (w, s2)" by (metis surj_pair)
  obtain r s3 where r3: "run_state (compute_pending_delivery_stamp demo_env 2) s2 = (r, s3)" by (metis surj_pair)
  have "r = OutOfFuel \<or> sh_outbox s3 = []"
    using second_announce_fails_message [of demo_env "demo_identity 1" "replicate 16 7" "replicate 16 1" 0 "[0x68]" "[0x69]" "[]" ?s ?m 0 1 s1 0 w s2 2 r s3]
      demo_sized id ok r1 r2 r3 by (auto simp: demo_env_def demo_msg_def)
  with r1 r2 r3 show ?thesis by blast
qed

section \<open>A message over a live link\<close>

lemma frames_hub: "frames sh_transport (hub_write E raw)"
  by (auto simp: frames_def hub_write_def ask_def emit_def note_disconnect_def Let_def split: hub_answer.split option.split)

lemma frames_udp_all: "frames sh_transport (udp_all E raw as any)"
  by (induction E raw "as" any rule: udp_all.induct) (auto simp: frames_def ask_def emit_def split: prod.split)

lemma frames_broadcast: "frames sh_transport (broadcast_out E raw)"
  unfolding broadcast_out_def send_to_peers_def
  by (auto intro!: frames_rules frames_hub frames_udp_all) (simp add: frames_def ask_def)

lemma grows_udp_all: "grows (udp_all E raw as any)"
  by (induction E raw "as" any rule: udp_all.induct) (auto intro!: grows_rules)

lemma broadcast_hub:
  assumes "run_state (broadcast_out E raw) s = (ok, s')" "sh_writer s" "ev_hub E (sh_asked s) = HubWritten"
  shows "ok" "HubWrite (frame raw) \<in> set (sh_log s')"
proof -
  let ?s = "s\<lparr>sh_asked := Suc (sh_asked s), sh_log := sh_log s @ [HubWrite (frame raw)]\<rparr>"
  have h: "run_state (hub_write E raw) s = (True, ?s)"
    using assms(2,3) by (simp add: hub_write_def ask_def emit_def)
  obtain a s1 where p: "run_state (send_to_peers E raw) ?s = (a, s1)" by fastforce
  have "grows (send_to_peers E raw)"
    unfolding send_to_peers_def by (auto intro!: grows_rules grows_udp_all)
  from growsD [OF this p] have "HubWrite (frame raw) \<in> set (sh_log s1)" by simp
  with assms(1) h p show "ok" "HubWrite (frame raw) \<in> set (sh_log s')" by (auto simp: broadcast_out_def)
qed

lemma length_fill_random:
  assumes "run_state (fill_random E n) s = (b, s')"
  shows "length b = n"
proof -
  have "length (concat (map f [0..<k])) = 4 * k" if "\<And>i. length (f i) = 4" for f :: "nat \<Rightarrow> bytes" and k
    using that by (induction k) simp_all
  then show ?thesis using assms by (auto simp: fill_random_def Let_def)
qed

text \<open>The iteration for a message that is due, when a link to its peer is up.\<close>

lemma pump_step_on_link:
  assumes "om_needs_stamp m = None" "now \<le> om_deadline m" "om_in_flight m = None" "om_next_action m \<le> now"
    "\<not> om_via_pn m" "length (om_packed m) \<le> LINK_PACKED_MAX"
    and link: "outbound_link_for (ev_order E) (om_peer m) now (sh_transport s) = (Some lid, t1)"
    and made: "\<And>iv. length iv = 16 \<Longrightarrow> \<exists>raw ph A. make_link_data (ev_crypto E) lid (om_packed m) iv t1 = (Some (raw, ph), A) \<and> Q raw ph A"
  shows "\<exists>raw ph s'. run_state (pump_step E now m) s =
      (Next (m\<lparr>om_in_flight := Some ph, om_attempts := om_attempts m + 1, om_next_action := now + DELIVERY_RETRY\<rparr>), s') \<and>
    Q raw ph (sh_transport s') \<and>
    (sh_writer s \<and> ev_hub E (sh_asked s) = HubWritten \<longrightarrow> HubWrite (frame raw) \<in> set (sh_log s'))"
proof -
  obtain iv s1 where iv: "run_state (fill_random E 16) (s\<lparr>sh_transport := t1\<rparr>) = (iv, s1)" by fastforce
  have s1: "sh_transport s1 = t1" "sh_writer s1 = sh_writer s" "sh_asked s1 = sh_asked s"
    using iv by (auto simp: fill_random_def Let_def)
  obtain raw ph A where mk: "make_link_data (ev_crypto E) lid (om_packed m) iv t1 = (Some (raw, ph), A)" "Q raw ph A"
    using made [OF length_fill_random [OF iv]] by blast
  obtain ok s2 where b: "run_state (broadcast_out E raw) (s1\<lparr>sh_transport := A\<rparr>) = (ok, s2)" by fastforce
  have "sh_transport s2 = A" using framesD [OF frames_broadcast b] by simp
  moreover have "HubWrite (frame raw) \<in> set (sh_log s2)" if "sh_writer s" "ev_hub E (sh_asked s) = HubWritten"
    using broadcast_hub(2) [OF b] that s1 by simp
  ultimately show ?thesis
    using assms(1-6) link iv mk b s1(1)
    by (intro exI [of _ raw] exI [of _ ph] exI [of _ "s2\<lparr>sh_log := sh_log s2 @
          [StatusText (send_status (label_of s (om_peer m)) (om_attempts m + 1))]\<rparr>"])
      (simp add: pump_step_def pump_send_def pump_direct_def send_on_link_def on_transport_def peer_label_def emit_def)
qed

text \<open>The receipt of the only entry takes it off the queue.\<close>

lemma mark_delivered_posts:
  assumes "run_state (mark_delivered E ph) s = (u, s')" "sh_outbox s = [m]" "om_in_flight m = Some ph" "\<not> om_via_pn m"
    and "posted m STATUS_DELIVERED = e"
  shows "sh_outbox s' = [] \<and> e \<in> set (sh_log s')"
proof -
  have "sh_outbox s' = remove_first (\<lambda>m. om_in_flight m = Some ph) (sh_outbox s)"
    using mark_delivered_outbox [of E ph s] assms(1) by simp
  moreover obtain s0 where "run_state (update_mark E (om_peer m) (om_display_ts m) (om_text m) STATUS_DELIVERED) s0 = (u, s')"
    using assms(1-4) by (auto simp: mark_delivered_def peer_label_def emit_def)
  from update_mark_posts [OF this] have "posted m STATUS_DELIVERED \<in> set (sh_log s')" by (simp add: posted_def)
  ultimately show ?thesis using assms(2,3,5) by simp
qed

lemma pumped_delivery:
  assumes C: "sized (ev_crypto E)" "aes_inverts (ev_crypto E)" "signs (ev_crypto E)" "visits_all (ev_order E)"
    and A: "transport_ok (ev_crypto E) (sh_transport s)" and B: "transport_ok (ev_crypto E) B"
    and m: "sh_outbox s = [m]" "om_needs_stamp m = None" "now \<le> om_deadline m" "om_in_flight m = None"
      "om_next_action m \<le> now" "\<not> om_via_pn m" "length (om_packed m) \<le> LINK_PACKED_MAX"
    and up: "fst (outbound_link_for (ev_order E) (om_peer m) now (sh_transport s)) = Some lid"
      "linked (ev_crypto E) lid (sh_transport s) B"
    and run: "run_state (pump_outbox E now) s = (r, s1)"
  shows "\<exists>raw ph. r = Ok () \<and> map om_in_flight (sh_outbox s1) = [Some ph] \<and>
    (sh_writer s \<and> ev_hub E (sh_asked s) = HubWritten \<longrightarrow> HubWrite (frame raw) \<in> set (sh_log s1)) \<and>
    in_flight raw raw \<and> (\<forall>raw'. in_flight raw raw' \<longrightarrow>
      (\<exists>rcpt. handle_frame (ev_crypto E) ordB ephB ifB raw' B = (LinkData lid (om_packed m) rcpt, B) \<and>
        (\<forall>rcpt'. in_flight rcpt rcpt' \<longrightarrow>
          fst (handle_frame (ev_crypto E) ordA ephA ifA rcpt' (sh_transport s1)) = Delivered ph))) \<and>
    (\<forall>s2 s3. sh_outbox s2 = sh_outbox s1 \<and> run_state (mark_delivered E ph) s2 = ((), s3) \<longrightarrow>
       sh_outbox s3 = [] \<and> posted m STATUS_DELIVERED \<in> set (sh_log s3))"
proof -
  let ?C = "ev_crypto E"
  obtain t1 where link: "outbound_link_for (ev_order E) (om_peer m) now (sh_transport s) = (Some lid, t1)"
    using up(1) by (metis prod.collapse)
  have t1: "transport_ok ?C t1" using outbound_link_for_ok [OF A] link by (metis snd_conv)
  have "hm_wf (out_links (sh_transport s))" using tables_ok(2) [OF A] by (simp add: table_ok_def)
  from outbound_link_for_spec [OF this C(4) link] up(2) obtain l st where
    l: "hm_get (out_links t1) lid = Some l" "ol_identity l = public (tr_identity B)" and
    st: "hm_get (links B) lid = Some st" "ls_key st = ol_key l" "hm_get (out_links B) lid = None"
    by (auto simp: linked_def)
  have Bid: "identity_ok ?C (tr_identity B)" using B by (simp add: transport_ok_def)
  define Q where "Q raw ph A \<longleftrightarrow> in_flight raw raw \<and> (\<forall>raw'. in_flight raw raw' \<longrightarrow>
      (\<exists>rcpt. handle_frame ?C ordB ephB ifB raw' B = (LinkData lid (om_packed m) rcpt, B) \<and>
        (\<forall>rcpt'. in_flight rcpt rcpt' \<longrightarrow> fst (handle_frame ?C ordA ephA ifA rcpt' A) = Delivered ph)))" for raw ph A
  have "\<exists>raw ph A. make_link_data ?C lid (om_packed m) iv t1 = (Some (raw, ph), A) \<and> Q raw ph A" if "length iv = 16" for iv
    using link_data_delivered [OF C(1-3) t1 Bid l st that, of "om_packed m" ordB ephB ifB ordA ephA ifA]
    unfolding Q_def by (metis fst_conv)
  from pump_step_on_link [where Q = Q, OF m(2-7) link this] obtain raw ph s' where
    step: "run_state (pump_step E now m) s =
      (Next (m\<lparr>om_in_flight := Some ph, om_attempts := om_attempts m + 1, om_next_action := now + DELIVERY_RETRY\<rparr>), s')"
    and q: "Q raw ph (sh_transport s')"
    and w: "sh_writer s \<and> ev_hub E (sh_asked s) = HubWritten \<longrightarrow> HubWrite (frame raw) \<in> set (sh_log s')" by blast
  from run step m(1) have s1: "r = Ok ()" "s1 = s'\<lparr>sh_outbox :=
      [m\<lparr>om_in_flight := Some ph, om_attempts := om_attempts m + 1, om_next_action := now + DELIVERY_RETRY\<rparr>]\<rparr>"
    by (simp_all add: pump_outbox_def)
  have "sh_outbox s3 = [] \<and> posted m STATUS_DELIVERED \<in> set (sh_log s3)"
    if "sh_outbox s2 = sh_outbox s1" "run_state (mark_delivered E ph) s2 = ((), s3)" for s2 s3
    by (rule mark_delivered_posts [OF that(2), where m = "m\<lparr>om_in_flight := Some ph, om_attempts := om_attempts m + 1,
        om_next_action := now + DELIVERY_RETRY\<rparr>"]) (use that(1) s1(2) m(6) in \<open>simp_all add: posted_def\<close>)
  then have "\<forall>s2 s3. sh_outbox s2 = sh_outbox s1 \<and> run_state (mark_delivered E ph) s2 = ((), s3) \<longrightarrow>
      sh_outbox s3 = [] \<and> posted m STATUS_DELIVERED \<in> set (sh_log s3)" by blast
  with s1 q w show ?thesis unfolding Q_def by - (rule exI [of _ raw], rule exI [of _ ph], simp)
qed

text \<open>
  C3. A queued message over a live link, end to end. The queue holds a message that is due and a link to
  its peer \<open>B\<close> is up. One pass of the engine transmits it on that link, to the hub if the connection takes
  it, and keeps it in flight. However the relays rewrite the packet's headers, \<open>B\<close> reads the packed message
  as it was queued and answers with a receipt; that receipt makes our node report the packet of this very
  entry, and the handler of that report takes the message off the queue and posts the delivered mark for
  it.\<close>

theorem pumped_message_delivered:
  assumes C: "sized (ev_crypto E)" "aes_inverts (ev_crypto E)" "signs (ev_crypto E)" "visits_all (ev_order E)"
    and A: "transport_ok (ev_crypto E) (sh_transport s)" and B: "transport_ok (ev_crypto E) B"
    and m: "sh_outbox s = [m]" "om_needs_stamp m = None" "now \<le> om_deadline m" "om_in_flight m = None"
      "om_next_action m \<le> now" "\<not> om_via_pn m" "length (om_packed m) \<le> LINK_PACKED_MAX"
    and up: "fst (outbound_link_for (ev_order E) (om_peer m) now (sh_transport s)) = Some lid"
      "linked (ev_crypto E) lid (sh_transport s) B"
    and run: "run_state (pump_outbox E now) s = (r, s1)"
  shows "\<exists>raw ph. r = Ok () \<and> map om_in_flight (sh_outbox s1) = [Some ph] \<and>
    (sh_writer s \<and> ev_hub E (sh_asked s) = HubWritten \<longrightarrow> HubWrite (frame raw) \<in> set (sh_log s1)) \<and>
    in_flight raw raw \<and> (\<forall>raw'. in_flight raw raw' \<longrightarrow>
      (\<exists>rcpt. handle_frame (ev_crypto E) ordB ephB ifB raw' B = (LinkData lid (om_packed m) rcpt, B) \<and>
        (\<forall>rcpt'. in_flight rcpt rcpt' \<longrightarrow>
          fst (handle_frame (ev_crypto E) ordA ephA ifA rcpt' (sh_transport s1)) = Delivered ph))) \<and>
    (\<forall>s2 s3. sh_outbox s2 = sh_outbox s1 \<and> run_state (mark_delivered E ph) s2 = ((), s3) \<longrightarrow>
       sh_outbox s3 = [] \<and> posted m STATUS_DELIVERED \<in> set (sh_log s3))"
  by (rule pumped_delivery [OF assms])

text \<open>Two nodes with one link, on which the message of the example is due.\<close>

lemma demo_link_up:
  "\<exists>lid A B. transport_ok demo A \<and> transport_ok demo B \<and> linked demo lid A B \<and>
     fst (outbound_link_for id (replicate 16 7) 0 A) = Some lid"
proof -
  from demo_linked obtain lid A B where AB: "transport_ok demo A" "transport_ok demo B" "linked demo lid A B" by blast
  then obtain l where l: "hm_get (out_links A) lid = Some l" by (auto simp: linked_def)
  let ?A = "A\<lparr>out_links := [(lid, l\<lparr>ol_target := replicate 16 7\<rparr>)], out_links_order := [lid]\<rparr>"
  have "out_link_ok lid l" using AB(1) l by (auto simp: transport_ok_def dest: table_allD)
  then have "transport_ok demo ?A"
    using AB(1) by (auto simp: transport_ok_def table_all_def table_ok_def out_link_ok_def hm_wf_def)
  moreover have "linked demo lid ?A B" using AB(3) l by (auto simp: linked_def)
  moreover have "fst (outbound_link_for id (replicate 16 7) 0 ?A) = Some lid"
    by (simp add: outbound_link_for_def Let_def)
  ultimately show ?thesis using AB(2) by blast
qed

theorem pumped_message_delivered_witness:
  "\<exists>s B lid s1 raw rcpt ph. sh_outbox s = [demo_msg] \<and> run_state (pump_outbox demo_env 0) s = (Ok (), s1) \<and>
     HubWrite (frame raw) \<in> set (sh_log s1) \<and> map om_in_flight (sh_outbox s1) = [Some ph] \<and>
     handle_frame demo id [] Hub raw B = (LinkData lid (om_packed demo_msg) rcpt, B)"
proof -
  obtain lid A B where AB: "transport_ok demo A" "transport_ok demo B" "linked demo lid A B"
    "fst (outbound_link_for id (replicate 16 7) 0 A) = Some lid" using demo_link_up by blast
  define s where "s = demo_queue\<lparr>sh_transport := A, sh_writer := True\<rparr>"
  obtain r s1 where run: "run_state (pump_outbox demo_env 0) s = (r, s1)" by fastforce
  have len: "length (om_packed demo_msg) \<le> LINK_PACKED_MAX"
    using demo_sized by (simp add: demo_msg_def pack_eq stamped_def lens payload_values_def mp_encode_def
      array_header_def bin_header_def map_header_def)
  have E: "ev_crypto demo_env = demo" "ev_order demo_env = id" "ev_hub demo_env n = HubWritten" for n
    by (simp_all add: demo_env_def id_def)
  have s: "sh_outbox s = [demo_msg]" "sh_transport s = A" "sh_writer s" by (simp_all add: s_def demo_queue_def)
  have v: "visits_all id" by (simp add: visits_all_def)
  have m: "om_needs_stamp demo_msg = None" "0 \<le> om_deadline demo_msg" "om_in_flight demo_msg = None"
    "om_next_action demo_msg \<le> 0" "\<not> om_via_pn demo_msg" "om_peer demo_msg = replicate 16 7" by (simp_all add: demo_msg_def)
  note p = pumped_message_delivered [of demo_env s B demo_msg 0 lid r s1 id "[]" Hub id "[]" Hub, unfolded E s(2) m(6),
      OF demo_ok(1-3) v AB(1,2) s(1) m(1-5) len AB(4,3) run]
  then obtain raw ph where d: "r = Ok ()" "map om_in_flight (sh_outbox s1) = [Some ph]"
    "sh_writer s \<and> HubWritten = HubWritten \<longrightarrow> HubWrite (frame raw) \<in> set (sh_log s1)" "in_flight raw raw"
    "\<forall>raw'. in_flight raw raw' \<longrightarrow> (\<exists>rcpt. handle_frame demo id [] Hub raw' B =
      (LinkData lid (om_packed demo_msg) rcpt, B) \<and> (\<forall>rcpt'. in_flight rcpt rcpt' \<longrightarrow>
        fst (handle_frame demo id [] Hub rcpt' (sh_transport s1)) = Delivered ph))"
    by (elim exE conjE)
  from d(5) [rule_format, OF d(4)] obtain rcpt
    where "handle_frame demo id [] Hub raw B = (LinkData lid (om_packed demo_msg) rcpt, B)" by (elim exE conjE)
  with run d(1-3) s(1,3) show ?thesis
    by - (rule exI [of _ s], rule exI [of _ B], rule exI [of _ lid], rule exI [of _ s1], rule exI [of _ raw],
        rule exI [of _ rcpt], rule exI [of _ ph], simp)
qed

end
