(* ===== verification/Inbox.thy ===== *)
theory Inbox
  imports Delivery
begin

text \<open>
  Messages that arrive (\<open>apps/lxmfchat/src/net.rs\<close>): parsing and de-duplication, the conversation they go
  to, addresses and tickets they carry, and the resource transfers on which large ones come. Then the
  conversations themselves (\<open>lib.rs\<close>): opening one, and writing a message in it.

  A handler that parses what a peer sent may panic, so it returns an \<open>outcome\<close>; the state it leaves then
  is the one at the panic, except that the receiver a panicking transfer was working on is left as it was.
\<close>

definition MAX_IN_RESOURCES :: nat where [simp]: "MAX_IN_RESOURCES = 4"
definition MAX_FOUND_ADDRS :: nat where [simp]: "MAX_FOUND_ADDRS = 16"

section \<open>The status line\<close>

fun min_by :: "('a \<Rightarrow> nat) \<Rightarrow> 'a list \<Rightarrow> 'a option" where
  "min_by key [] = None"
| "min_by key (x # xs) =
     (case min_by key xs of Some y \<Rightarrow> Some (if key x \<le> key y then x else y) | None \<Rightarrow> Some x)"

definition first_unread :: "Shared \<Rightarrow> (bytes \<times> nat) option" where
  "first_unread s =
     min_by (\<lambda>(h, _). case map_of (sh_pending s) h of
                        Some ((_, ts, _) # _) \<Rightarrow> ts
                      | _ \<Rightarrow> 2 ^ 64 - 1)
       (filter (\<lambda>(_, n). n > 0) (sh_unread s))"

definition slot_label :: "Shared \<Rightarrow> bytes \<Rightarrow> nat \<Rightarrow> bytes" where
  "slot_label s peer limit = concat (take limit (utf8_chars (label_of s peer)))"

definition refresh_idle_status :: "(Shared, unit) state" where
  "refresh_idle_status = do {
     s \<leftarrow> gets (\<lambda>s. s);
     if br_viewing (sh_browser s) then State_Monad.return ()
     else do {
       emit (IdleText (case sh_current_peer s of
                         Some p \<Rightarrow> 0xE2 # 0x97 # 0x89 # 0x20 # label_of s p
                       | None \<Rightarrow> []));
       emit (IconTray 1 (case first_unread s of
                           Some (peer, n) \<Rightarrow> 0xE2 # 0x9C # 0x89 # slot_label s peer 8 @ 0x20 # dec n
                         | None \<Rightarrow> []));
       emit (IconTray 2 (case sh_prev_peer s of
                           Some p \<Rightarrow> if sh_current_peer s \<noteq> Some p then 0xE2 # 0x86 # 0xA9 # slot_label s p 10 else []
                         | None \<Rightarrow> [])) }}"

definition post_to_chat :: "bytes \<Rightarrow> nat \<Rightarrow> bytes \<Rightarrow> (Shared, unit) state" where
  "post_to_chat author ts body = do { emit (PostAdd author ts body); emit DialogueSave }"

section \<open>Tickets\<close>

definition store_ticket :: "env \<Rightarrow> nat \<Rightarrow> bytes \<Rightarrow> InboundTicket \<Rightarrow> (Shared, unit) state" where
  "store_ticket E now src t =
     (if expires t \<le> now then State_Monad.return ()
      else do {
        tickets \<leftarrow> gets sh_tickets;
        if (case map_of tickets src of Some (ex, _) \<Rightarrow> expires t \<ge> ex | None \<Rightarrow> True) then do {
          modify (\<lambda>s. s\<lparr>sh_tickets := bt_insert src (expires t, ticket t) tickets\<rparr>);
          persist_ticket E src (expires t) (ticket t);
          label \<leftarrow> peer_label src;
          emit (StatusText (ascii ''received a ticket from '' @ label @ ascii '' '' @ em_dash @ ascii '' you can now reply'')) }
        else State_Monad.return () })"

definition verify_and_store_ticket ::
  "env \<Rightarrow> nat \<Rightarrow> bytes \<Rightarrow> PublicIdentity \<Rightarrow> bytes \<Rightarrow> (Shared, unit outcome) state" where
  "verify_and_store_ticket E now src identity lxmf_bytes =
     (case parse (ev_width E) (ev_crypto E) lxmf_bytes (Some identity) of
        Ok (Inr m) \<Rightarrow> do {
          (if signature_validated m
           then case extract_ticket (msg_fields m) of
                  Some t \<Rightarrow> store_ticket E now src t
                | None \<Rightarrow> State_Monad.return ()
           else State_Monad.return ());
          State_Monad.return (Ok ()) }
      | Ok (Inl _) \<Rightarrow> State_Monad.return (Ok ())
      | Err e \<Rightarrow> State_Monad.return (Err e)
      | Panic \<Rightarrow> State_Monad.return Panic
      | OutOfFuel \<Rightarrow> State_Monad.return OutOfFuel)"

text \<open>The ticket a message carries: kept if its sender is verified, else the message is kept for later.\<close>

definition take_ticket :: "env \<Rightarrow> nat \<Rightarrow> bytes \<Rightarrow> ParsedMessage \<Rightarrow> bytes \<Rightarrow> (Shared, unit) state" where
  "take_ticket E now src m lxmf_bytes =
     (case extract_ticket (msg_fields m) of
        None \<Rightarrow> State_Monad.return ()
      | Some t \<Rightarrow>
          if signature_validated m then store_ticket E now src t
          else modify (\<lambda>s. s\<lparr>sh_ticket_pending := bt_insert src lxmf_bytes (sh_ticket_pending s)\<rparr>))"

section \<open>Addresses in a text\<close>

text \<open>
  Maximal runs of hexadecimal digits, of which those of exactly 32 are addresses. A run of ASCII bytes
  starts and ends between characters, so the slices of the source are never inside one.
\<close>

function extract_addresses :: "bytes \<Rightarrow> bytes list outcome" where
  "extract_addresses [] = Ok []"
| "extract_addresses (b # bs) =
     (if hex_value b \<noteq> None then
        let run = takeWhile (\<lambda>c. hex_value c \<noteq> None) (b # bs);
            rest = dropWhile (\<lambda>c. hex_value c \<noteq> None) (b # bs)
        in if length run = 2 * TRUNCATED_HASHLENGTH
           then obind (parse_addr run) (\<lambda>a. obind (extract_addresses rest) (\<lambda>as.
                  Ok (case a of Some x \<Rightarrow> x # as | None \<Rightarrow> as)))
           else extract_addresses rest
      else extract_addresses bs)"
  by pat_completeness auto
termination
  by (relation "measure length") (auto simp: le_imp_less_Suc length_dropWhile_le)

text \<open>Why an address in a message is not offered for import, if it is not.\<close>

definition known_address :: "Shared \<Rightarrow> bytes \<Rightarrow> bytes \<Rightarrow> bytes \<Rightarrow> bytes option" where
  "known_address s src author a =
     (if a = sh_our_dh s then Some (ascii ''that address is this device's own'')
      else if a = src then Some (ascii ''that's '' @ author @ ascii '''s address (already a contact)'')
      else map_option (\<lambda>n. ascii ''address already saved as '' @ n) (map_of (sh_contacts s) a))"

fun add_found :: "bytes \<Rightarrow> nat \<Rightarrow> bytes list \<Rightarrow> (bytes \<times> bytes \<times> nat) list \<Rightarrow> (bytes \<times> bytes \<times> nat) list" where
  "add_found author now [] found = found"
| "add_found author now (a # as) found =
     add_found author now as (if a \<in> fst ` set found then found else found @ [(a, author, now)])"

definition note_addresses :: "env \<Rightarrow> nat \<Rightarrow> bytes \<Rightarrow> bytes \<Rightarrow> bytes \<Rightarrow> (Shared, unit outcome) state" where
  "note_addresses E now src author body =
     (case extract_addresses body of
        Ok as \<Rightarrow> do {
          s \<leftarrow> gets (\<lambda>s. s);
          let fresh = filter (\<lambda>a. known_address s src author a = None) as;
          let filtered = filter (\<lambda>w. w \<noteq> None) (map (known_address s src author) as);
          (if fresh = [] then
             (if filtered = [] then State_Monad.return () else emit (StatusText (the (last filtered))))
           else do {
             let found = add_found author now fresh (sh_found_addrs s);
             let found = drop (length found - MAX_FOUND_ADDRS) found;
             modify (\<lambda>s. s\<lparr>sh_found_addrs := found\<rparr>);
             persist_found_addrs E found });
          State_Monad.return (Ok ()) }
      | Err e \<Rightarrow> State_Monad.return (Err e)
      | Panic \<Rightarrow> State_Monad.return Panic
      | OutOfFuel \<Rightarrow> State_Monad.return OutOfFuel)"

section \<open>An inbound message\<close>

definition author_of :: "Shared \<Rightarrow> bytes \<Rightarrow> bytes" where
  "author_of s src =
     (case map_of (sh_contacts s) src of
        Some n \<Rightarrow> n
      | None \<Rightarrow> (case map_of (sh_seen s) src of Some (n, _) \<Rightarrow> n | None \<Rightarrow> ascii (hex src)))"

definition shown_text :: "ParsedMessage \<Rightarrow> bool \<Rightarrow> bytes" where
  "shown_text m live =
     (let body = content_string m @
            (if signature_validated m then [] else 0x20 # 0x20 # 0xE2 # 0x9A # 0xA0 # ascii ''(unverified)'')
      in if live then body else bubble_text body MARK_SYNCED)"

text \<open>The identifier is new: it is remembered, and the oldest of more than 64 is forgotten.\<close>

definition remember_id :: "bytes \<Rightarrow> bytes list \<Rightarrow> bytes list" where
  "remember_id mid ids = (let ids = ids @ [mid] in if length ids > 64 then tl ids else ids)"

definition show_message :: "env \<Rightarrow> bytes \<Rightarrow> bytes \<Rightarrow> nat \<Rightarrow> bytes \<Rightarrow> (Shared, unit) state" where
  "show_message E src author ts body = do {
     active \<leftarrow> gets sh_current_peer;
     if active = Some src then do {
       modify (\<lambda>s. s\<lparr>sh_last_ts := max (sh_last_ts s) ts\<rparr>);
       refresh_idle_status;
       post_to_chat author ts body;
       label \<leftarrow> peer_label src;
       emit (StatusText (0xE2 # 0x97 # 0x89 # 0x20 # label)) }
     else do {
       p \<leftarrow> gets sh_pending;
       let held = (case map_of p src of Some l \<Rightarrow> l | None \<Rightarrow> []) @ [(author, ts, body)];
       modify (\<lambda>s. s\<lparr>sh_pending := bt_insert src held p\<rparr>);
       persist_pending E src held;
       modify (\<lambda>s. s\<lparr>sh_unread := bt_insert src
         (((case map_of (sh_unread s) src of Some n \<Rightarrow> n | None \<Rightarrow> 0) + 1) mod 2 ^ 32) (sh_unread s)\<rparr>);
       refresh_idle_status;
       emit (StatusText (0xE2 # 0x9C # 0x89 # ascii '' new message from '' @ author)) }}"

definition accept_message :: "env \<Rightarrow> nat \<Rightarrow> bytes \<Rightarrow> ParsedMessage \<Rightarrow> bytes \<Rightarrow> bool \<Rightarrow> (Shared, unit outcome) state" where
  "accept_message E now src m lxmf_bytes live = do {
     author \<leftarrow> gets (\<lambda>s. author_of s src);
     let body = shown_text m live;
     save_contact E src author;
     andthen (note_addresses E now src author body) (\<lambda>_. do {
       take_ticket E now src m lxmf_bytes;
       show_message E src author (f64_to_u64 (timestamp m)) body;
       (if live then emit Vibe else State_Monad.return ());
       State_Monad.return (Ok ()) }) }"

definition deliver_lxmf :: "env \<Rightarrow> nat \<Rightarrow> bytes \<Rightarrow> bool \<Rightarrow> (Shared, unit outcome) state" where
  "deliver_lxmf E now lxmf_bytes live =
     (if length lxmf_bytes < 2 * TRUNCATED_HASHLENGTH then State_Monad.return (Ok ())
      else do {
        let src = slice TRUNCATED_HASHLENGTH (2 * TRUNCATED_HASHLENGTH) lxmf_bytes;
        t \<leftarrow> gets sh_transport;
        let src_id = map_option kd_identity (known t src);
        (if src_id = None then do { request_peer_key E src; State_Monad.return () } else State_Monad.return ());
        case parse (ev_width E) (ev_crypto E) lxmf_bytes src_id of
          Ok (Inl _) \<Rightarrow> State_Monad.return (Ok ())
        | Ok (Inr m) \<Rightarrow> do {
            ids \<leftarrow> gets sh_recent_msg_ids;
            if message_id m \<in> set ids then State_Monad.return (Ok ())
            else do {
              modify (\<lambda>s. s\<lparr>sh_recent_msg_ids := remember_id (message_id m) ids\<rparr>);
              accept_message E now src m lxmf_bytes live }}
        | Err e \<Rightarrow> State_Monad.return (Err e)
        | Panic \<Rightarrow> State_Monad.return Panic
        | OutOfFuel \<Rightarrow> State_Monad.return OutOfFuel })"

section \<open>Resources on a link\<close>

text \<open>
  \<open>inbound_resource\<close> and \<open>outlink_resource\<close> are the same steps over the links the peer opened and over
  our own; the first also reports its failures on the status line.
\<close>

datatype side = Inbound | Outbound

definition send_link_context :: "env \<Rightarrow> side \<Rightarrow> bytes \<Rightarrow> u8 \<Rightarrow> bytes \<Rightarrow> (Shared, unit) state" where
  "send_link_context E side lid ctx req = do {
     iv \<leftarrow> fill_random E IV_LENGTH;
     t \<leftarrow> gets sh_transport;
     case (case side of
             Inbound \<Rightarrow> make_in_link_context (ev_crypto E) t lid ctx req iv
           | Outbound \<Rightarrow> make_out_link_context (ev_crypto E) t lid ctx req iv) of
       Some raw \<Rightarrow> do { broadcast_out E raw; State_Monad.return () }
     | None \<Rightarrow> State_Monad.return () }"

definition send_in_link_request :: "env \<Rightarrow> bytes \<Rightarrow> bytes \<Rightarrow> (Shared, unit) state" where
  "send_in_link_request E lid req = send_link_context E Inbound lid CONTEXT_RESOURCE_REQ req"

definition send_out_link_request :: "env \<Rightarrow> bytes \<Rightarrow> bytes \<Rightarrow> (Shared, unit) state" where
  "send_out_link_request E lid req = send_link_context E Outbound lid CONTEXT_RESOURCE_REQ req"

definition send_request :: "env \<Rightarrow> side \<Rightarrow> bytes \<Rightarrow> bytes option \<Rightarrow> (Shared, unit) state" where
  "send_request E side lid req =
     (case req of
        None \<Rightarrow> State_Monad.return ()
      | Some r \<Rightarrow> (case side of Inbound \<Rightarrow> send_in_link_request E lid r | Outbound \<Rightarrow> send_out_link_request E lid r))"

text \<open>A transfer is added; the map of more than four loses its first key, not its oldest entry.\<close>

fun pop_until :: "bytes \<Rightarrow> (bytes \<times> 'v) list \<Rightarrow> (bytes \<times> 'v) list" where
  "pop_until lid [] = []"
| "pop_until lid (e # m) =
     (if length (e # m) \<ge> MAX_IN_RESOURCES \<and> lid \<notin> fst ` set (e # m) then pop_until lid m else e # m)"

definition insert_transfer :: "bytes \<Rightarrow> ResourceReceiver \<Rightarrow> (Shared, unit) state" where
  "insert_transfer lid rx =
     modify (\<lambda>s. s\<lparr>sh_in_resources := bt_insert lid rx (pop_until lid (sh_in_resources s))\<rparr>)"

definition toast :: "side \<Rightarrow> bytes \<Rightarrow> (Shared, unit) state" where
  "toast side what = (case side of Inbound \<Rightarrow> emit (StatusText what) | Outbound \<Rightarrow> State_Monad.return ())"

definition on_advertisement :: "env \<Rightarrow> side \<Rightarrow> bytes \<Rightarrow> bytes \<Rightarrow> (Shared, unit outcome) state" where
  "on_advertisement E side lid plaintext =
     (case accept (ev_width E) plaintext of
        Ok rx \<Rightarrow>
          (case next_request rx of
             Ok (req, rx) \<Rightarrow> do {
               insert_transfer lid rx;
               send_request E side lid req;
               emit (StatusText (ascii ''incoming message '' @ em_dash @ ascii '' receiving'' @ ellipsis));
               State_Monad.return (Ok ()) }
           | Err e \<Rightarrow> State_Monad.return (Err e)
           | Panic \<Rightarrow> State_Monad.return Panic
           | OutOfFuel \<Rightarrow> State_Monad.return OutOfFuel)
      | Err e \<Rightarrow> do {
          toast side (ascii ''incoming message too large/blocked: '' @ ascii e);
          State_Monad.return (Ok ()) }
      | Panic \<Rightarrow> State_Monad.return Panic
      | OutOfFuel \<Rightarrow> State_Monad.return OutOfFuel)"

text \<open>
  A part for a receiver: the receiver after it, whether the transfer is complete, and the next request.
\<close>

definition take_part :: "crypto \<Rightarrow> bytes \<Rightarrow> ResourceReceiver \<Rightarrow> (ResourceReceiver \<times> bool \<times> bytes option) outcome" where
  "take_part C plaintext rx =
     (let (window_done, rx) = receive_part C rx plaintext
      in if is_complete rx then Ok (rx, True, None)
         else if window_done then obind (next_request rx) (\<lambda>(req, rx). Ok (rx, False, req))
         else Ok (rx, False, None))"

text \<open>A hashmap update: a bad one is only logged.\<close>

definition take_update :: "nat \<Rightarrow> bytes \<Rightarrow> ResourceReceiver \<Rightarrow> (ResourceReceiver \<times> bytes option) outcome" where
  "take_update W plaintext rx =
     (case receive_hashmap_update W rx plaintext of
        Ok rx \<Rightarrow> obind (next_request rx) (\<lambda>(req, rx). Ok (rx, req))
      | Err _ \<Rightarrow> Ok (rx, None)
      | Panic \<Rightarrow> Panic
      | OutOfFuel \<Rightarrow> OutOfFuel)"

text \<open>All parts are there: decrypt, check, prove, deliver.\<close>

definition complete_transfer :: "env \<Rightarrow> nat \<Rightarrow> side \<Rightarrow> bytes \<Rightarrow> ResourceReceiver \<Rightarrow> (Shared, unit outcome) state" where
  "complete_transfer E now side lid rx = do {
     modify (\<lambda>s. s\<lparr>sh_in_resources := hm_remove lid (sh_in_resources s)\<rparr>);
     t \<leftarrow> gets sh_transport;
     let stream = concat_parts rx;
     case (if rr_encrypted rx
           then (case side of Inbound \<Rightarrow> decrypt_in_link (ev_crypto E) t lid stream
                            | Outbound \<Rightarrow> decrypt_out_link (ev_crypto E) t lid stream)
           else Some stream) of
       None \<Rightarrow> do { toast side (ascii ''incoming message unreadable (resource decrypt)''); State_Monad.return (Ok ()) }
     | Some plain \<Rightarrow>
         (case finish (ev_bz2 E) (ev_crypto E) rx plain of
            Inr (payload, proof_data) \<Rightarrow> do {
              (case (case side of Inbound \<Rightarrow> make_in_link_resource_proof t lid proof_data
                                | Outbound \<Rightarrow> make_out_link_resource_proof t lid proof_data) of
                 Some raw \<Rightarrow> do { broadcast_out E raw; State_Monad.return () }
               | None \<Rightarrow> State_Monad.return ());
              deliver_lxmf E now payload True }
          | Inl e \<Rightarrow> do { toast side (ascii ''incoming message invalid: '' @ ascii e); State_Monad.return (Ok ()) }) }"

definition on_part :: "env \<Rightarrow> nat \<Rightarrow> side \<Rightarrow> bytes \<Rightarrow> bytes \<Rightarrow> (Shared, unit outcome) state" where
  "on_part E now side lid plaintext = do {
     m \<leftarrow> gets sh_in_resources;
     case map_of m lid of
       None \<Rightarrow> State_Monad.return (Ok ())
     | Some rx \<Rightarrow>
         (case take_part (ev_crypto E) plaintext rx of
            Ok (rx, complete, req) \<Rightarrow> do {
              modify (\<lambda>s. s\<lparr>sh_in_resources := bt_insert lid rx m\<rparr>);
              send_request E side lid req;
              if complete then complete_transfer E now side lid rx else State_Monad.return (Ok ()) }
          | Err e \<Rightarrow> State_Monad.return (Err e)
          | Panic \<Rightarrow> State_Monad.return Panic
          | OutOfFuel \<Rightarrow> State_Monad.return OutOfFuel) }"

definition on_update :: "env \<Rightarrow> side \<Rightarrow> bytes \<Rightarrow> bytes \<Rightarrow> (Shared, unit outcome) state" where
  "on_update E side lid plaintext = do {
     m \<leftarrow> gets sh_in_resources;
     case map_of m lid of
       None \<Rightarrow> State_Monad.return (Ok ())
     | Some rx \<Rightarrow>
         (case take_update (ev_width E) plaintext rx of
            Ok (rx, req) \<Rightarrow> do {
              modify (\<lambda>s. s\<lparr>sh_in_resources := bt_insert lid rx m\<rparr>);
              send_request E side lid req;
              State_Monad.return (Ok ()) }
          | Err e \<Rightarrow> State_Monad.return (Err e)
          | Panic \<Rightarrow> State_Monad.return Panic
          | OutOfFuel \<Rightarrow> State_Monad.return OutOfFuel) }"

definition send_all :: "env \<Rightarrow> bytes list \<Rightarrow> (Shared, unit) state" where
  "send_all E packets = each (\<lambda>p. do { broadcast_out E p; State_Monad.return () }) packets"

definition serve_request :: "env \<Rightarrow> bytes \<Rightarrow> bytes \<Rightarrow> (Shared, bool) state" where
  "serve_request E lid plaintext = do {
     iv \<leftarrow> fill_random E IV_LENGTH;
     t \<leftarrow> gets sh_transport;
     let packets = serve_link_resource (ev_crypto E) t lid plaintext iv;
     send_all E packets;
     State_Monad.return (packets \<noteq> []) }"

definition inbound_resource :: "env \<Rightarrow> nat \<Rightarrow> bytes \<Rightarrow> u8 \<Rightarrow> bytes \<Rightarrow> (Shared, unit outcome) state" where
  "inbound_resource E now lid ctx plaintext =
     (if ctx = CONTEXT_RESOURCE_ADV then on_advertisement E Inbound lid plaintext
      else if ctx = CONTEXT_RESOURCE then on_part E now Inbound lid plaintext
      else if ctx = CONTEXT_RESOURCE_HMU then on_update E Inbound lid plaintext
      else if ctx = CONTEXT_RESOURCE_REQ then do { serve_request E lid plaintext; State_Monad.return (Ok ()) }
      else State_Monad.return (Ok ()))"

definition outlink_resource :: "env \<Rightarrow> nat \<Rightarrow> bytes \<Rightarrow> u8 \<Rightarrow> bytes \<Rightarrow> (Shared, unit outcome) state" where
  "outlink_resource E now lid ctx plaintext =
     (if ctx = CONTEXT_RESOURCE_ADV then on_advertisement E Outbound lid plaintext
      else if ctx = CONTEXT_RESOURCE then on_part E now Outbound lid plaintext
      else if ctx = CONTEXT_RESOURCE_HMU then on_update E Outbound lid plaintext
      else State_Monad.return (Ok ()))"

section \<open>Conversations\<close>

definition KEY_PEER :: bytes where "KEY_PEER = ascii ''peer''"

definition peer_name :: "Shared \<Rightarrow> bytes \<Rightarrow> bytes" where
  "peer_name s addr =
     (case map_of (sh_contacts s) addr of
        Some n \<Rightarrow> n
      | None \<Rightarrow> (case map_of (sh_seen s) addr of
                  Some (n, _) \<Rightarrow> n
                | None \<Rightarrow> take 8 (ascii (hex addr)) @ ellipsis))"

definition flush_held :: "(bytes \<times> nat \<times> bytes) list \<Rightarrow> (Shared, unit) state" where
  "flush_held queued = each (\<lambda>(author, ts, body). do {
     modify (\<lambda>s. s\<lparr>sh_last_ts := max (sh_last_ts s) ts\<rparr>);
     emit (PostAdd author ts body) }) queued"

definition activate_peer :: "env \<Rightarrow> bytes \<Rightarrow> (Shared, unit) state" where
  "activate_peer E addr = do {
     modify (\<lambda>s. (if sh_current_peer s \<noteq> Some addr then s\<lparr>sh_prev_peer := sh_current_peer s\<rparr> else s)
                   \<lparr>sh_current_peer := Some addr\<rparr>);
     pddb_replace E PDDB_DICT KEY_PEER (ascii (hex addr));
     emit (DialogueSet (ascii (hex addr)));
     p \<leftarrow> gets sh_pending;
     modify (\<lambda>s. s\<lparr>sh_pending := hm_remove addr p\<rparr>);
     let queued = (case map_of p addr of Some l \<Rightarrow> l | None \<Rightarrow> []);
     flush_held queued;
     modify (\<lambda>s. s\<lparr>sh_unread := hm_remove addr (sh_unread s)\<rparr>);
     (if queued \<noteq> [] then do { delete_pending addr; emit DialogueSave } else State_Monad.return ());
     apply_delivery_updates E addr;
     name \<leftarrow> gets (\<lambda>s. peer_name s addr);
     emit (StatusText (0xE2 # 0x97 # 0x89 # 0x20 # name));
     refresh_idle_status }"

definition jump_to_unread :: "env \<Rightarrow> (Shared, unit) state" where
  "jump_to_unread E = do {
     u \<leftarrow> gets first_unread;
     case u of
       Some (addr, _) \<Rightarrow> activate_peer E addr
     | None \<Rightarrow> emit (StatusText (ascii ''no unread messages'')) }"

definition jump_back :: "env \<Rightarrow> (Shared, unit) state" where
  "jump_back E = do {
     s \<leftarrow> gets (\<lambda>s. s);
     case sh_prev_peer s of
       Some p \<Rightarrow> if sh_current_peer s \<noteq> Some p then activate_peer E p
                 else emit (StatusText (ascii ''no previous conversation''))
     | None \<Rightarrow> emit (StatusText (ascii ''no previous conversation'')) }"

text \<open>After the user has confirmed: the thread and what is queued for it are dropped.\<close>

definition clear_history :: "env \<Rightarrow> (Shared, unit) state" where
  "clear_history E = do {
     s \<leftarrow> gets (\<lambda>s. s);
     let (key, label) = (case sh_current_peer s of
       Some addr \<Rightarrow> (ascii (hex addr), peer_name s addr)
     | None \<Rightarrow> (ascii ''welcome'', ascii ''this thread''));
     pddb_delete DIALOGUE_DICT key;
     emit (DialogueSet key);
     (case sh_current_peer s of
        None \<Rightarrow> State_Monad.return ()
      | Some addr \<Rightarrow> do {
          modify (\<lambda>s. s\<lparr>sh_pending := hm_remove addr (sh_pending s), sh_unread := hm_remove addr (sh_unread s),
            sh_delivery_updates := hm_remove addr (sh_delivery_updates s),
            sh_outbox := filter (\<lambda>m. om_peer m \<noteq> addr) (sh_outbox s)\<rparr>);
          delete_pending addr;
          delete_delivery_updates addr });
     emit (StatusText (ascii ''cleared history with '' @ label)) }"

text \<open>The ticket for a peer; an expired one is dropped.\<close>

definition usable_ticket :: "nat \<Rightarrow> bytes \<Rightarrow> (Shared, bytes option) state" where
  "usable_ticket now peer = do {
     t \<leftarrow> gets sh_tickets;
     case map_of t peer of
       None \<Rightarrow> State_Monad.return None
     | Some (expiry, tk) \<Rightarrow>
         if expiry \<le> now then do { modify (\<lambda>s. s\<lparr>sh_tickets := hm_remove peer t\<rparr>); State_Monad.return None }
         else State_Monad.return (Some tk) }"

text \<open>Release builds do not check \<open>*lt + 1\<close>: it wraps.\<close>

definition next_display_ts :: "nat \<Rightarrow> (Shared, nat) state" where
  "next_display_ts now = do {
     lt \<leftarrow> gets sh_last_ts;
     let ts = max now ((lt + 1) mod 2 ^ 64);
     modify (\<lambda>s. s\<lparr>sh_last_ts := ts\<rparr>);
     State_Monad.return ts }"

definition post :: "env \<Rightarrow> nat \<Rightarrow> bytes \<Rightarrow> (Shared, unit) state" where
  "post E now body = do {
     s \<leftarrow> gets (\<lambda>s. s);
     if br_viewing (sh_browser s) then emit (StatusText (ascii ''exit the browser first (F4) to send messages''))
     else case sh_current_peer s of
       None \<Rightarrow> emit (StatusText (ascii ''pick someone first (menu '' @ [0xE2, 0x86, 0x92] @ ascii '' Contacts)''))
     | Some peer \<Rightarrow> do {
         display_ts \<leftarrow> next_display_ts now;
         emit (PostAdd SELF_AUTHOR display_ts (bubble_text body MARK_PENDING));
         emit DialogueSave;
         tk \<leftarrow> usable_ticket now peer;
         let needs = (if tk \<noteq> None then None else map_of (sh_stamp_costs s) peer);
         let m = pack (ev_crypto E) (tr_identity (sh_transport s)) peer (sh_our_dh s) (f64_of_u64 now) [] body [] tk;
         save_contact E peer (author_of s peer);
         enqueue_outbound now peer display_ts body (packed m) needs (tk \<noteq> None) }}"

section \<open>Addresses never panic\<close>

lemma hex_digit_facts: "hex_value c \<noteq> None \<Longrightarrow> c < 0x80 \<and> space_len [c] = 0 \<and> \<not> utf8_cont c \<and> c \<noteq> 43"
  by (auto simp: hex_value_def utf8_cont_def word_le_nat_alt word_less_nat_alt word_unat_eq_iff split: if_splits)

lemma parse_addr_digits:
  assumes "length s = 32" "\<And>c. c \<in> set s \<Longrightarrow> hex_value c \<noteq> None"
  shows "\<exists>a. parse_addr s = Ok a"
proof -
  have t: "trim s = s" by (rule trim_plain) (use assms(2) hex_digit_facts in blast)
  have "from_hex_pair (slice i (i + 2) s) \<noteq> None" if "i \<in> set (map (\<lambda>i. i * 2) [0..<16])" for i
  proof -
    from that assms(1) have i: "i + 1 < length s" by auto
    then have "slice i (i + 2) s = [s ! i, s ! (i + 1)]"
      by (simp add: slice_def numeral_2_eq_2 take_Suc_conv_app_nth hd_drop_conv_nth nth_tl drop_Suc [symmetric] flip: Cons_nth_drop_Suc)
    moreover have "hex_value (s ! i) \<noteq> None" "hex_value (s ! (i + 1)) \<noteq> None" using assms(2) i by simp_all
    ultimately show ?thesis by (auto simp: from_hex_pair_def)
  qed
  then have "hex_pairs s (map (\<lambda>i. i * 2) [0..<16]) =
      Ok (Some (map (\<lambda>i. the (from_hex_pair (slice i (i + 2) s))) (map (\<lambda>i. i * 2) [0..<16])))"
    using assms(1) hex_digit_facts assms(2) by (intro hex_pairs_all) auto
  then show ?thesis using t assms(1) by (simp add: parse_addr_def)
qed

lemma extract_addresses_total: "\<exists>as. extract_addresses s = Ok as"
proof (induction s rule: extract_addresses.induct)
  case (2 b bs)
  show ?case
  proof (cases "hex_value b = None")
    case False
    define r where "r = takeWhile (\<lambda>c. hex_value c \<noteq> None) (b # bs)"
    define t where "t = dropWhile (\<lambda>c. hex_value c \<noteq> None) (b # bs)"
    have digits: "hex_value c \<noteq> None" if "c \<in> set r" for c
      using that set_takeWhileD unfolding r_def by fast
    have a: "\<exists>a. parse_addr r = Ok a" if "length r = 32"
      by (rule parse_addr_digits [OF that digits])
    have "\<exists>as. extract_addresses t = Ok as"
      using 2(1) [OF False r_def t_def] 2(2) [OF False r_def t_def] a by auto
    then obtain as where t: "extract_addresses t = Ok as" by blast
    have e: "extract_addresses (b # bs) =
      (if length r = 32 then obind (parse_addr r) (\<lambda>a. Ok (case a of Some x \<Rightarrow> x # as | None \<Rightarrow> as)) else Ok as)"
      by (subst extract_addresses.simps)
        (simp only: False r_def [symmetric] t_def [symmetric] Let_def t obind.simps, simp)
    show ?thesis
    proof (cases "length r = 32")
      case True
      with a obtain x where "parse_addr r = Ok x" by blast
      with e True show ?thesis by simp
    qed (use e in simp)
  qed (use 2 in simp)
qed simp

section \<open>What the parts of a delivery leave alone\<close>

text \<open>
  A part of the state is quiet if it depends neither on the effects, nor on the store, the sockets and the
  generator: no output changes it.
\<close>

definition quiet :: "(Shared \<Rightarrow> 'f) \<Rightarrow> bool" where
  "quiet p \<longleftrightarrow>
     (\<forall>s x. p (s\<lparr>sh_log := x\<rparr>) = p s) \<and> (\<forall>s x. p (s\<lparr>sh_asked := x\<rparr>) = p s) \<and>
     (\<forall>s x. p (s\<lparr>sh_drawn := x\<rparr>) = p s) \<and> (\<forall>s x. p (s\<lparr>sh_pddb := x\<rparr>) = p s) \<and>
     (\<forall>s x. p (s\<lparr>sh_disconnect_reason := x\<rparr>) = p s) \<and> (\<forall>s x. p (s\<lparr>sh_writer := x\<rparr>) = p s) \<and>
     (\<forall>s x. p (s\<lparr>sh_connected := x\<rparr>) = p s) \<and> (\<forall>s x. p (s\<lparr>sh_ctl := x\<rparr>) = p s)"

lemma run_emit [simp]: "run_state (emit e) s = ((), s\<lparr>sh_log := sh_log s @ [e]\<rparr>)"
  by (simp add: emit_def)

lemma frames_quiet:
  assumes "quiet p"
  shows "frames p (emit e)" "frames p (ask f)" "frames p (fill_random E n)"
    "frames p (pddb_write E d k v)" "frames p (pddb_delete d k)" "frames p (pddb_replace E d k v)"
    "frames p (hub_write E raw)" "frames p (udp_all E raw as any)" "frames p (send_to_peers E raw)"
    "frames p (broadcast_out E raw)" "frames p (request_peer_key E h)"
proof -
  note [simp] = assms [unfolded quiet_def]
  show e: "frames p (emit e)" for e by (simp add: frames_def)
  show a: "frames p (ask f)" for f :: "nat \<Rightarrow> 'c" by (simp add: frames_def ask_def)
  show r: "frames p (fill_random E n)" for n by (simp add: frames_def fill_random_def Let_def)
  have w: "frames p (pddb_write E d k v)" for d k v by (simp add: frames_def ask_def pddb_write_def)
  have d: "frames p (pddb_delete d k)" for d k by (simp add: frames_def pddb_delete_def)
  show "frames p (pddb_write E d k v)" "frames p (pddb_delete d k)" by (rule w, rule d)
  show "frames p (pddb_replace E d k v)" unfolding pddb_replace_def by (intro frames_rules w d)
  have n: "frames p (note_disconnect x)" for x by (simp add: frames_def note_disconnect_def split: option.split)
  have c: "frames p (modify (\<lambda>s. s\<lparr>sh_writer := False, sh_connected := False, sh_ctl := False\<rparr>))"
    by (simp add: frames_def)
  have "frames p (case q of HubBusy \<Rightarrow> x | HubWritten \<Rightarrow> y | HubBroken z \<Rightarrow> f z)"
    if "frames p x" "frames p y" "\<And>z. frames p (f z)" for q f and x y :: "(Shared, bool) state"
    using that by (simp split: hub_answer.split)
  then show h: "frames p (hub_write E raw)" for raw
    unfolding hub_write_def Let_def ask_def
    by (intro frames_rules frames_modify e n c) (simp_all add: frames_rules frames_modify e n c)
  have aa: "frames p (ask f)" for f :: "nat \<Rightarrow> bool" by (simp add: frames_def ask_def)
  show u: "frames p (udp_all E raw as any)" for raw "as" any
    by (induction E raw "as" any rule: udp_all.induct) (simp_all add: frames_rules e aa)
  show t: "frames p (send_to_peers E raw)" for raw unfolding send_to_peers_def by (intro frames_rules u aa)
  show b: "frames p (broadcast_out E raw)" for raw unfolding broadcast_out_def by (intro frames_rules h t)
  show "frames p (request_peer_key E h)" unfolding request_peer_key_def by (intro frames_rules r b)
qed

text \<open>The conversations: what is held, what is unread, which one is open, what was seen, and the node.\<close>

definition talks :: "Shared \<Rightarrow> _" where
  "talks s = (sh_pending s, sh_unread s, sh_current_peer s, sh_recent_msg_ids s, sh_transport s)"

lemma quiet_parts: "quiet talks" "quiet sh_tickets" "quiet sh_pending" "quiet sh_transport"
  by (simp_all add: quiet_def talks_def)

lemmas [frames_rules] = frames_quiet [OF quiet_parts(1)] frames_quiet [OF quiet_parts(2)]

lemma frames_talks_modify: "(\<And>s. talks (f s) = talks s) \<Longrightarrow> frames talks (modify f)"
  by (rule frames_modify)

lemma frames_talks_parts [frames_rules]:
  "frames talks (save_contact E src n)" "frames talks (note_addresses E now src author body)"
  "frames talks (take_ticket E now src m b)" "frames talks refresh_idle_status" "frames talks (peer_label h)"
proof -
  show "frames talks (save_contact E src n)"
    unfolding save_contact_def persist_contact_def
    by (intro frames_rules frames_talks_modify) (simp_all add: talks_def)
  show "frames talks (note_addresses E now src author body)"
    unfolding note_addresses_def persist_found_addrs_def Let_def
    by (intro frames_rules frames_talks_modify) (simp_all add: talks_def)
  show l: "frames talks (peer_label h)" for h unfolding peer_label_def by (intro frames_rules)
  show "frames talks (take_ticket E now src m b)"
    unfolding take_ticket_def store_ticket_def persist_ticket_def
    by (intro frames_rules frames_talks_modify l) (simp_all add: talks_def)
  show "frames talks refresh_idle_status" unfolding refresh_idle_status_def by (intro frames_rules)
qed

section \<open>A message is shown or held\<close>

definition held_for :: "Shared \<Rightarrow> bytes \<Rightarrow> (bytes \<times> nat \<times> bytes) list" where
  "held_for s src = (case map_of (sh_pending s) src of Some l \<Rightarrow> l | None \<Rightarrow> [])"

definition unread_of :: "Shared \<Rightarrow> bytes \<Rightarrow> nat" where
  "unread_of s src = (case map_of (sh_unread s) src of Some n \<Rightarrow> n | None \<Rightarrow> 0)"

lemma run_frames: "frames p m \<Longrightarrow> \<exists>a s'. run_state m s = (a, s') \<and> p s' = p s"
  unfolding frames_def by (metis prod.collapse)

lemma show_message_active:
  assumes "sh_current_peer s = Some src" "run_state (show_message E src author ts body) s = (u, s')"
  shows "talks s' = talks s \<and> PostAdd author ts body \<in> set (sh_log s')"
proof -
  define s1 where "s1 = s\<lparr>sh_last_ts := max (sh_last_ts s) ts\<rparr>"
  obtain v s2 where 2: "run_state refresh_idle_status s1 = (v, s2)" "talks s2 = talks s1"
    using run_frames [OF frames_talks_parts(4)] by blast
  show ?thesis using assms 2
    by (auto simp: show_message_def post_to_chat_def peer_label_def talks_def s1_def)
qed

lemma show_message_held:
  assumes "sh_current_peer s \<noteq> Some src" "run_state (show_message E src author ts body) s = (u, s')"
  shows "held_for s' src = held_for s src @ [(author, ts, body)]"
    and "unread_of s' src = (unread_of s src + 1) mod 2 ^ 32"
    and "sh_current_peer s' = sh_current_peer s" "sh_recent_msg_ids s' = sh_recent_msg_ids s"
      "sh_transport s' = sh_transport s"
proof -
  define held where "held = held_for s src @ [(author, ts, body)]"
  define s1 where "s1 = s\<lparr>sh_pending := bt_insert src held (sh_pending s)\<rparr>"
  have "frames talks (persist_pending E src held)"
    unfolding persist_pending_def Let_def by (intro frames_rules)
  from run_frames [OF this] obtain v2 s2
    where 2: "run_state (persist_pending E src held) s1 = (v2, s2)" "talks s2 = talks s1" by blast
  define s3 where "s3 = s2\<lparr>sh_unread := bt_insert src ((unread_of s2 src + 1) mod 2 ^ 32) (sh_unread s2)\<rparr>"
  obtain v4 s4 where 4: "run_state refresh_idle_status s3 = (v4, s4)" "talks s4 = talks s3"
    using run_frames [OF frames_talks_parts(4)] by blast
  have "run_state (show_message E src author ts body) s =
      run_state (emit (StatusText (0xE2 # 0x9C # 0x89 # ascii '' new message from '' @ author))) s4"
    using assms(1) 2(1) 4(1) unfolding show_message_def Let_def s1_def held_def s3_def held_for_def unread_of_def
    by (simp del: run_emit)
  with assms(2) 4(2) have run: "talks s' = talks s3" by (auto simp: talks_def)
  show "held_for s' src = held_for s src @ [(author, ts, body)]"
    using run 2(2) by (simp add: talks_def s1_def s3_def held_def held_for_def bt_get_insert)
  show "unread_of s' src = (unread_of s src + 1) mod 2 ^ 32"
    using run 2(2) by (simp add: talks_def s1_def s3_def unread_of_def bt_get_insert)
  show "sh_current_peer s' = sh_current_peer s" "sh_recent_msg_ids s' = sh_recent_msg_ids s"
      "sh_transport s' = sh_transport s"
    using run 2(2) by (simp_all add: talks_def s1_def s3_def)
qed

lemma note_addresses_ok: "\<exists>s'. run_state (note_addresses E now src author body) s = (Ok (), s') \<and> talks s' = talks s"
proof -
  obtain as where "extract_addresses body = Ok as" using extract_addresses_total by blast
  then have "fst (run_state (note_addresses E now src author body) s) = Ok ()"
    by (simp add: note_addresses_def Let_def split_beta)
  with run_frames [OF frames_talks_parts(2)] show ?thesis by (metis fst_conv)
qed

lemma accept_message_runs:
  "\<exists>s1 u s2 s'. run_state (accept_message E now src m b live) s = (Ok (), s') \<and> talks s1 = talks s \<and>
     run_state (show_message E src (author_of s src) (f64_to_u64 (timestamp m)) (shown_text m live)) s1 = (u, s2) \<and>
     talks s' = talks s2 \<and> set (sh_log s2) \<subseteq> set (sh_log s')"
proof -
  obtain v1 s1 where 1: "run_state (save_contact E src (author_of s src)) s = (v1, s1)" "talks s1 = talks s"
    using run_frames [OF frames_talks_parts(1)] by blast
  obtain s2 where 2: "run_state (note_addresses E now src (author_of s src) (shown_text m live)) s1 = (Ok (), s2)"
    "talks s2 = talks s1" using note_addresses_ok by blast
  obtain v3 s3 where 3: "run_state (take_ticket E now src m b) s2 = (v3, s3)" "talks s3 = talks s2"
    using run_frames [OF frames_talks_parts(3)] by blast
  obtain u s4 where 4: "run_state (show_message E src (author_of s src) (f64_to_u64 (timestamp m)) (shown_text m live)) s3 = (u, s4)"
    by (rule prod.exhaust)
  obtain s5 where 5: "run_state (if live then emit Vibe else State_Monad.return ()) s4 = ((), s5)" "talks s5 = talks s4"
    "set (sh_log s4) \<subseteq> set (sh_log s5)" by (cases live) (auto simp: talks_def)
  have "run_state (accept_message E now src m b live) s = (Ok (), s5)"
    using 1 2 3 4 5(1) by (simp add: accept_message_def Let_def run_andthen)
  with 1 2 3 4 5 show ?thesis by metis
qed

section \<open>Opening a conversation\<close>

lemma flush_held_posts:
  "run_state (flush_held q) s = (u, s') \<Longrightarrow>
     set (sh_log s') = set (sh_log s) \<union> (\<lambda>(author, ts, body). PostAdd author ts body) ` set q"
proof (induction q arbitrary: s)
  case (Cons m q)
  then show ?case by (cases m) (simp add: flush_held_def)
qed (simp add: flush_held_def)

lemma grows_inbox [grows_rules]:
  "grows (pddb_replace E d k v)" "grows refresh_idle_status" "grows (delete_pending h)" "grows (apply_delivery_updates E h)"
proof -
  show "grows (pddb_replace E d k v)" unfolding pddb_replace_def by (intro grows_rules)
  show "grows refresh_idle_status" unfolding refresh_idle_status_def by (intro grows_rules)
  show "grows (delete_pending h)" unfolding delete_pending_def by (intro grows_rules)
  have e: "grows (each f xs)" if "\<And>x. grows (f x)" for f :: "DeliveryUpdate \<Rightarrow> _" and xs
    using that by (induction xs) (auto intro!: grows_rules)
  show "grows (apply_delivery_updates E h)"
    unfolding apply_delivery_updates_def delete_delivery_updates_def post_update_def
    by (intro grows_rules e grows_modify) simp_all
qed

lemma grows_outcome [grows_rules]:
  "(\<And>a. grows (f a)) \<Longrightarrow> (\<And>e. grows (g e)) \<Longrightarrow> grows m \<Longrightarrow> grows n \<Longrightarrow>
     grows (case v of Ok a \<Rightarrow> f a | Err e \<Rightarrow> g e | Panic \<Rightarrow> m | OutOfFuel \<Rightarrow> n)"
  by (simp split: outcome.split)

lemma grows_andthen [grows_rules]: "grows m \<Longrightarrow> (\<And>a. grows (f a)) \<Longrightarrow> grows (andthen m f)"
  unfolding andthen_def by (intro grows_rules)

lemma grows_out [grows_rules]:
  "grows (fill_random E n)" "grows (hub_write E raw)" "grows (broadcast_out E raw)" "grows (request_peer_key E h)"
proof -
  show r: "grows (fill_random E n)" for n by (simp add: grows_def fill_random_def Let_def)
  show h: "grows (hub_write E raw)" for raw
    by (auto simp: grows_def hub_write_def ask_def note_disconnect_def Let_def split: hub_answer.split option.split)
  have "grows (send_to_peers E raw)" for raw unfolding send_to_peers_def by (intro grows_rules grows_udp_all)
  then show b: "grows (broadcast_out E raw)" for raw unfolding broadcast_out_def by (intro grows_rules h)
  show "grows (request_peer_key E h)" unfolding request_peer_key_def by (intro grows_rules r b)
qed

lemma grows_delivery [grows_rules]: "grows (deliver_lxmf E now b live)"
proof -
  have 1: "grows (save_contact E src n)" for src n
    unfolding save_contact_def persist_contact_def by (intro grows_rules grows_modify) simp_all
  have 2: "grows (note_addresses E now src author body)" for src author body
    unfolding note_addresses_def persist_found_addrs_def Let_def by (intro grows_rules grows_modify) simp_all
  have 3: "grows (take_ticket E now src m b)" for src m
    unfolding take_ticket_def store_ticket_def persist_ticket_def by (intro grows_rules grows_modify) simp_all
  have 4: "grows (show_message E src author ts body)" for src author ts body
    unfolding show_message_def persist_pending_def post_to_chat_def Let_def by (intro grows_rules grows_modify) simp_all
  have 5: "grows (accept_message E now src m b live)" for src m
    unfolding accept_message_def Let_def by (intro grows_rules 1 2 3 4)
  have s: "grows (case r of Inl e \<Rightarrow> f e | Inr m \<Rightarrow> g m)" if "\<And>e. grows (f e)" "\<And>m. grows (g m)"
    for r :: "ParseError + ParsedMessage" and f g and y :: "(Shared, unit outcome) state"
    using that by (simp split: sum.split)
  show ?thesis unfolding deliver_lxmf_def Let_def by (intro grows_rules grows_modify 5 s) simp_all
qed

text \<open>What was held is posted, whatever the conversation's marks were.\<close>

lemma activate_peer_posts:
  assumes "run_state (activate_peer E addr) s = (u, s')"
  shows "(\<lambda>(author, ts, body). PostAdd author ts body) ` set (held_for s addr) \<union> set (sh_log s) \<subseteq> set (sh_log s')"
proof -
  define s1 where "s1 = (if sh_current_peer s \<noteq> Some addr then s\<lparr>sh_prev_peer := sh_current_peer s\<rparr> else s)
      \<lparr>sh_current_peer := Some addr\<rparr>"
  have "frames sh_pending (pddb_replace E PDDB_DICT KEY_PEER (ascii (hex addr)))"
    by (rule frames_quiet(6) [OF quiet_parts(3)])
  from run_frames [OF this] obtain v2 s2
    where 2: "run_state (pddb_replace E PDDB_DICT KEY_PEER (ascii (hex addr))) s1 = (v2, s2)"
      "sh_pending s2 = sh_pending s1" by blast
  have l2: "set (sh_log s) \<subseteq> set (sh_log s2)"
    using growsD [OF grows_inbox(1) 2(1)] by (auto simp: s1_def)
  define s3 where "s3 = s2\<lparr>sh_log := sh_log s2 @ [DialogueSet (ascii (hex addr))], sh_pending := hm_remove addr (sh_pending s)\<rparr>"
  obtain v4 s4 where 4: "run_state (flush_held (held_for s addr)) s3 = (v4, s4)" by (rule prod.exhaust)
  have p: "sh_pending s2 = sh_pending s" using 2(2) by (simp add: s1_def)
  define rest where "rest = do {
     modify (\<lambda>s. s\<lparr>sh_unread := hm_remove addr (sh_unread s)\<rparr>);
     (if held_for s addr \<noteq> [] then do { delete_pending addr; emit DialogueSave } else State_Monad.return ());
     apply_delivery_updates E addr;
     name \<leftarrow> gets (\<lambda>s. peer_name s addr);
     emit (StatusText (0xE2 # 0x97 # 0x89 # 0x20 # name));
     refresh_idle_status }"
  have "run_state (activate_peer E addr) s = run_state rest s4"
    using 2(1) 4 p unfolding activate_peer_def rest_def Let_def s3_def held_for_def s1_def by simp
  moreover have "grows rest" unfolding rest_def by (intro grows_rules grows_modify) simp_all
  ultimately have "set (sh_log s4) \<subseteq> set (sh_log s')" using assms growsD by (metis subsetI)
  with l2 flush_held_posts [OF 4] show ?thesis by (auto simp: s3_def)
qed

section \<open>From the wire to the conversation\<close>

lemma slice_packed: "length d = 16 \<Longrightarrow> length src = 16 \<Longrightarrow>
    slice 16 32 (packed (pack C i d src ts ti co fi tk)) = src \<and> 32 \<le> length (packed (pack C i d src ts ti co fi tk))"
  by (simp add: pack_def Let_def slice_def)

lemma deliver_known:
  assumes "32 \<le> length b" "src = slice 16 32 b" "known (sh_transport s) src = Some k"
    and "parse (ev_width E) (ev_crypto E) b (Some (kd_identity k)) = Ok (Inr m)"
  shows "run_state (deliver_lxmf E now b live) s =
    (if message_id m \<in> set (sh_recent_msg_ids s) then (Ok (), s)
     else run_state (accept_message E now src m b live)
       (s\<lparr>sh_recent_msg_ids := remember_id (message_id m) (sh_recent_msg_ids s)\<rparr>))"
  using assms by (simp add: deliver_lxmf_def Let_def)

text \<open>The text the user sees of a message.\<close>

definition bubble_of :: "bytes \<Rightarrow> bool \<Rightarrow> bytes" where
  "bubble_of co live = (if live then utf8_lossy co else bubble_text (utf8_lossy co) MARK_SYNCED)"

lemma deliver_fresh:
  assumes "32 \<le> length b" "src = slice 16 32 b" "known (sh_transport s) src = Some k"
    and "parse (ev_width E) (ev_crypto E) b (Some (kd_identity k)) = Ok (Inr m)"
    and "message_id m \<notin> set (sh_recent_msg_ids s)"
  shows "\<exists>s'. run_state (deliver_lxmf E now b live) s = (Ok (), s') \<and>
    message_id m \<in> set (sh_recent_msg_ids s') \<and> sh_transport s' = sh_transport s \<and>
    (if sh_current_peer s = Some src
     then PostAdd (author_of s src) (f64_to_u64 (timestamp m)) (shown_text m live) \<in> set (sh_log s')
     else held_for s' src = held_for s src @ [(author_of s src, f64_to_u64 (timestamp m), shown_text m live)] \<and>
          unread_of s' src = (unread_of s src + 1) mod 2 ^ 32)"
proof -
  define s0 where "s0 = s\<lparr>sh_recent_msg_ids := remember_id (message_id m) (sh_recent_msg_ids s)\<rparr>"
  have a: "author_of s0 src = author_of s src" by (simp add: s0_def author_of_def split: option.split)
  have ids: "message_id m \<in> set (sh_recent_msg_ids s0)"
    by (cases "sh_recent_msg_ids s") (simp_all add: s0_def remember_id_def Let_def)
  obtain s1 u s2 s' where run: "run_state (accept_message E now src m b live) s0 = (Ok (), s')"
    and 1: "talks s1 = talks s0"
    and sm: "run_state (show_message E src (author_of s src) (f64_to_u64 (timestamp m)) (shown_text m live)) s1 = (u, s2)"
    and 2: "talks s' = talks s2" "set (sh_log s2) \<subseteq> set (sh_log s')"
    using accept_message_runs [of E now src m b live s0] a by metis
  have d: "run_state (deliver_lxmf E now b live) s = (Ok (), s')"
    using deliver_known [OF assms(1-4)] assms(5) run by (simp add: s0_def)
  show ?thesis
  proof (cases "sh_current_peer s = Some src")
    case True
    then have "sh_current_peer s1 = Some src" using 1 by (simp add: talks_def s0_def)
    from show_message_active [OF this sm] d 1 2 ids True show ?thesis
      by (auto simp: talks_def s0_def)
  next
    case False
    then have c: "sh_current_peer s1 \<noteq> Some src" using 1 by (simp add: talks_def s0_def)
    have "held_for s1 src = held_for s src" "unread_of s1 src = unread_of s src"
      "held_for s' src = held_for s2 src" "unread_of s' src = unread_of s2 src"
      using 1 2 by (simp_all add: talks_def s0_def held_for_def unread_of_def)
    with show_message_held [OF c sm] d 1 2 ids False show ?thesis
      by (auto simp: talks_def s0_def)
  qed
qed

lemma delivered_and_seen:
  assumes "sized C" "signs C" "identity_ok C i" "length d = 16" "length src = 16" "message_ok W ts ti co fi"
    and "m = pack C i d src ts ti co fi tk" and "ev_crypto E = C" "ev_width E = W"
    and "known (sh_transport s) src = Some k" "kd_identity k = public i"
    and "pm_message_id m \<notin> set (sh_recent_msg_ids s)"
  shows "\<exists>s1. run_state (deliver_lxmf E now (packed m) live) s = (Ok (), s1) \<and>
    (let shown = PostAdd (author_of s src) (f64_to_u64 ts) (bubble_of co live)
     in shown \<in> set (sh_log (snd (run_state (activate_peer E src) s1))) \<and>
        (if sh_current_peer s = Some src then shown \<in> set (sh_log s1)
         else unread_of s1 src = (unread_of s src + 1) mod 2 ^ 32)) \<and>
    run_state (deliver_lxmf E later (packed m) live') s1 = (Ok (), s1)"
proof -
  let ?pm = "\<lparr>message_id = pm_message_id m, msg_destination_hash = d, msg_source_hash = src,
    timestamp = ts, title = ti, content = co, msg_fields = fi, signature_validated = True\<rparr>"
  have p: "parse (ev_width E) (ev_crypto E) (packed m) (Some (kd_identity k)) = Ok (Inr ?pm)"
    using parse_pack [OF assms(1-7)] assms(8,9,11) by simp
  have w: "32 \<le> length (packed m)" "src = slice 16 32 (packed m)"
    using slice_packed [OF assms(4,5), of C i ts ti co fi tk] assms(7) by simp_all
  have t: "shown_text ?pm live = bubble_of co live"
    by (simp add: shown_text_def bubble_of_def content_string_def Let_def)
  obtain s1 where s1: "run_state (deliver_lxmf E now (packed m) live) s = (Ok (), s1)"
      "pm_message_id m \<in> set (sh_recent_msg_ids s1)" "sh_transport s1 = sh_transport s"
    and seen: "if sh_current_peer s = Some src
     then PostAdd (author_of s src) (f64_to_u64 ts) (bubble_of co live) \<in> set (sh_log s1)
     else held_for s1 src = held_for s src @ [(author_of s src, f64_to_u64 ts, bubble_of co live)] \<and>
          unread_of s1 src = (unread_of s src + 1) mod 2 ^ 32"
    using deliver_fresh [OF w(1) w(2) assms(10) p, of now live, unfolded t ParsedMessage.select_convs] assms(12) by blast
  have "run_state (deliver_lxmf E later (packed m) live') s1 = (Ok (), s1)"
    using deliver_known [of "packed m" src s1 k E ?pm] w s1 p assms(10) by simp
  moreover have "PostAdd (author_of s src) (f64_to_u64 ts) (bubble_of co live) \<in> set (sh_log (snd (run_state (activate_peer E src) s1)))"
    using activate_peer_posts [of E src s1] seen by (cases "run_state (activate_peer E src) s1") (force split: if_splits)
  ultimately show ?thesis using s1(1) seen by (auto simp: Let_def split: if_splits)
qed

text \<open>
  C5. A message that reaches the application is seen. What a peer whose identity we know packs and signs
  is accepted, whoever is the open conversation: its text is in the chat at once, or it is held, counted as
  unread and in the chat as soon as the user opens the conversation. The same bytes again, over whatever
  path they come, change nothing.
\<close>

theorem message_reaches_user:
  assumes "sized C" "signs C" "identity_ok C i" "length d = 16" "length src = 16" "message_ok W ts ti co fi"
    and "m = pack C i d src ts ti co fi tk" and "ev_crypto E = C" "ev_width E = W"
    and "known (sh_transport s) src = Some k" "kd_identity k = public i"
    and "pm_message_id m \<notin> set (sh_recent_msg_ids s)"
  shows "\<exists>s1. run_state (deliver_lxmf E now (packed m) live) s = (Ok (), s1) \<and>
    (let shown = PostAdd (author_of s src) (f64_to_u64 ts) (bubble_of co live)
     in shown \<in> set (sh_log (snd (run_state (activate_peer E src) s1))) \<and>
        (if sh_current_peer s = Some src then shown \<in> set (sh_log s1)
         else unread_of s1 src = (unread_of s src + 1) mod 2 ^ 32)) \<and>
    run_state (deliver_lxmf E later (packed m) live') s1 = (Ok (), s1)"
  by (rule delivered_and_seen [OF assms])

theorem message_reaches_user_witness:
  "let i = demo_identity 5; src = replicate 16 2;
       k = \<lparr>kd_identity = public i, kd_name_hash = [], kd_ratchet = None, kd_app_data = []\<rparr>;
       m = pack demo i (replicate 16 1) src (f64_of_u64 7) [] [0x68, 0x69] [] None;
       s = demo_shared\<lparr>sh_transport := remember src k (demo_node 1), sh_contacts := [(src, [0x62])]\<rparr>
   in \<exists>s1. run_state (deliver_lxmf demo_env 7 (packed m) True) s = (Ok (), s1) \<and>
        PostAdd [0x62] 7 [0x68, 0x69] \<in> set (sh_log (snd (run_state (activate_peer demo_env src) s1))) \<and>
        unread_of s1 src = 1 \<and> run_state (deliver_lxmf demo_env 9 (packed m) False) s1 = (Ok (), s1)"
proof -
  let ?i = "demo_identity 5" and ?src = "replicate 16 (2 :: u8)"
  let ?k = "\<lparr>kd_identity = public ?i, kd_name_hash = [], kd_ratchet = None, kd_app_data = []\<rparr>"
  let ?s = "demo_shared\<lparr>sh_transport := remember ?src ?k (demo_node 1), sh_contacts := [(?src, [0x62])]\<rparr>"
  have ok: "message_ok 32 (f64_of_u64 7) [] [0x68, 0x69] []"
    by (simp add: message_ok_def bt_wf_def pack_payload_def mp_encode_def array_header_def bin_header_def map_header_def)
  have i: "identity_ok demo ?i" by (simp add: demo_identity_def)
  have k: "known (sh_transport ?s) ?src = Some ?k"
    using known_table.get_ins [OF tables_ok(6) [OF node_ok [OF demo_sized demo_node [of 1]]]]
    by (simp add: known_def remember_def)
  have f: "author_of ?s ?src = [0x62]" "sh_recent_msg_ids ?s = []" "sh_current_peer ?s = None" "unread_of ?s ?src = 0"
    by (simp_all add: author_of_def demo_shared_def Shared_new_def unread_of_def)
  have v: "f64_to_u64 (f64_of_u64 7) = 7" "bubble_of [0x68, 0x69] True = [0x68, 0x69]"
    using f64_u64_exact(1) [of 7] utf8_lossy_valid [OF utf8_valid_plain, of "[0x68, 0x69]"]
    by (force simp: bubble_of_def)+
  have E: "ev_crypto demo_env = demo" "ev_width demo_env = 32" by (simp_all add: demo_env_def)
  show ?thesis
    using message_reaches_user [OF demo_sized demo_signs i _ _ ok refl E k, of "replicate 16 1" None 7 True 9 False] f v
    unfolding Let_def by simp
qed

section \<open>Tickets are kept from verified senders\<close>

text \<open>The tickets, and the messages whose tickets wait for their sender's key.\<close>

definition stubs :: "Shared \<Rightarrow> _" where
  "stubs s = (sh_tickets s, sh_ticket_pending s)"

lemma quiet_stubs: "quiet stubs" by (simp add: quiet_def stubs_def)

lemmas frames_stubs = frames_quiet [OF quiet_stubs]

lemma frames_stubs_parts:
  "frames stubs (save_contact E src n)" "frames stubs (note_addresses E now src author body)"
  "frames stubs (show_message E src author ts body)" "frames stubs (peer_label src)"
proof -
  have l: "frames stubs (peer_label h)" for h unfolding peer_label_def by (intro frames_rules)
  then show "frames stubs (peer_label src)" .
  have i: "frames stubs refresh_idle_status" unfolding refresh_idle_status_def by (intro frames_rules frames_stubs)
  show "frames stubs (save_contact E src n)"
    unfolding save_contact_def persist_contact_def
    by (intro frames_rules frames_stubs frames_modify) (simp_all add: stubs_def)
  show "frames stubs (note_addresses E now src author body)"
    unfolding note_addresses_def persist_found_addrs_def Let_def
    by (intro frames_rules frames_stubs frames_modify) (simp_all add: stubs_def)
  show "frames stubs (show_message E src author ts body)"
    unfolding show_message_def persist_pending_def post_to_chat_def Let_def
    by (intro frames_rules frames_stubs frames_modify l i) (simp_all add: stubs_def)
qed

text \<open>A ticket is better than what is kept: not expired, and good for at least as long.\<close>

definition better_ticket :: "nat \<Rightarrow> (bytes \<times> nat \<times> bytes) list \<Rightarrow> bytes \<Rightarrow> InboundTicket \<Rightarrow> bool" where
  "better_ticket now tickets src t \<longleftrightarrow>
     now < expires t \<and> (case map_of tickets src of Some (ex, _) \<Rightarrow> ex \<le> expires t | None \<Rightarrow> True)"

definition stubs_after :: "nat \<Rightarrow> bytes \<Rightarrow> ParsedMessage \<Rightarrow> bytes \<Rightarrow> Shared \<Rightarrow> _" where
  "stubs_after now src m b s =
     (case extract_ticket (msg_fields m) of
        None \<Rightarrow> stubs s
      | Some t \<Rightarrow>
          if \<not> signature_validated m then (sh_tickets s, bt_insert src b (sh_ticket_pending s))
          else if better_ticket now (sh_tickets s) src t
          then (bt_insert src (expires t, ticket t) (sh_tickets s), sh_ticket_pending s)
          else stubs s)"

lemma store_ticket_stubs:
  "stubs (snd (run_state (store_ticket E now src t) s)) =
     (if better_ticket now (sh_tickets s) src t
      then (bt_insert src (expires t, ticket t) (sh_tickets s), sh_ticket_pending s) else stubs s)"
proof (cases "better_ticket now (sh_tickets s) src t")
  case True
  have f: "frames stubs (do {
      persist_ticket E src (expires t) (ticket t);
      label \<leftarrow> peer_label src;
      emit (StatusText (ascii ''received a ticket from '' @ label @ ascii '' '' @ em_dash @ ascii '' you can now reply'')) })"
    unfolding persist_ticket_def by (intro frames_rules frames_stubs frames_stubs_parts)
  have "run_state (store_ticket E now src t) s = run_state (do {
      persist_ticket E src (expires t) (ticket t);
      label \<leftarrow> peer_label src;
      emit (StatusText (ascii ''received a ticket from '' @ label @ ascii '' '' @ em_dash @ ascii '' you can now reply'')) })
      (s\<lparr>sh_tickets := bt_insert src (expires t, ticket t) (sh_tickets s)\<rparr>)"
    using True by (simp add: store_ticket_def better_ticket_def)
  with f True show ?thesis by (simp only: frames_def) (simp add: stubs_def)
qed (auto simp: store_ticket_def better_ticket_def stubs_def)

lemma take_ticket_stubs: "stubs (snd (run_state (take_ticket E now src m b) s)) = stubs_after now src m b s"
  by (simp add: take_ticket_def stubs_after_def store_ticket_stubs split: option.split) (simp add: stubs_def)

lemma stubs_after_cong: "stubs s1 = stubs s \<Longrightarrow> stubs_after now src m b s1 = stubs_after now src m b s"
  by (simp add: stubs_after_def stubs_def split: option.split)

lemma accept_message_stubs:
  "stubs (snd (run_state (accept_message E now src m b live) s)) = stubs_after now src m b s"
proof -
  obtain v1 s1 where 1: "run_state (save_contact E src (author_of s src)) s = (v1, s1)" "stubs s1 = stubs s"
    using run_frames [OF frames_stubs_parts(1)] by blast
  obtain s2 where 2: "run_state (note_addresses E now src (author_of s src) (shown_text m live)) s1 = (Ok (), s2)"
    using note_addresses_ok by blast
  have "stubs s2 = stubs s1" using framesD [OF frames_stubs_parts(2) 2] .
  obtain v3 s3 where 3: "run_state (take_ticket E now src m b) s2 = (v3, s3)" by (rule prod.exhaust)
  have "stubs s3 = stubs_after now src m b s2" using take_ticket_stubs [of E now src m b s2] 3 by simp
  define rest where "rest = do {
       show_message E src (author_of s src) (f64_to_u64 (timestamp m)) (shown_text m live);
       (if live then emit Vibe else State_Monad.return ());
       State_Monad.return (Ok () :: unit outcome) }"
  have "frames stubs rest" unfolding rest_def by (intro frames_rules frames_stubs frames_stubs_parts)
  moreover have "run_state (accept_message E now src m b live) s = run_state rest s3"
    using 1 2 3 by (simp add: accept_message_def Let_def run_andthen rest_def)
  ultimately show ?thesis
    using \<open>stubs s3 = _\<close> \<open>stubs s2 = _\<close> 1(2) stubs_after_cong [of s2 s] by (simp add: frames_def)
qed

lemma parse_validated: "parse W C b i = Ok (Inr m) \<Longrightarrow> signature_validated m \<Longrightarrow> i \<noteq> None"
  by (auto simp: parse_def parse_payload_def validate_def Let_def split: outcome.splits Value.splits if_splits option.splits)

lemma deliver_stubs:
  assumes "32 \<le> length b" "src = slice 16 32 b"
    and "parse (ev_width E) (ev_crypto E) b (map_option kd_identity (known (sh_transport s) src)) = Ok (Inr m)"
    and "message_id m \<notin> set (sh_recent_msg_ids s)"
  shows "stubs (snd (run_state (deliver_lxmf E now b live) s)) = stubs_after now src m b s"
proof -
  let ?req = "if map_option kd_identity (known (sh_transport s) src) = None
    then do { request_peer_key E src; State_Monad.return () } else State_Monad.return ()"
  have "frames (\<lambda>s. (talks s, stubs s)) ?req"
    using frames_quiet(11) [of "\<lambda>s. (talks s, stubs s)"] quiet_parts(1) quiet_stubs
    by (intro frames_rules) (simp add: quiet_def)
  from run_frames [OF this] obtain u s1 where 1: "run_state ?req s = (u, s1)" "talks s1 = talks s" "stubs s1 = stubs s"
    by auto
  have "run_state (deliver_lxmf E now b live) s = run_state (accept_message E now src m b live)
      (s1\<lparr>sh_recent_msg_ids := remember_id (message_id m) (sh_recent_msg_ids s1)\<rparr>)"
    using assms 1(1,2) by (cases "known (sh_transport s) src")
      (auto simp: deliver_lxmf_def Let_def talks_def split: prod.splits)
  moreover have "stubs (s1\<lparr>sh_recent_msg_ids := ids\<rparr>) = stubs s" for ids using 1(3) by (simp add: stubs_def)
  ultimately show ?thesis by (metis accept_message_stubs stubs_after_cong)
qed



section \<open>The next message's place\<close>

text \<open>
  A message that the user sends belongs at the end of the conversation, after everything shown. That holds
  unless the last time stamp shown is the largest there is, which a peer can choose for its message: a time
  stamp of infinity reads as this number. Then the addition wraps to 0.
\<close>

theorem own_message_placed:
  "(let (ts, s') = run_state (next_display_ts now) s in ts = sh_last_ts s' \<and> now \<le> ts \<and>
      (sh_last_ts s < 2 ^ 64 - 1 \<longrightarrow> sh_last_ts s < ts) \<and>
      (sh_last_ts s = 2 ^ 64 - 1 \<longrightarrow> ts = now)) \<and>
   f64_to_u64 0x7FF0000000000000 = 2 ^ 64 - 1"
proof -
  have "f64_to_u64 0x7FF0000000000000 = 2 ^ 64 - 1"
    by (simp add: f64_to_u64_def f64_exp_def f64_mant_def f64_neg_def)
  then show ?thesis by (simp add: next_display_ts_def Let_def less_max_iff_disj)
qed

section \<open>A message the user sends\<close>

text \<open>What the queue holds for a text that was sent.\<close>

definition queued_text :: "env \<Rightarrow> Shared \<Rightarrow> nat \<Rightarrow> bytes \<Rightarrow> nat \<Rightarrow> bytes \<Rightarrow> bytes option \<Rightarrow> OutboundMsg" where
  "queued_text E s now peer ts body tk =
     \<lparr>om_peer = peer, om_display_ts = ts, om_text = body,
      om_packed = packed (pack (ev_crypto E) (tr_identity (sh_transport s)) peer (sh_our_dh s) (f64_of_u64 now) [] body [] tk),
      om_needs_stamp = (if tk \<noteq> None then None else map_of (sh_stamp_costs s) peer), om_stamped = (tk \<noteq> None),
      om_via_pn = False, om_tried_pn = False, om_in_flight = None, om_attempts = 0, om_route_tries = 0,
      om_link_tries = 0, om_direct_rounds = 0, om_awaiting_key = False, om_pn_blob = None, om_next_action = 0,
      om_created = now, om_deadline = now + DIRECT_DEADLINE\<rparr>"

lemma post_queues:
  assumes "\<not> br_viewing (sh_browser s)" "sh_current_peer s = Some peer" "run_state (post E now body) s = (u, s')"
  shows "\<exists>ts tk. sh_outbox s' = sh_outbox s @ [queued_text E s now peer ts body tk] \<and>
    sh_transport s' = sh_transport s \<and> sh_writer s' = sh_writer s \<and>
    PostAdd SELF_AUTHOR ts (bubble_text body MARK_PENDING) \<in> set (sh_log s')"
proof -
  define p :: "Shared \<Rightarrow> _" where "p s = (sh_outbox s, sh_transport s, sh_writer s)" for s
  define ts where "ts = max now ((sh_last_ts s + 1) mod 2 ^ 64)"
  let ?e = "PostAdd SELF_AUTHOR ts (bubble_text body MARK_PENDING)"
  define s1 where "s1 = s\<lparr>sh_last_ts := ts, sh_log := sh_log s @ [?e, DialogueSave]\<rparr>"
  have "frames p (usable_ticket now peer)"
    unfolding usable_ticket_def by (intro frames_rules frames_modify) (simp add: p_def)
  moreover have "frames sh_log (usable_ticket now peer)"
    unfolding usable_ticket_def by (intro frames_rules frames_modify) simp
  ultimately obtain tk s2 where 2: "run_state (usable_ticket now peer) s1 = (tk, s2)" "p s2 = p s1" "sh_log s2 = sh_log s1"
    unfolding frames_def by (metis prod.collapse)
  have "frames p (save_contact E peer (author_of s peer))"
    unfolding save_contact_def persist_contact_def pddb_replace_def pddb_write_def pddb_delete_def ask_def
    by (intro frames_rules frames_modify) (simp_all add: p_def)
  from run_frames [OF this] obtain v s3
    where 3: "run_state (save_contact E peer (author_of s peer)) s2 = (v, s3)" "p s3 = p s2" by blast
  have g: "grows (save_contact E peer (author_of s peer))"
    unfolding save_contact_def persist_contact_def by (intro grows_rules grows_modify) simp_all
  have "run_state (post E now body) s =
      ((), s3\<lparr>sh_outbox := sh_outbox s3 @ [queued_text E s now peer ts body tk]\<rparr>)"
    using assms(1,2) 2(1) 3(1)
    by (simp add: post_def next_display_ts_def Let_def enqueue_outbound_def queued_text_def s1_def ts_def)
  moreover have "?e \<in> set (sh_log s3)" by (rule growsD [OF g 3(1)]) (simp add: 2(3) s1_def)
  ultimately show ?thesis using assms(3) 2(2) 3(2) by (auto simp: p_def s1_def)
qed

end
