(* ===== verification/Sync.thy ===== *)
theory Sync
  imports Inbox
begin

text \<open>
  Download of the messages a propagation node holds for us (\<open>apps/lxmfchat/src/net.rs\<close>, from
  \<open>SYNC_GET_PATH\<close> on, and \<open>maybe_auto_sync\<close>): a state machine that needs a route and a link to the node,
  identifies itself, asks for the list, downloads, delivers, and confirms. The sync thread ticks once a
  second and ends a sync that stalls.
\<close>

definition SYNC_GET_PATH :: bytes where "SYNC_GET_PATH = ascii ''/get''"
definition SYNC_DELIVERY_LIMIT :: int where "SYNC_DELIVERY_LIMIT = 128"
definition SYNC_DEADLINE_SECS :: nat where [simp]: "SYNC_DEADLINE_SECS = 120"
definition SYNC_ROUTE_RETRY_SECS :: nat where [simp]: "SYNC_ROUTE_RETRY_SECS = 3"
definition SYNC_ROUTE_TRIES :: u8 where [simp]: "SYNC_ROUTE_TRIES = 20"
definition PN_PROBE_RETRY_SECS :: nat where [simp]: "PN_PROBE_RETRY_SECS = 30"

definition upd_sync :: "(SyncState \<Rightarrow> SyncState) \<Rightarrow> (Shared, unit) state" where
  "upd_sync f = modify (\<lambda>s. s\<lparr>sh_sync := f (sh_sync s)\<rparr>)"

definition sync_status :: "bytes \<Rightarrow> (Shared, unit) state" where
  "sync_status what = emit (StatusForced (ascii ''sync: '' @ what))"

definition sync_finish :: "bytes \<Rightarrow> (Shared, unit) state" where
  "sync_finish msg = do {
     link \<leftarrow> gets (\<lambda>s. sy_link_id (sh_sync s));
     upd_sync (\<lambda>y. y\<lparr>sy_phase := SyncIdle, sy_receiver := None, sy_requested := False, sy_route_tries := 0,
       sy_link_id := None\<rparr>);
     (case link of
        Some lid \<Rightarrow> on_transport (\<lambda>t. ((), drop_out_link lid t))
      | None \<Rightarrow> State_Monad.return ());
     emit (IdleText (ascii ''sync: '' @ msg));
     emit (StatusForced (ascii ''sync: '' @ msg)) }"

definition sync_send_get :: "env \<Rightarrow> nat \<Rightarrow> bytes \<Rightarrow> Value \<Rightarrow> (Shared, unit) state" where
  "sync_send_get E now lid data =
     send_link_context E Outbound lid CONTEXT_REQUEST
       (mp_encode (VArray [VF64 (f64_of_u64 now), VBin (truncated_hash (ev_crypto E) SYNC_GET_PATH), data]))"

definition sync_send_identify_and_list :: "env \<Rightarrow> nat \<Rightarrow> bytes \<Rightarrow> (Shared, unit) state" where
  "sync_send_identify_and_list E now lid = do {
     upd_sync (\<lambda>y. y\<lparr>sy_phase := ListRequested\<rparr>);
     sync_status (ascii ''requesting message list'' @ ellipsis);
     iv \<leftarrow> fill_random E IV_LENGTH;
     t \<leftarrow> gets sh_transport;
     (case make_out_link_identify (ev_crypto E) t lid iv of
        Some idp \<Rightarrow> do { broadcast_out E idp; State_Monad.return () }
      | None \<Rightarrow> State_Monad.return ());
     sync_send_get E now lid (VArray [VNil, VNil]) }"

definition sync_on_link_up :: "env \<Rightarrow> nat \<Rightarrow> bytes \<Rightarrow> bytes \<Rightarrow> (Shared, unit) state" where
  "sync_on_link_up E now lid target = do {
     y \<leftarrow> gets sh_sync;
     if ev_pn E \<noteq> Some target \<or> sy_phase y \<noteq> SyncLinking then State_Monad.return ()
     else do {
       upd_sync (\<lambda>y. y\<lparr>sy_link_id := Some lid\<rparr>);
       sync_send_identify_and_list E now lid }}"

section \<open>Starting\<close>

text \<open>A try without interface or route: the request is armed again, a bounded number of times.\<close>

definition sync_rearm :: "nat \<Rightarrow> (Shared, bool) state" where
  "sync_rearm now = do {
     y \<leftarrow> gets sh_sync;
     let tries = sat_add8 (sy_route_tries y) 1;
     if tries \<le> SYNC_ROUTE_TRIES then do {
       upd_sync (\<lambda>y. y\<lparr>sy_route_tries := tries, sy_requested := True, sy_next_attempt := now + SYNC_ROUTE_RETRY_SECS\<rparr>);
       State_Monad.return True }
     else do {
       upd_sync (\<lambda>y. y\<lparr>sy_route_tries := tries\<rparr>);
       State_Monad.return False }}"

definition contact_node :: "env \<Rightarrow> nat \<Rightarrow> bytes \<Rightarrow> KnownDest \<Rightarrow> (Shared, unit) state" where
  "contact_node E now pn k = do {
     upd_sync (\<lambda>y. y\<lparr>sy_phase := SyncLinking, sy_receiver := None, sy_deadline := now + SYNC_DEADLINE_SECS,
       sy_link_id := None, sy_route_tries := 0, sy_next_attempt := 0, sy_link_tries := 0\<rparr>);
     existing \<leftarrow> on_transport (outbound_link_for (ev_order E) pn now);
     case existing of
       Some lid \<Rightarrow> do {
         upd_sync (\<lambda>y. y\<lparr>sy_link_id := Some lid\<rparr>);
         sync_send_identify_and_list E now lid }
     | None \<Rightarrow> do {
         t \<leftarrow> gets sh_transport;
         sync_status (ascii ''contacting node (try 1, hops '' @
           (case path_hops t pn of Some h \<Rightarrow> dec (unat h) | None \<Rightarrow> ascii ''?'') @ ascii '')'' @ ellipsis);
         r \<leftarrow> send_link_request E pn (kd_identity k) now;
         case r of
           WriteFailed \<Rightarrow> sync_finish (ascii ''hub write failed '' @ em_dash @ ascii '' try again'')
         | Sent \<Rightarrow> upd_sync (\<lambda>y. y\<lparr>sy_link_tries := 1\<rparr>)
         | Pending \<Rightarrow> upd_sync (\<lambda>y. y\<lparr>sy_link_tries := 1\<rparr>) }}"

definition start_sync :: "env \<Rightarrow> nat \<Rightarrow> (Shared, unit) state" where
  "start_sync E now =
     (case ev_pn E of
        None \<Rightarrow> emit (StatusForced (ascii ''no propagation node configured''))
      | Some pn \<Rightarrow> do {
          s \<leftarrow> gets (\<lambda>s. s);
          if sy_phase (sh_sync s) \<noteq> SyncIdle then emit (StatusForced (ascii ''sync already in progress''))
          else do {
            up \<leftarrow> any_interface_up;
            if \<not> up then do {
              again \<leftarrow> sync_rearm now;
              first_wait \<leftarrow> gets (\<lambda>s. sy_route_tries (sh_sync s) = 1);
              if \<not> again then sync_finish (ascii ''no connection (hub or local peers)'')
              else if first_wait then sync_status (ascii ''waiting for a connection'' @ ellipsis)
              else State_Monad.return () }
            else case (if has_path (sh_transport s) pn then known (sh_transport s) pn else None) of
              Some k \<Rightarrow> contact_node E now pn k
            | None \<Rightarrow> do {
                again \<leftarrow> sync_rearm now;
                if \<not> again then sync_finish (ascii ''no route to the propagation node'')
                else do {
                  sync_status (ascii ''finding the propagation node'' @ ellipsis);
                  request_peer_key E pn;
                  State_Monad.return () }}}})"

section \<open>The exchange\<close>

definition parse_rns_response :: "nat \<Rightarrow> bytes \<Rightarrow> Value option outcome" where
  "parse_rns_response W payload =
     (case mp_decode W payload of
        Ok v \<Rightarrow> Ok (case as_array v of
                       Some arr \<Rightarrow> if length arr < 2 then None else Some (arr ! 1)
                     | None \<Rightarrow> None)
      | Err _ \<Rightarrow> Ok None
      | Panic \<Rightarrow> Panic
      | OutOfFuel \<Rightarrow> OutOfFuel)"

definition deliver_synced_message :: "env \<Rightarrow> nat \<Rightarrow> bytes \<Rightarrow> (Shared, unit outcome) state" where
  "deliver_synced_message E now blob =
     (if length blob \<le> TRUNCATED_HASHLENGTH then State_Monad.return (Ok ())
      else do {
        t \<leftarrow> gets sh_transport;
        case identity_decrypt (ev_crypto E) (tr_identity t) (drop TRUNCATED_HASHLENGTH blob) [] of
          Inr plaintext \<Rightarrow> deliver_lxmf E now (take TRUNCATED_HASHLENGTH blob @ plaintext) False
        | Inl _ \<Rightarrow> State_Monad.return (Ok ()) })"

fun deliver_all :: "env \<Rightarrow> nat \<Rightarrow> bytes list \<Rightarrow> (Shared, unit outcome) state" where
  "deliver_all E now [] = State_Monad.return (Ok ())"
| "deliver_all E now (b # bs) = andthen (deliver_synced_message E now b) (\<lambda>_. deliver_all E now bs)"

definition error_code :: "int \<Rightarrow> bytes" where
  "error_code code =
     (if code = 240 then ascii ''node needs identification''
      else if code = 241 then ascii ''node denied access''
      else ascii ''node error'')"

definition elements :: "Value \<Rightarrow> Value list" where
  "elements v = (case as_array v of Some a \<Rightarrow> a | None \<Rightarrow> [])"

definition on_list :: "env \<Rightarrow> nat \<Rightarrow> bytes \<Rightarrow> Value \<Rightarrow> (Shared, unit) state" where
  "on_list E now lid resp =
     (if elements resp = [] then sync_finish (ascii ''no new messages'')
      else do {
        sync_send_get E now lid (VArray [VArray (elements resp), VArray [], VInt SYNC_DELIVERY_LIMIT]);
        upd_sync (\<lambda>y. y\<lparr>sy_phase := GetRequested\<rparr>);
        sync_status (ascii ''downloading '' @ dec (length (elements resp)) @ ascii '' message(s)'' @ ellipsis) })"

definition on_messages :: "env \<Rightarrow> nat \<Rightarrow> bytes \<Rightarrow> Value \<Rightarrow> (Shared, unit outcome) state" where
  "on_messages E now lid resp =
     (let blobs = List.map_filter as_bin (elements resp)
      in andthen (deliver_all E now blobs) (\<lambda>_. do {
           (if blobs \<noteq> []
            then sync_send_get E now lid (VArray [VNil, VArray (map (\<lambda>b. VBin (full_hash (ev_crypto E) b)) blobs)])
            else State_Monad.return ());
           sync_finish (ascii ''synced '' @ dec (length blobs) @ ascii '' message(s)'');
           (if blobs \<noteq> [] then emit Vibe else State_Monad.return ());
           State_Monad.return (Ok ()) }))"

definition handle_sync_response :: "env \<Rightarrow> nat \<Rightarrow> bytes \<Rightarrow> Value \<Rightarrow> (Shared, unit outcome) state" where
  "handle_sync_response E now lid resp =
     (case resp of
        VInt code \<Rightarrow> do { sync_finish (error_code code); State_Monad.return (Ok ()) }
      | _ \<Rightarrow> do {
          phase \<leftarrow> gets (\<lambda>s. sy_phase (sh_sync s));
          if phase = ListRequested then do { on_list E now lid resp; State_Monad.return (Ok ()) }
          else if phase = GetRequested then on_messages E now lid resp
          else State_Monad.return (Ok ()) })"

text \<open>A response in one packet.\<close>

definition on_response :: "env \<Rightarrow> nat \<Rightarrow> bytes \<Rightarrow> bytes \<Rightarrow> (Shared, unit outcome) state" where
  "on_response E now lid payload =
     (case parse_rns_response (ev_width E) payload of
        Ok (Some resp) \<Rightarrow> handle_sync_response E now lid resp
      | Ok None \<Rightarrow> State_Monad.return (Ok ())
      | Err e \<Rightarrow> State_Monad.return (Err e)
      | Panic \<Rightarrow> State_Monad.return Panic
      | OutOfFuel \<Rightarrow> State_Monad.return OutOfFuel)"

text \<open>A response as a resource, when all its parts are there.\<close>

definition sync_complete :: "env \<Rightarrow> nat \<Rightarrow> bytes \<Rightarrow> ResourceReceiver \<Rightarrow> (Shared, unit outcome) state" where
  "sync_complete E now lid rx = do {
     t \<leftarrow> gets sh_transport;
     let stream = concat_parts rx;
     case (if rr_encrypted rx then decrypt_out_link (ev_crypto E) t lid stream else Some stream) of
       None \<Rightarrow> do { sync_finish (ascii ''sync failed (decrypt)''); State_Monad.return (Ok ()) }
     | Some plain \<Rightarrow>
         (case finish (ev_bz2 E) (ev_crypto E) rx plain of
            Inl _ \<Rightarrow> do { sync_finish (ascii ''sync failed (resource)''); State_Monad.return (Ok ()) }
          | Inr (payload, proof_data) \<Rightarrow> do {
              (case make_out_link_resource_proof t lid proof_data of
                 Some raw \<Rightarrow> do { broadcast_out E raw; State_Monad.return () }
               | None \<Rightarrow> State_Monad.return ());
              upd_sync (\<lambda>y. y\<lparr>sy_receiver := None\<rparr>);
              on_response E now lid payload }) }"

definition sync_on_adv :: "env \<Rightarrow> bytes \<Rightarrow> bytes \<Rightarrow> (Shared, unit outcome) state" where
  "sync_on_adv E lid plaintext =
     (case accept (ev_width E) plaintext of
        Ok rx \<Rightarrow>
          (case next_request rx of
             Ok (req, rx) \<Rightarrow> do {
               upd_sync (\<lambda>y. y\<lparr>sy_receiver := Some rx\<rparr>);
               send_request E Outbound lid req;
               sync_status (ascii ''downloading'' @ ellipsis);
               State_Monad.return (Ok ()) }
           | Err e \<Rightarrow> State_Monad.return (Err e)
           | Panic \<Rightarrow> State_Monad.return Panic
           | OutOfFuel \<Rightarrow> State_Monad.return OutOfFuel)
      | Err _ \<Rightarrow> do { sync_finish (ascii ''sync failed (unsupported resource)''); State_Monad.return (Ok ()) }
      | Panic \<Rightarrow> State_Monad.return Panic
      | OutOfFuel \<Rightarrow> State_Monad.return OutOfFuel)"

definition sync_on_outlink_data :: "env \<Rightarrow> nat \<Rightarrow> bytes \<Rightarrow> u8 \<Rightarrow> bytes \<Rightarrow> (Shared, unit outcome) state" where
  "sync_on_outlink_data E now lid ctx plaintext = do {
     y \<leftarrow> gets sh_sync;
     if sy_link_id y \<noteq> Some lid \<or> sy_phase y = SyncIdle then State_Monad.return (Ok ())
     else if ctx = CONTEXT_RESPONSE then on_response E now lid plaintext
     else if ctx = CONTEXT_RESOURCE_ADV then sync_on_adv E lid plaintext
     else if ctx = CONTEXT_RESOURCE_HMU then
       (case sy_receiver y of
          None \<Rightarrow> State_Monad.return (Ok ())
        | Some rx \<Rightarrow>
            (case take_update (ev_width E) plaintext rx of
               Ok (rx, req) \<Rightarrow> do {
                 upd_sync (\<lambda>y. y\<lparr>sy_receiver := Some rx\<rparr>);
                 send_request E Outbound lid req;
                 State_Monad.return (Ok ()) }
             | Err e \<Rightarrow> State_Monad.return (Err e)
             | Panic \<Rightarrow> State_Monad.return Panic
             | OutOfFuel \<Rightarrow> State_Monad.return OutOfFuel))
     else if ctx = CONTEXT_RESOURCE then
       (case sy_receiver y of
          None \<Rightarrow> State_Monad.return (Ok ())
        | Some rx \<Rightarrow>
            (case take_part (ev_crypto E) plaintext rx of
               Ok (rx, complete, req) \<Rightarrow> do {
                 upd_sync (\<lambda>y. y\<lparr>sy_receiver := Some rx\<rparr>);
                 send_request E Outbound lid req;
                 if complete then sync_complete E now lid rx else State_Monad.return (Ok ()) }
             | Err e \<Rightarrow> State_Monad.return (Err e)
             | Panic \<Rightarrow> State_Monad.return Panic
             | OutOfFuel \<Rightarrow> State_Monad.return OutOfFuel))
     else State_Monad.return (Ok ()) }"

section \<open>The sync thread\<close>

text \<open>While the link is not up, a lost request is sent again.\<close>

definition sync_relink :: "env \<Rightarrow> nat \<Rightarrow> bytes \<Rightarrow> (Shared, unit) state" where
  "sync_relink E now pn = do {
     t \<leftarrow> gets sh_transport;
     case known t pn of
       None \<Rightarrow> State_Monad.return ()
     | Some k \<Rightarrow> do {
         r \<leftarrow> send_link_request E pn (kd_identity k) now;
         case r of
           Sent \<Rightarrow> do {
             upd_sync (\<lambda>y. y\<lparr>sy_link_tries := sat_add8 (sy_link_tries y) 1\<rparr>);
             tries \<leftarrow> gets (\<lambda>s. sy_link_tries (sh_sync s));
             sync_status (ascii ''contacting node (try '' @ dec (unat tries) @ ascii '')'' @ ellipsis) }
         | WriteFailed \<Rightarrow> sync_finish (ascii ''hub write failed '' @ em_dash @ ascii '' try again'')
         | Pending \<Rightarrow> State_Monad.return () }}"

text \<open>Once per run, when the node is reachable; until then its route is asked for every 30 s.\<close>

definition auto_sync :: "env \<Rightarrow> nat \<Rightarrow> bytes \<Rightarrow> (Shared, unit) state" where
  "auto_sync E now pn = do {
     s \<leftarrow> gets (\<lambda>s. s);
     if sy_auto_done (sh_sync s) \<or> sy_phase (sh_sync s) \<noteq> SyncIdle then State_Monad.return ()
     else if known (sh_transport s) pn \<noteq> None \<and> has_path (sh_transport s) pn then do {
       upd_sync (\<lambda>y. y\<lparr>sy_auto_done := True\<rparr>);
       start_sync E now }
     else do {
       up \<leftarrow> any_interface_up;
       if up \<and> now \<ge> sy_pn_probe_at (sh_sync s) then do {
         upd_sync (\<lambda>y. y\<lparr>sy_pn_probe_at := now + PN_PROBE_RETRY_SECS\<rparr>);
         request_peer_key E pn;
         State_Monad.return () }
       else State_Monad.return () }}"

definition maybe_auto_sync :: "env \<Rightarrow> nat \<Rightarrow> (Shared, unit) state" where
  "maybe_auto_sync E now = do {
     y \<leftarrow> gets sh_sync;
     case ev_pn E of
       None \<Rightarrow> do {
         upd_sync (\<lambda>y. y\<lparr>sy_requested := False\<rparr>);
         (if sy_requested y then emit (StatusForced (ascii ''no propagation node configured''))
          else State_Monad.return ()) }
     | Some pn \<Rightarrow>
         if sy_phase y \<noteq> SyncIdle \<and> now > sy_deadline y then do {
           (if sy_phase y = SyncLinking then do { on_transport (expire_path pn); State_Monad.return () }
            else State_Monad.return ());
           sync_finish (ascii ''timed out'') }
         else if sy_phase y = SyncLinking then sync_relink E now pn
         else if sy_requested y \<and> now \<ge> sy_next_attempt y then do {
           upd_sync (\<lambda>y. y\<lparr>sy_requested := False\<rparr>);
           start_sync E now }
         else auto_sync E now pn }"

definition request_sync :: "(Shared, unit) state" where
  "request_sync = upd_sync (\<lambda>y. y\<lparr>sy_requested := True\<rparr>)"

end
