(* ===== verification/Browser.thy ===== *)
theory Browser
  imports Sync
begin

text \<open>
  The page browser (\<open>apps/lxmfchat/src/net.rs\<close>, from \<open>PAGE_PATH_DEFAULT\<close> on): a page is requested from a
  NomadNet node over a link on which we do not identify ourselves, arrives as one packet or as a resource,
  is parsed by \<open>Micron\<close> and shown; links are followed, and the pages before kept on a stack.
\<close>

definition PAGE_PATH_DEFAULT :: bytes where "PAGE_PATH_DEFAULT = ascii ''/page/index.mu''"
definition PAGE_DEADLINE_SECS :: nat where [simp]: "PAGE_DEADLINE_SECS = 60"
definition BROWSER_ROUTE_RETRY_SECS :: nat where [simp]: "BROWSER_ROUTE_RETRY_SECS = 3"
definition BROWSER_ROUTE_TRIES :: u8 where [simp]: "BROWSER_ROUTE_TRIES = 40"
definition BACK_STACK_MAX :: nat where [simp]: "BACK_STACK_MAX = 16"
definition DISPLAY_NAME_MAX :: nat where [simp]: "DISPLAY_NAME_MAX = 32"

definition node_label :: "Shared \<Rightarrow> bytes \<Rightarrow> bytes" where
  "node_label s n =
     (case map_of (sh_saved_nodes s) n of
        Some l \<Rightarrow> l
      | None \<Rightarrow> (case map_of (sh_nodes_seen s) n of Some (l, _) \<Rightarrow> l | None \<Rightarrow> ascii (hex (take 4 n))))"

definition browser_targets :: "Shared \<Rightarrow> bytes \<Rightarrow> bool" where
  "browser_targets s target \<longleftrightarrow>
     br_phase (sh_browser s) \<noteq> BrowserIdle \<and> br_node (sh_browser s) = Some target"

definition upd_browser :: "(BrowserState \<Rightarrow> BrowserState) \<Rightarrow> (Shared, unit) state" where
  "upd_browser f = modify (\<lambda>s. s\<lparr>sh_browser := f (sh_browser s)\<rparr>)"

definition page_status :: "bytes \<Rightarrow> (Shared, unit) state" where
  "page_status what = emit (StatusForced (ascii ''page: '' @ what))"

definition request_page :: "bytes \<Rightarrow> bytes \<Rightarrow> (bytes \<times> bytes) list \<Rightarrow> bool \<Rightarrow> (Shared, bool) state" where
  "request_page n path vars push_back = do {
     s \<leftarrow> gets (\<lambda>s. s);
     if br_phase (sh_browser s) \<noteq> BrowserIdle then do {
       emit (StatusText (ascii ''page fetch already in progress'' @ ellipsis));
       State_Monad.return False }
     else do {
       upd_browser (\<lambda>b. b\<lparr>br_requested := Some (n, path, vars), br_pending_push := push_back,
         br_pending_pop := False, br_next_attempt := 0, br_route_tries := 0\<rparr>);
       emit (StatusText (ascii ''page: fetching '' @ node_label s n @ ellipsis));
       State_Monad.return True }}"

text \<open>The link of the fetch is dropped, here and when the browser is left.\<close>

definition drop_page_link :: "bytes option \<Rightarrow> (Shared, unit) state" where
  "drop_page_link link =
     (case link of
        Some lid \<Rightarrow> on_transport (\<lambda>t. ((), drop_out_link lid t))
      | None \<Rightarrow> State_Monad.return ())"

definition browser_finish :: "bytes \<Rightarrow> (Shared, unit) state" where
  "browser_finish msg = do {
     link \<leftarrow> gets (\<lambda>s. br_link_id (sh_browser s));
     upd_browser (\<lambda>b. b\<lparr>br_phase := BrowserIdle, br_node := None, br_receiver := None, br_requested := None,
       br_pending_push := False, br_pending_pop := False, br_route_tries := 0, br_link_id := None\<rparr>);
     drop_page_link link;
     emit (IdleText (ascii ''page: '' @ msg));
     emit (StatusForced (ascii ''page: '' @ msg)) }"

section \<open>Fetching\<close>

definition browser_send_request :: "env \<Rightarrow> nat \<Rightarrow> bytes \<Rightarrow> (Shared, unit) state" where
  "browser_send_request E now lid = do {
     upd_browser (\<lambda>b. b\<lparr>br_phase := Fetching\<rparr>);
     b \<leftarrow> gets sh_browser;
     page_status (ascii ''requesting '' @ br_path b @ ellipsis);
     let data = (if br_vars b = [] then VNil
                 else VStrMap (map (\<lambda>(k, v). (ascii ''var_'' @ k, VStr v)) (br_vars b)));
     let req = mp_encode (VArray [VF64 (f64_of_u64 now), VBin (truncated_hash (ev_crypto E) (br_path b)), data]);
     iv \<leftarrow> fill_random E IV_LENGTH;
     t \<leftarrow> gets sh_transport;
     case make_out_link_context (ev_crypto E) t lid CONTEXT_REQUEST req iv of
       Some raw \<Rightarrow> do {
         ok \<leftarrow> broadcast_out E raw;
         if ok then State_Monad.return ()
         else browser_finish (ascii ''hub write failed '' @ em_dash @ ascii '' try again'') }
     | None \<Rightarrow> browser_finish (ascii ''link lost '' @ em_dash @ ascii '' try again'') }"

definition browser_on_link_up :: "env \<Rightarrow> nat \<Rightarrow> bytes \<Rightarrow> bytes \<Rightarrow> (Shared, unit) state" where
  "browser_on_link_up E now lid target = do {
     b \<leftarrow> gets sh_browser;
     if br_phase b = BrowserLinking \<and> br_node b = Some target then do {
       upd_browser (\<lambda>b. b\<lparr>br_link_id := Some lid\<rparr>);
       browser_send_request E now lid }
     else State_Monad.return () }"

definition fetch_rearm :: "nat \<Rightarrow> PageAddr \<Rightarrow> (Shared, bool) state" where
  "fetch_rearm now page = do {
     b \<leftarrow> gets sh_browser;
     let tries = sat_add8 (br_route_tries b) 1;
     if tries \<le> BROWSER_ROUTE_TRIES then do {
       upd_browser (\<lambda>b. b\<lparr>br_route_tries := tries, br_requested := Some page,
         br_next_attempt := now + BROWSER_ROUTE_RETRY_SECS\<rparr>);
       State_Monad.return True }
     else do {
       upd_browser (\<lambda>b. b\<lparr>br_route_tries := tries\<rparr>);
       State_Monad.return False }}"

definition open_fetch :: "env \<Rightarrow> nat \<Rightarrow> PageAddr \<Rightarrow> KnownDest \<Rightarrow> (Shared, unit) state" where
  "open_fetch E now page k = (case page of (n, path, vars) \<Rightarrow> do {
     t \<leftarrow> gets sh_transport;
     let hops = max 1 (case path_hops t n of Some h \<Rightarrow> unat h | None \<Rightarrow> 1);
     upd_browser (\<lambda>b. b\<lparr>br_phase := BrowserLinking, br_node := Some n, br_path := path, br_vars := vars,
       br_receiver := None, br_deadline := now + PAGE_DEADLINE_SECS + 12 * hops, br_link_id := None,
       br_route_tries := 0, br_next_attempt := 0, br_link_tries := 0\<rparr>);
     existing \<leftarrow> on_transport (outbound_link_for (ev_order E) n now);
     case existing of
       Some lid \<Rightarrow> do {
         upd_browser (\<lambda>b. b\<lparr>br_link_id := Some lid\<rparr>);
         browser_send_request E now lid }
     | None \<Rightarrow> do {
         page_status (ascii ''contacting node (try 1, hops '' @ dec hops @ ascii '')'' @ ellipsis);
         r \<leftarrow> send_link_request E n (kd_identity k) now;
         case r of
           WriteFailed \<Rightarrow> browser_finish (ascii ''hub write failed '' @ em_dash @ ascii '' try again'')
         | Sent \<Rightarrow> upd_browser (\<lambda>b. b\<lparr>br_link_tries := 1\<rparr>)
         | Pending \<Rightarrow> upd_browser (\<lambda>b. b\<lparr>br_link_tries := 1\<rparr>) }})"

definition start_fetch :: "env \<Rightarrow> nat \<Rightarrow> PageAddr \<Rightarrow> (Shared, unit) state" where
  "start_fetch E now page = do {
     up \<leftarrow> any_interface_up;
     if \<not> up then do {
       again \<leftarrow> fetch_rearm now page;
       first_wait \<leftarrow> gets (\<lambda>s. br_route_tries (sh_browser s) = 1);
       if \<not> again then browser_finish (ascii ''no connection (hub or local peers)'')
       else if first_wait then page_status (ascii ''waiting for a connection'' @ ellipsis)
       else State_Monad.return () }
     else do {
       t \<leftarrow> gets sh_transport;
       case (if has_path t (fst page) then known t (fst page) else None) of
         Some k \<Rightarrow> open_fetch E now page k
       | None \<Rightarrow> do {
           again \<leftarrow> fetch_rearm now page;
           if \<not> again then browser_finish (ascii ''no route to the node'')
           else do {
             page_status (ascii ''finding the node'' @ ellipsis);
             request_peer_key E (fst page);
             State_Monad.return () }}}}"

definition page_relink :: "env \<Rightarrow> nat \<Rightarrow> bytes \<Rightarrow> (Shared, unit) state" where
  "page_relink E now n = do {
     t \<leftarrow> gets sh_transport;
     case known t n of
       None \<Rightarrow> State_Monad.return ()
     | Some k \<Rightarrow> do {
         r \<leftarrow> send_link_request E n (kd_identity k) now;
         case r of
           Sent \<Rightarrow> do {
             upd_browser (\<lambda>b. b\<lparr>br_link_tries := sat_add8 (br_link_tries b) 1\<rparr>);
             tries \<leftarrow> gets (\<lambda>s. br_link_tries (sh_browser s));
             page_status (ascii ''contacting node (try '' @ dec (unat tries) @ ascii '')'' @ ellipsis) }
         | WriteFailed \<Rightarrow> browser_finish (ascii ''hub write failed '' @ em_dash @ ascii '' try again'')
         | Pending \<Rightarrow> State_Monad.return () }}"

definition browser_tick :: "env \<Rightarrow> nat \<Rightarrow> (Shared, unit) state" where
  "browser_tick E now = do {
     b \<leftarrow> gets sh_browser;
     let linking = (if br_phase b = BrowserLinking then br_node b else None);
     if br_phase b \<noteq> BrowserIdle \<and> now > br_deadline b then do {
       (case linking of
          Some n \<Rightarrow> do { on_transport (expire_path n); State_Monad.return () }
        | None \<Rightarrow> State_Monad.return ());
       browser_finish (ascii ''timed out'') }
     else case linking of
       Some n \<Rightarrow> page_relink E now n
     | None \<Rightarrow>
         (case br_requested b of
            Some page \<Rightarrow>
              if br_phase b = BrowserIdle \<and> now \<ge> br_next_attempt b then do {
                upd_browser (\<lambda>b. b\<lparr>br_requested := None\<rparr>);
                start_fetch E now page }
              else State_Monad.return ()
          | None \<Rightarrow> State_Monad.return ()) }"

section \<open>Showing a page\<close>

definition doc_line :: "Line \<Rightarrow> bytes \<times> nat \<times> nat \<times> nat \<times> nat" where
  "doc_line l =
     (let style = (case ln_style l of Heading h \<Rightarrow> if h = 1 then 3 else 1 | Bold \<Rightarrow> 1 | Mono \<Rightarrow> 2 | Regular \<Rightarrow> 0);
          align = (case ln_align l of Center \<Rightarrow> 1 | Right \<Rightarrow> 2 | Left \<Rightarrow> 0);
          (kind, link) = (case ln_kind l of Divider \<Rightarrow> (1, 0) | Link n \<Rightarrow> (2, n) | Text \<Rightarrow> (0, 0))
      in (ln_text l, style, align, kind, link))"

text \<open>\<open>String::truncate\<close> panics when the new length is inside a character.\<close>

definition str_truncate :: "nat \<Rightarrow> bytes \<Rightarrow> bytes outcome" where
  "str_truncate n s =
     (if length s < n then Ok s else if is_char_boundary s n then Ok (take n s) else Panic)"

text \<open>The back stack and the current page after a page has come.\<close>

definition navigate :: "bytes \<Rightarrow> Document \<Rightarrow> BrowserState \<Rightarrow> BrowserState" where
  "navigate n doc b =
     (let back = (if br_pending_push b
                  then (case br_current b of
                          Some prev \<Rightarrow>
                            (let l = br_back b @ [prev] in if length l > BACK_STACK_MAX then tl l else l)
                        | None \<Rightarrow> br_back b)
                  else br_back b);
          back = (if br_pending_pop b then butlast back else back)
      in b\<lparr>br_path := [], br_vars := [], br_pending_push := False, br_pending_pop := False, br_back := back,
           br_current := Some (n, br_path b, br_vars b), br_links := doc_links doc,
           br_current_title := doc_title doc, br_phase := BrowserIdle, br_node := None, br_receiver := None,
           br_viewing := True\<rparr>)"

text \<open>A saved node that is named by its address is given the title of its index page.\<close>

definition name_node :: "env \<Rightarrow> bytes \<Rightarrow> bytes \<Rightarrow> bytes option \<Rightarrow> (Shared, unit outcome) state" where
  "name_node E n path page_title = do {
     saved \<leftarrow> gets sh_saved_nodes;
     let t = (case page_title of Some t \<Rightarrow> trim t | None \<Rightarrow> []);
     let placeholder = (case map_of saved n of
         Some name \<Rightarrow> name = ascii (hex n) \<or> name = take 8 (ascii (hex n)) @ ellipsis
       | None \<Rightarrow> False);
     if t \<noteq> [] \<and> path = PAGE_PATH_DEFAULT \<and> placeholder then
       (case str_truncate DISPLAY_NAME_MAX t of
          Ok t \<Rightarrow> do {
            modify (\<lambda>s. s\<lparr>sh_saved_nodes := bt_insert n t (sh_saved_nodes s)\<rparr>);
            persist_node E n t;
            State_Monad.return (Ok ()) }
        | Err e \<Rightarrow> State_Monad.return (Err e)
        | Panic \<Rightarrow> State_Monad.return Panic
        | OutOfFuel \<Rightarrow> State_Monad.return OutOfFuel)
     else State_Monad.return (Ok ()) }"

definition browser_fkey_hints :: "(Shared, unit) state" where
  "browser_fkey_hints = do {
     emit (IconTray 0 (ascii ''menu'')); emit (IconTray 1 (ascii ''pg up''));
     emit (IconTray 2 (ascii ''pg dn'')); emit (IconTray 3 (ascii ''exit'')) }"

definition show_page :: "bytes \<Rightarrow> bytes \<Rightarrow> Document \<Rightarrow> bool \<Rightarrow> (Shared, unit) state" where
  "show_page n path doc entering = do {
     label \<leftarrow> gets (\<lambda>s. node_label s n);
     emit (ShowDocument (label @ path) (map doc_line (doc_lines doc)));
     (if entering then browser_fkey_hints else State_Monad.return ());
     emit (IdleText (0xE2 # 0x96 # 0xA3 # 0x20 # label @ path));
     emit (StatusForced (0xE2 # 0x96 # 0xA3 # 0x20 # label @ path)) }"

definition render :: "env \<Rightarrow> bytes \<Rightarrow> (Shared, unit outcome) state" where
  "render E dat =
     (case parse_page (utf8_lossy dat) of
        Ok doc \<Rightarrow> do {
          b \<leftarrow> gets sh_browser;
          case br_node b of
            None \<Rightarrow> State_Monad.return (Ok ())
          | Some n \<Rightarrow> do {
              upd_browser (navigate n doc);
              andthen (name_node E n (br_path b) (doc_title doc)) (\<lambda>_. do {
                show_page n (br_path b) doc (\<not> br_viewing b);
                State_Monad.return (Ok ()) }) }}
      | Err e \<Rightarrow> State_Monad.return (Err e)
      | Panic \<Rightarrow> State_Monad.return Panic
      | OutOfFuel \<Rightarrow> State_Monad.return OutOfFuel)"

definition page_received :: "env \<Rightarrow> Value \<Rightarrow> (Shared, unit outcome) state" where
  "page_received E resp =
     (case resp of
        VInt code \<Rightarrow> do { browser_finish (error_code code); State_Monad.return (Ok ()) }
      | VBin b \<Rightarrow> render E b
      | VStr s \<Rightarrow> render E s
      | _ \<Rightarrow> do { browser_finish (ascii ''unexpected response''); State_Monad.return (Ok ()) })"

section \<open>The answer of the node\<close>

definition on_page_response :: "env \<Rightarrow> bytes \<Rightarrow> (Shared, unit outcome) state" where
  "on_page_response E payload =
     (case parse_rns_response (ev_width E) payload of
        Ok (Some resp) \<Rightarrow> page_received E resp
      | Ok None \<Rightarrow> State_Monad.return (Ok ())
      | Err e \<Rightarrow> State_Monad.return (Err e)
      | Panic \<Rightarrow> State_Monad.return Panic
      | OutOfFuel \<Rightarrow> State_Monad.return OutOfFuel)"

definition page_complete :: "env \<Rightarrow> bytes \<Rightarrow> ResourceReceiver \<Rightarrow> (Shared, unit outcome) state" where
  "page_complete E lid rx = do {
     t \<leftarrow> gets sh_transport;
     let stream = concat_parts rx;
     case (if rr_encrypted rx then decrypt_out_link (ev_crypto E) t lid stream else Some stream) of
       None \<Rightarrow> do { browser_finish (ascii ''page failed (decrypt)''); State_Monad.return (Ok ()) }
     | Some plain \<Rightarrow>
         (case finish (ev_bz2 E) (ev_crypto E) rx plain of
            Inl _ \<Rightarrow> do { browser_finish (ascii ''page failed (resource)''); State_Monad.return (Ok ()) }
          | Inr (payload, proof_data) \<Rightarrow> do {
              (case make_out_link_resource_proof t lid proof_data of
                 Some raw \<Rightarrow> do { broadcast_out E raw; State_Monad.return () }
               | None \<Rightarrow> State_Monad.return ());
              upd_browser (\<lambda>b. b\<lparr>br_receiver := None\<rparr>);
              on_page_response E payload }) }"

definition page_on_adv :: "env \<Rightarrow> bytes \<Rightarrow> bytes \<Rightarrow> (Shared, unit outcome) state" where
  "page_on_adv E lid plaintext =
     (case accept (ev_width E) plaintext of
        Ok rx \<Rightarrow>
          (case next_request rx of
             Ok (req, rx) \<Rightarrow> do {
               upd_browser (\<lambda>b. b\<lparr>br_receiver := Some rx\<rparr>);
               send_request E Outbound lid req;
               page_status (ascii ''downloading'' @ ellipsis);
               State_Monad.return (Ok ()) }
           | Err e \<Rightarrow> State_Monad.return (Err e)
           | Panic \<Rightarrow> State_Monad.return Panic
           | OutOfFuel \<Rightarrow> State_Monad.return OutOfFuel)
      | Err _ \<Rightarrow> do { browser_finish (ascii ''page too large / unsupported''); State_Monad.return (Ok ()) }
      | Panic \<Rightarrow> State_Monad.return Panic
      | OutOfFuel \<Rightarrow> State_Monad.return OutOfFuel)"

definition browser_on_outlink_data :: "env \<Rightarrow> nat \<Rightarrow> bytes \<Rightarrow> u8 \<Rightarrow> bytes \<Rightarrow> (Shared, unit outcome) state" where
  "browser_on_outlink_data E now lid ctx plaintext = do {
     b \<leftarrow> gets sh_browser;
     if br_link_id b \<noteq> Some lid \<or> br_phase b \<noteq> Fetching then State_Monad.return (Ok ())
     else do {
       upd_browser (\<lambda>b. b\<lparr>br_deadline := now + PAGE_DEADLINE_SECS\<rparr>);
       if ctx = CONTEXT_RESPONSE then on_page_response E plaintext
       else if ctx = CONTEXT_RESOURCE_ADV then page_on_adv E lid plaintext
       else if ctx = CONTEXT_RESOURCE_HMU then
         (case br_receiver b of
            None \<Rightarrow> State_Monad.return (Ok ())
          | Some rx \<Rightarrow>
              (case take_update (ev_width E) plaintext rx of
                 Ok (rx, req) \<Rightarrow> do {
                   upd_browser (\<lambda>b. b\<lparr>br_receiver := Some rx\<rparr>);
                   send_request E Outbound lid req;
                   State_Monad.return (Ok ()) }
               | Err e \<Rightarrow> State_Monad.return (Err e)
               | Panic \<Rightarrow> State_Monad.return Panic
               | OutOfFuel \<Rightarrow> State_Monad.return OutOfFuel))
       else if ctx = CONTEXT_RESOURCE then
         (case br_receiver b of
            None \<Rightarrow> State_Monad.return (Ok ())
          | Some rx \<Rightarrow>
              (case take_part (ev_crypto E) plaintext rx of
                 Ok (rx, complete, req) \<Rightarrow> do {
                   upd_browser (\<lambda>b. b\<lparr>br_receiver := Some rx\<rparr>);
                   send_request E Outbound lid req;
                   if complete then page_complete E lid rx else State_Monad.return (Ok ()) }
               | Err e \<Rightarrow> State_Monad.return (Err e)
               | Panic \<Rightarrow> State_Monad.return Panic
               | OutOfFuel \<Rightarrow> State_Monad.return OutOfFuel))
       else State_Monad.return (Ok ()) }}"

section \<open>Navigation\<close>

text \<open>\<open>selected\<close> is the link under the cursor, which the chat library knows.\<close>

definition follow_selected_link :: "nat option \<Rightarrow> (Shared, unit outcome) state" where
  "follow_selected_link selected = do {
     b \<leftarrow> gets sh_browser;
     case selected of
       None \<Rightarrow> do {
         emit (StatusText (ascii ''move the cursor onto a link first ('' @ [0xE2, 0x86, 0x91, 0x2F, 0xE2, 0x86, 0x93] @ ascii '')''));
         State_Monad.return (Ok ()) }
     | Some i \<Rightarrow>
         if i \<ge> length (br_links b) then State_Monad.return (Ok ())
         else
           let l = br_links b ! i;
               open_page = (\<lambda>n path. do { request_page n path (lk_fields l) True; State_Monad.return (Ok ()) })
           in case resolve_link (lk_url l) of
                Ok (SameNode path) \<Rightarrow>
                  (case br_current b of
                     Some (n, _) \<Rightarrow> open_page n path
                   | None \<Rightarrow> State_Monad.return (Ok ()))
              | Ok (OtherNode n path) \<Rightarrow> open_page n path
              | Ok (NodeIndex n) \<Rightarrow> open_page n PAGE_PATH_DEFAULT
              | Ok (Lxmf _) \<Rightarrow> do { emit (StatusText (ascii ''messaging links not supported yet'')); State_Monad.return (Ok ()) }
              | Ok _ \<Rightarrow> do { emit (StatusText (ascii ''link not supported'')); State_Monad.return (Ok ()) }
              | Err e \<Rightarrow> State_Monad.return (Err e)
              | Panic \<Rightarrow> State_Monad.return Panic
              | OutOfFuel \<Rightarrow> State_Monad.return OutOfFuel }"

definition browser_back :: "(Shared, bool) state" where
  "browser_back = do {
     b \<leftarrow> gets sh_browser;
     if br_back b = [] then State_Monad.return False
     else case last (br_back b) of (n, path, vars) \<Rightarrow> do {
       taken \<leftarrow> request_page n path vars False;
       (if taken then upd_browser (\<lambda>b. b\<lparr>br_pending_pop := True\<rparr>) else State_Monad.return ());
       State_Monad.return True }}"

definition browser_suspend :: "(Shared, unit) state" where
  "browser_suspend = do {
     link \<leftarrow> gets (\<lambda>s. br_link_id (sh_browser s));
     upd_browser (\<lambda>b. b\<lparr>br_phase := BrowserIdle, br_node := None, br_receiver := None, br_requested := None,
       br_pending_push := False, br_pending_pop := False, br_route_tries := 0, br_viewing := False, br_link_id := None\<rparr>);
     drop_page_link link;
     emit DocumentSuspend;
     emit (IconTray 0 (ascii ''menu''));
     emit (IconTray 3 (ascii ''sync''));
     refresh_idle_status;
     s \<leftarrow> gets (\<lambda>s. s);
     emit (StatusText (case sh_current_peer s of Some p \<Rightarrow> 0xE2 # 0x97 # 0x89 # 0x20 # label_of s p | None \<Rightarrow> [])) }"

text \<open>\<open>parked\<close>: the chat library still has the page.\<close>

definition browser_resume :: "bool \<Rightarrow> (Shared, bool) state" where
  "browser_resume parked = do {
     s \<leftarrow> gets (\<lambda>s. s);
     case br_current (sh_browser s) of
       None \<Rightarrow> State_Monad.return False
     | Some (n, path, _) \<Rightarrow>
         if \<not> parked then do {
           upd_browser (\<lambda>b. b\<lparr>br_current := None, br_back := [], br_links := [], br_current_title := None\<rparr>);
           State_Monad.return False }
         else do {
           upd_browser (\<lambda>b. b\<lparr>br_viewing := True\<rparr>);
           browser_fkey_hints;
           emit (IdleText (0xE2 # 0x96 # 0xA3 # 0x20 # node_label s n @ path));
           emit (StatusText (0xE2 # 0x96 # 0xA3 # 0x20 # node_label s n @ path));
           State_Monad.return True }}"

end
