(* ===== verification/Events.thy ===== *)
theory Events
  imports Browser
begin

text \<open>
  What the application does with a frame (\<open>apps/lxmfchat/src/net.rs\<close>, \<open>handle_frame\<close>): the node of
  \<open>Transport\<close> turns it into an event, and the event drives the engine, the inbox, the sync and the browser.
\<close>

definition announce_with :: "env \<Rightarrow> nat \<Rightarrow>
    (crypto \<Rightarrow> Transport \<Rightarrow> bytes \<Rightarrow> bytes list \<Rightarrow> bytes \<Rightarrow> bytes \<Rightarrow> nat \<Rightarrow> bytes) \<Rightarrow> (Shared, bytes) state" where
  "announce_with E now build = do {
     r5 \<leftarrow> fill_random E 5;
     s \<leftarrow> gets (\<lambda>s. s);
     State_Monad.return
       (build (ev_crypto E) (sh_transport s) (ascii ''lxmf'') [ascii ''delivery''] (sh_display_name s) r5 now) }"

definition app_announce :: "env \<Rightarrow> nat \<Rightarrow> (Shared, bytes) state" where
  "app_announce E now = announce_with E now make_announce_with"

definition build_path_response :: "env \<Rightarrow> nat \<Rightarrow> (Shared, bytes) state" where
  "build_path_response E now = announce_with E now make_path_response_with"

definition send_announce :: "env \<Rightarrow> nat \<Rightarrow> (Shared, unit) state" where
  "send_announce E now = do { raw \<leftarrow> app_announce E now; broadcast_out E raw; State_Monad.return () }"

definition request_propagation_path :: "env \<Rightarrow> (Shared, unit) state" where
  "request_propagation_path E =
     (case ev_pn E of
        Some pn \<Rightarrow> do { request_peer_key E pn; State_Monad.return () }
      | None \<Rightarrow> State_Monad.return ())"

section \<open>Announces\<close>

definition refresh_contact :: "env \<Rightarrow> bytes \<Rightarrow> bytes \<Rightarrow> (Shared, unit) state" where
  "refresh_contact E dest name = do {
     contacts \<leftarrow> gets sh_contacts;
     case map_of contacts dest of
       None \<Rightarrow> State_Monad.return ()
     | Some existing \<Rightarrow>
         save_contact E dest
           (if existing = ascii (hex dest) \<or> existing = take 8 (ascii (hex dest)) @ ellipsis then name else existing) }"

definition recover_ticket :: "env \<Rightarrow> nat \<Rightarrow> bytes \<Rightarrow> PublicIdentity \<Rightarrow> (Shared, unit outcome) state" where
  "recover_ticket E now dest identity = do {
     cached \<leftarrow> gets (\<lambda>s. map_of (sh_ticket_pending s) dest);
     modify (\<lambda>s. s\<lparr>sh_ticket_pending := hm_remove dest (sh_ticket_pending s)\<rparr>);
     case cached of
       Some b \<Rightarrow> verify_and_store_ticket E now dest identity b
     | None \<Rightarrow> State_Monad.return (Ok ()) }"

definition wake_outbox :: "env \<Rightarrow> nat \<Rightarrow> bytes \<Rightarrow> (Shared, unit outcome) state" where
  "wake_outbox E now dest = do {
     cost \<leftarrow> gets (\<lambda>s. map_of (sh_stamp_costs s) dest);
     (waiting, was_keyless) \<leftarrow> release_waiting dest cost;
     if waiting then do {
       label \<leftarrow> peer_label dest;
       emit (StatusText (label @ ascii '': '' @ (if was_keyless then ascii ''key received'' else ascii ''route found'') @
         ascii '' '' @ em_dash @ ascii '' sending'' @ ellipsis));
       pump_outbox E now }
     else State_Monad.return (Ok ()) }"

definition handle_peer_announce :: "env \<Rightarrow> nat \<Rightarrow> bytes \<Rightarrow> KnownDest \<Rightarrow> (Shared, unit outcome) state" where
  "handle_peer_announce E now dest info =
     andthen (State_Monad.return (lxmf_display_name (ev_width E) (kd_app_data info))) (\<lambda>shown. do {
       let name = (case shown of Some n \<Rightarrow> n | None \<Rightarrow> ascii (hex dest));
       modify (\<lambda>s. s\<lparr>sh_seen := bt_insert dest (name, now) (sh_seen s)\<rparr>);
       andthen (State_Monad.return (lxmf_stamp_cost (ev_width E) (kd_app_data info))) (\<lambda>cost. do {
         modify (\<lambda>s. s\<lparr>sh_stamp_costs := (case cost of
             Some c \<Rightarrow> bt_insert dest c (sh_stamp_costs s)
           | None \<Rightarrow> hm_remove dest (sh_stamp_costs s))\<rparr>);
         refresh_contact E dest name;
         andthen (recover_ticket E now dest (kd_identity info)) (\<lambda>_. wake_outbox E now dest) }) })"

definition handle_announce :: "env \<Rightarrow> nat \<Rightarrow> bytes \<Rightarrow> KnownDest \<Rightarrow> (Shared, unit outcome) state" where
  "handle_announce E now dest info = do {
     ours \<leftarrow> gets sh_our_dh;
     if dest = ours then State_Monad.return (Ok ())
     else if kd_name_hash info = nomad_node_name_hash (ev_crypto E) then do {
       let name = trim (utf8_lossy (kd_app_data info));
       modify (\<lambda>s. s\<lparr>sh_nodes_seen :=
         bt_insert dest (if name = [] then ascii (hex dest) else name, now) (sh_nodes_seen s)\<rparr>);
       State_Monad.return (Ok ()) }
     else if kd_name_hash info \<noteq> lxmf_delivery_name_hash (ev_crypto E) then State_Monad.return (Ok ())
     else handle_peer_announce E now dest info }"

section \<open>Links\<close>

definition touch_backchannels :: "nat \<Rightarrow> bytes \<Rightarrow> (Shared, unit) state" where
  "touch_backchannels now lid =
     modify (\<lambda>s. s\<lparr>sh_backchannels :=
       map (\<lambda>(p, l, seen). (p, l, if l = lid then now else seen)) (sh_backchannels s)\<rparr>)"

definition handle_identified :: "env \<Rightarrow> nat \<Rightarrow> bytes \<Rightarrow> PublicIdentity \<Rightarrow> (Shared, unit outcome) state" where
  "handle_identified E now lid identity = do {
     let dest = single_destination_hash (ev_crypto E) (ascii ''lxmf'') [ascii ''delivery''] (id_hash identity);
     on_transport (\<lambda>t. ((),
       if known t dest = None
       then remember dest \<lparr>kd_identity = identity, kd_name_hash = lxmf_delivery_name_hash (ev_crypto E),
              kd_ratchet = None, kd_app_data = []\<rparr> t
       else t));
     modify (\<lambda>s. s\<lparr>sh_backchannels := bt_insert dest (lid, now) (sh_backchannels s)\<rparr>);
     pump_outbox E now }"

definition identify_on_link :: "env \<Rightarrow> bytes \<Rightarrow> (Shared, unit) state" where
  "identify_on_link E lid = do {
     iv \<leftarrow> fill_random E IV_LENGTH;
     t \<leftarrow> gets sh_transport;
     case make_out_link_identify (ev_crypto E) t lid iv of
       Some idp \<Rightarrow> do { broadcast_out E idp; State_Monad.return () }
     | None \<Rightarrow> State_Monad.return () }"

definition handle_link_up :: "env \<Rightarrow> nat \<Rightarrow> bytes \<Rightarrow> bytes \<Rightarrow> (Shared, unit outcome) state" where
  "handle_link_up E now lid target = do {
     iv \<leftarrow> fill_random E IV_LENGTH;
     t \<leftarrow> gets sh_transport;
     (case make_link_rtt (ev_crypto E) t lid iv of
        Some rtt \<Rightarrow> do { broadcast_out E rtt; State_Monad.return () }
      | None \<Rightarrow> State_Monad.return ());
     s \<leftarrow> gets (\<lambda>s. s);
     (if ev_pn E \<noteq> Some target \<and> \<not> browser_targets s target then identify_on_link E lid
      else State_Monad.return ());
     sync_on_link_up E now lid target;
     browser_on_link_up E now lid target;
     pump_outbox E now }"

definition handle_out_data :: "env \<Rightarrow> nat \<Rightarrow> bytes \<Rightarrow> u8 \<Rightarrow> bytes \<Rightarrow> (Shared, unit outcome) state" where
  "handle_out_data E now lid ctx plaintext = do {
     served \<leftarrow> (if ctx = CONTEXT_RESOURCE_REQ then serve_request E lid plaintext else State_Monad.return False);
     s \<leftarrow> gets (\<lambda>s. s);
     if served then State_Monad.return (Ok ())
     else if sy_link_id (sh_sync s) = Some lid then sync_on_outlink_data E now lid ctx plaintext
     else if br_link_id (sh_browser s) = Some lid then browser_on_outlink_data E now lid ctx plaintext
     else outlink_resource E now lid ctx plaintext }"

definition handle_out_closed :: "bytes \<Rightarrow> (Shared, unit) state" where
  "handle_out_closed lid = do {
     y \<leftarrow> gets sh_sync;
     (if sy_phase y \<noteq> SyncIdle \<and> sy_link_id y = Some lid
      then sync_finish (ascii ''node closed the link '' @ em_dash @ ascii '' try again'')
      else State_Monad.return ());
     b \<leftarrow> gets sh_browser;
     if br_link_id b = Some lid then
       if br_phase b \<noteq> BrowserIdle then browser_finish (ascii ''node closed the link '' @ em_dash @ ascii '' try again'')
       else upd_browser (\<lambda>b. b\<lparr>br_link_id := None\<rparr>)
     else State_Monad.return () }"

section \<open>A frame\<close>

definition finished :: "(Shared, 'a) state \<Rightarrow> (Shared, unit outcome) state" where
  "finished m = do { m; State_Monad.return (Ok ()) }"

definition handle_event :: "env \<Rightarrow> nat \<Rightarrow> PathIface \<Rightarrow> Event \<Rightarrow> (Shared, unit outcome) state" where
  "handle_event E now iface ev =
     (case ev of
        Announce dest info \<Rightarrow> handle_announce E now dest info
      | Data dest plaintext rcpt \<Rightarrow> do {
          broadcast_out E rcpt;
          deliver_lxmf E now (dest @ plaintext) True }
      | LinkEstablished lid rcpt \<Rightarrow> finished (do {
          broadcast_out E rcpt;
          emit (StatusText (ascii ''incoming link '' @ em_dash @ ascii '' awaiting message'' @ ellipsis)) })
      | LinkData lid plaintext rcpt \<Rightarrow> do {
          broadcast_out E rcpt;
          touch_backchannels now lid;
          deliver_lxmf E now plaintext True }
      | InLinkData lid ctx plaintext \<Rightarrow> inbound_resource E now lid ctx plaintext
      | LinkIdentified lid identity \<Rightarrow> handle_identified E now lid identity
      | LinkKeepalive lid reply \<Rightarrow> finished (do { broadcast_out E reply; touch_backchannels now lid })
      | InLinkClosed lid \<Rightarrow> finished (modify (\<lambda>s.
          s\<lparr>sh_backchannels := filter (\<lambda>(_, l, _). l \<noteq> lid) (sh_backchannels s),
            sh_in_resources := hm_remove lid (sh_in_resources s)\<rparr>))
      | OutboundLinkUp lid target \<Rightarrow> handle_link_up E now lid target
      | Delivered phash \<Rightarrow> finished (mark_delivered E phash)
      | OutLinkData lid ctx plaintext \<Rightarrow> handle_out_data E now lid ctx plaintext
      | OutLinkClosed lid \<Rightarrow> finished (handle_out_closed lid)
      | DataUndecryptable dest reason \<Rightarrow> finished
          (if reason \<noteq> ''token too short'' then emit (StatusText (ascii ''incoming message unreadable: '' @ ascii reason))
           else State_Monad.return ())
      | PathRequest dest \<Rightarrow> finished (do {
          raw \<leftarrow> build_path_response E now;
          case iface of Hub \<Rightarrow> hub_write E raw | Auto \<Rightarrow> send_to_peers E raw })
      | AddressedUnhandled _ _ _ \<Rightarrow> State_Monad.return (Ok ())
      | Unhandled _ _ _ \<Rightarrow> State_Monad.return (Ok ())
      | Dropped _ \<Rightarrow> State_Monad.return (Ok ()))"

definition handle_frame_app :: "env \<Rightarrow> nat \<Rightarrow> PathIface \<Rightarrow> bytes \<Rightarrow> (Shared, unit outcome) state" where
  "handle_frame_app E now iface frame_bytes = do {
     eph \<leftarrow> fill_random E KEY_HALF;
     ev \<leftarrow> on_transport (handle_frame (ev_crypto E) (ev_order E) eph iface frame_bytes);
     handle_event E now iface ev }"

end
