(* ===== verification/Chat.thy ===== *)
theory Chat
  imports Events
begin

text \<open>
  Two applications that talk to each other, and what the application as a whole keeps to itself: a text
  from the moment its author sends it to the mark that it was delivered, and the identity of a user who
  browses pages.
\<close>

section \<open>A short text fits one packet\<close>

lemma length_payload:
  "length co \<le> 255 \<Longrightarrow> length (mp_encode (VArray (payload_values ts [] co []))) = 15 + length co"
  by (simp add: payload_values_def mp_encode_def array_header_def bin_header_def map_header_def)

lemma short_text:
  assumes "sized C" "length d = 16" "length s = 16" "length co \<le> 255"
  shows "message_ok W ts [] co [] \<longleftrightarrow> 79 + length co < 2 ^ W"
    and "length (packed (pack C i d s ts [] co [] tk)) \<le> LINK_PACKED_MAX"
proof -
  show "message_ok W ts [] co [] \<longleftrightarrow> 79 + length co < 2 ^ W"
    using assms(4) length_payload [of co ts]
    by (simp add: message_ok_def pack_payload_eq bt_wf_def add.commute)
  have "length (mp_encode (VArray (payload_values ts [] co [] @ [VBin st]))) = 33 + length co" if "length st = 16" for st
    using that length_payload [OF assms(4)] by (simp add: length_mp_encode_snoc) (simp add: mp_encode_def bin_header_def)
  then show "length (packed (pack C i d s ts [] co [] tk)) \<le> LINK_PACKED_MAX"
    using assms length_payload [OF assms(4)] by (cases tk) (simp_all add: pack_eq stamped_def lens)
qed

lemma f64_u64_all: "n < 2 ^ 53 \<Longrightarrow> f64_to_u64 (f64_of_u64 n) = n"
  using f64_u64_exact(1) [of n]
  by (cases "n = 0") (simp_all add: f64_to_u64_def f64_of_u64_def f64_nat_def f64_exp_def f64_mant_def f64_neg_def)

section \<open>A text message, from one user to the other\<close>

lemma run_handle_frame_app:
  "run_state (handle_frame_app E now iface raw) s =
     (let (eph, s1) = run_state (fill_random E KEY_HALF) s;
          (ev, t) = handle_frame (ev_crypto E) (ev_order E) eph iface raw (sh_transport s)
      in run_state (handle_event E now iface ev) (s1\<lparr>sh_transport := t\<rparr>))"
  by (simp add: handle_frame_app_def on_transport_def fill_random_def Let_def split: prod.split)

definition names :: "Shared \<Rightarrow> _" where
  "names s = (sh_contacts s, sh_seen s)"

lemma quiet_names: "quiet names" by (simp add: quiet_def names_def)

lemma author_of_cong: "names s1 = names s \<Longrightarrow> author_of s1 src = author_of s src"
  by (simp add: author_of_def names_def split: option.split)

text \<open>The receiving side: the frame is a message on a link of ours.\<close>

lemma link_message_received:
  assumes "sized C" "signs C" "identity_ok C i" "length d = 16" "length src = 16" "message_ok (ev_width E) ts ti co fi"
    and "m = pack C i d src ts ti co fi tk" and "ev_crypto E = C"
    and "known (sh_transport b) src = Some k" "kd_identity k = public i"
    and "pm_message_id m \<notin> set (sh_recent_msg_ids b)"
    and "handle_frame C (ev_order E) (fst (run_state (fill_random E KEY_HALF) b)) iface raw (sh_transport b) =
      (LinkData lid (packed m) rcpt, sh_transport b)"
  shows "\<exists>b1. run_state (handle_frame_app E now iface raw) b = (Ok (), b1) \<and>
    PostAdd (author_of b src) (f64_to_u64 ts) (utf8_lossy co)
      \<in> set (sh_log (snd (run_state (activate_peer E src) b1))) \<and>
    (sh_writer b \<and> (\<forall>n. ev_hub E n = HubWritten) \<longrightarrow> HubWrite (frame rcpt) \<in> set (sh_log b1))"
proof -
  obtain eph b2 where 2: "run_state (fill_random E KEY_HALF) b = (eph, b2)" by (rule prod.exhaust)
  then have b2: "sh_writer b2 = sh_writer b" "talks b2 = talks b" "names b2 = names b"
    by (auto simp: fill_random_def Let_def talks_def names_def)
  define b3 where "b3 = b2\<lparr>sh_transport := sh_transport b\<rparr>"
  obtain ok b4 where 4: "run_state (broadcast_out E rcpt) b3 = (ok, b4)" by (rule prod.exhaust)
  define b5 where "b5 = snd (run_state (touch_backchannels now lid) b4)"
  have run: "run_state (handle_frame_app E now iface raw) b = run_state (deliver_lxmf E now (packed m) True) b5"
    using assms(8,12) 2 4 by (simp add: run_handle_frame_app handle_event_def b3_def b5_def split: prod.split)
  have "talks b4 = talks b3" "names b4 = names b3"
    using framesD [OF frames_quiet(10) 4] quiet_parts(1) quiet_names by blast+
  then have b5: "talks b5 = talks b" "names b5 = names b" "sh_log b5 = sh_log b4"
    using b2 by (simp_all add: b5_def touch_backchannels_def b3_def talks_def names_def)
  have k: "known (sh_transport b5) src = Some k" "pm_message_id m \<notin> set (sh_recent_msg_ids b5)"
    using b5(1) assms(9,11) by (simp_all add: talks_def)
  obtain b1 where b1: "run_state (deliver_lxmf E now (packed m) True) b5 = (Ok (), b1)"
      "PostAdd (author_of b5 src) (f64_to_u64 ts) (bubble_of co True)
        \<in> set (sh_log (snd (run_state (activate_peer E src) b1)))"
    using delivered_and_seen [OF assms(1-7,8) refl k(1) assms(10) k(2), of now True] by (auto simp: Let_def)
  moreover have "HubWrite (frame rcpt) \<in> set (sh_log b1)" if "sh_writer b" "\<forall>n. ev_hub E n = HubWritten"
    using broadcast_hub(2) [OF 4] that b2(1) b5(3) growsD [OF grows_delivery b1(1)] by (simp add: b3_def)
  ultimately show ?thesis using run author_of_cong [OF b5(2)] by (auto simp: bubble_of_def)
qed

text \<open>The sending side: the receipt of the entry's packet.\<close>

lemma receipt_received:
  assumes "\<forall>s2 s3. sh_outbox s2 = sh_outbox a1 \<and> run_state (mark_delivered E ph) s2 = ((), s3) \<longrightarrow>
      sh_outbox s3 = [] \<and> e \<in> set (sh_log s3)"
    and "fst (handle_frame (ev_crypto E) (ev_order E) (fst (run_state (fill_random E KEY_HALF) a1)) iface rcpt (sh_transport a1)) =
      Delivered ph"
  shows "\<exists>a2. run_state (handle_frame_app E now iface rcpt) a1 = (Ok (), a2) \<and> sh_outbox a2 = [] \<and> e \<in> set (sh_log a2)"
proof -
  obtain eph s1 where 1: "run_state (fill_random E KEY_HALF) a1 = (eph, s1)" by (rule prod.exhaust)
  then have o: "sh_outbox s1 = sh_outbox a1" by (auto simp: fill_random_def Let_def)
  obtain t where t: "handle_frame (ev_crypto E) (ev_order E) eph iface rcpt (sh_transport a1) = (Delivered ph, t)"
    using assms(2) 1 by (metis fst_conv prod.collapse)
  obtain s3 where 3: "run_state (mark_delivered E ph) (s1\<lparr>sh_transport := t\<rparr>) = ((), s3)"
    by (metis (full_types) prod.exhaust unit.exhaust)
  have "run_state (handle_frame_app E now iface rcpt) a1 = (Ok (), s3)"
    using 1 t 3 by (simp add: run_handle_frame_app handle_event_def finished_def)
  moreover have "sh_outbox s3 = [] \<and> e \<in> set (sh_log s3)" 
    using assms(1) [rule_format, of "s1\<lparr>sh_transport := t\<rparr>" s3] 3 o by simp
  ultimately show ?thesis by blast
qed

lemma text_sent:
  assumes C: "sized C" "aes_inverts C" "signs C" and E: "ev_crypto E = C" "visits_all (ev_order E)"
    and ok: "transport_ok C (sh_transport a)" "transport_ok C B"
    and user: "\<not> br_viewing (sh_browser a)" "sh_current_peer a = Some peer" "sh_outbox a = []"
      "map_of (sh_stamp_costs a) peer = None" "length peer = 16" "length (sh_our_dh a) = 16" "length body \<le> 255"
    and up: "fst (outbound_link_for (ev_order E) peer now (sh_transport a)) = Some lid" "linked C lid (sh_transport a) B"
    and run: "run_state (post E now body) a = (u, a0)" "run_state (pump_outbox E now) a0 = (r, a1)"
  shows "\<exists>ts tk raw ph. PostAdd SELF_AUTHOR ts (bubble_text body MARK_PENDING) \<in> set (sh_log a0) \<and> r = Ok () \<and>
    (sh_writer a \<and> (\<forall>n. ev_hub E n = HubWritten) \<longrightarrow> HubWrite (frame raw) \<in> set (sh_log a1)) \<and> in_flight raw raw \<and>
    (\<forall>raw'. in_flight raw raw' \<longrightarrow>
      (\<exists>rcpt. handle_frame C ordB ephB ifB raw' B = (LinkData lid
          (packed (pack C (tr_identity (sh_transport a)) peer (sh_our_dh a) (f64_of_u64 now) [] body [] tk)) rcpt, B) \<and>
        (\<forall>rcpt'. in_flight rcpt rcpt' \<longrightarrow>
          fst (handle_frame C (ev_order E) ephA ifA rcpt' (sh_transport a1)) = Delivered ph))) \<and>
    (\<forall>s2 s3. sh_outbox s2 = sh_outbox a1 \<and> run_state (mark_delivered E ph) s2 = ((), s3) \<longrightarrow> sh_outbox s3 = [] \<and>
       PostUpdate SELF_AUTHOR ts (bubble_text body (status_mark STATUS_DELIVERED)) \<in> set (sh_log s3))"
proof -
  obtain ts tk where q: "sh_outbox a0 = [queued_text E a now peer ts body tk]" "sh_transport a0 = sh_transport a"
      "sh_writer a0 = sh_writer a" "PostAdd SELF_AUTHOR ts (bubble_text body MARK_PENDING) \<in> set (sh_log a0)"
    using post_queues [OF user(1,2) run(1)] user(3) by auto
  define m where "m = queued_text E a now peer ts body tk"
  define pm where "pm = pack C (tr_identity (sh_transport a)) peer (sh_our_dh a) (f64_of_u64 now) [] body [] tk"
  have m: "om_needs_stamp m = None" "now \<le> om_deadline m" "om_in_flight m = None" "om_next_action m \<le> now"
      "\<not> om_via_pn m" "om_packed m = packed pm" "om_peer m = peer"
    using user(4) E(1) by (simp_all add: m_def queued_text_def pm_def)
  have len: "length (om_packed m) \<le> LINK_PACKED_MAX"
    using short_text(2) [OF C(1) user(5-7)] m(6) by (simp add: pm_def)
  have e: "posted m STATUS_DELIVERED = PostUpdate SELF_AUTHOR ts (bubble_text body (status_mark STATUS_DELIVERED))"
    by (simp add: posted_def m_def queued_text_def)
  note p = pumped_delivery [of E a0 B m now lid r a1 ordB ephB ifB "ev_order E" ephA ifA, unfolded E(1) q(2,3) m(6,7),
      OF C E(2) ok q(1) [folded m_def] m(1-5) len [unfolded m(6)] up run(2)]
  obtain raw ph where d: "r = Ok ()" "in_flight raw raw"
      "sh_writer a \<and> ev_hub E (sh_asked a0) = HubWritten \<longrightarrow> HubWrite (frame raw) \<in> set (sh_log a1)"
    and rx: "\<forall>raw'. in_flight raw raw' \<longrightarrow>
      (\<exists>rcpt. handle_frame C ordB ephB ifB raw' B = (LinkData lid (packed pm) rcpt, B) \<and> (\<forall>rcpt'. in_flight rcpt rcpt' \<longrightarrow>
        fst (handle_frame C (ev_order E) ephA ifA rcpt' (sh_transport a1)) = Delivered ph))"
    and mark: "\<forall>s2 s3. sh_outbox s2 = sh_outbox a1 \<and> run_state (mark_delivered E ph) s2 = ((), s3) \<longrightarrow>
       sh_outbox s3 = [] \<and> posted m STATUS_DELIVERED \<in> set (sh_log s3)"
    using p by (elim exE conjE) (rule that; assumption)
  have w: "sh_writer a \<and> (\<forall>n. ev_hub E n = HubWritten) \<longrightarrow> HubWrite (frame raw) \<in> set (sh_log a1)" using d(3) by blast
  show ?thesis
    by (rule exI [of _ ts], rule exI [of _ tk], rule exI [of _ raw], rule exI [of _ ph], intro conjI,
        rule q(4), rule d(1), rule w, rule d(2), rule rx [unfolded pm_def], rule mark [unfolded e])
qed

text \<open>
  C1. A text message from one user to the other, through both applications. The user types a text of at most
  255 bytes in the open conversation; a link to the peer is up, the queue is empty and the peer asks for no
  proof of work. The text is in the sender's chat with the mark of a message that is pending. The next pass of the
  sender's engine puts one packet on the wire. However the relays rewrite its headers, the peer's handler of
  frames accepts it: the peer's user sees the text, with its time, under the name the peer has for us, at
  once or on opening the conversation, and a receipt goes out. That receipt makes our handler of frames
  change the mark of that very message to delivered, and the queue is empty again.
\<close>

theorem chat_message:
  assumes C: "sized C" "aes_inverts C" "signs C"
    and E: "ev_crypto Ea = C" "ev_crypto Eb = C" "visits_all (ev_order Ea)" "16 \<le> ev_width Eb"
    and ok: "transport_ok C (sh_transport a)" "transport_ok C (sh_transport b)"
    and user: "\<not> br_viewing (sh_browser a)" "sh_current_peer a = Some peer" "sh_outbox a = []"
      "map_of (sh_stamp_costs a) peer = None" "length peer = 16" "length (sh_our_dh a) = 16"
    and body: "utf8_valid body" "length body \<le> 255" "now < 2 ^ 53"
    and up: "fst (outbound_link_for (ev_order Ea) peer now (sh_transport a)) = Some lid"
      "linked C lid (sh_transport a) (sh_transport b)"
    and known: "known (sh_transport b) (sh_our_dh a) = Some k" "kd_identity k = public (tr_identity (sh_transport a))"
    and fresh: "full_hash C (hashed_part peer (sh_our_dh a) (f64_of_u64 now) [] body []) \<notin> set (sh_recent_msg_ids b)"
    and run: "run_state (post Ea now body) a = (u, a0)" "run_state (pump_outbox Ea now) a0 = (r, a1)"
  shows "\<exists>ts raw. PostAdd SELF_AUTHOR ts (bubble_text body MARK_PENDING) \<in> set (sh_log a0) \<and> r = Ok () \<and>
    (sh_writer a \<and> (\<forall>n. ev_hub Ea n = HubWritten) \<longrightarrow> HubWrite (frame raw) \<in> set (sh_log a1)) \<and> in_flight raw raw \<and>
    (\<forall>raw'. in_flight raw raw' \<longrightarrow>
      (\<exists>b1 rcpt. run_state (handle_frame_app Eb nowB ifB raw') b = (Ok (), b1) \<and>
        PostAdd (author_of b (sh_our_dh a)) now body
          \<in> set (sh_log (snd (run_state (activate_peer Eb (sh_our_dh a)) b1))) \<and>
        (sh_writer b \<and> (\<forall>n. ev_hub Eb n = HubWritten) \<longrightarrow> HubWrite (frame rcpt) \<in> set (sh_log b1)) \<and>
        (\<forall>rcpt'. in_flight rcpt rcpt' \<longrightarrow>
          (\<exists>a2. run_state (handle_frame_app Ea later ifA rcpt') a1 = (Ok (), a2) \<and> sh_outbox a2 = [] \<and>
            PostUpdate SELF_AUTHOR ts (bubble_text body (status_mark STATUS_DELIVERED)) \<in> set (sh_log a2)))))"
proof -
  let ?i = "tr_identity (sh_transport a)" and ?src = "sh_our_dh a" and ?ts = "f64_of_u64 now"
  let ?eA = "fst (run_state (fill_random Ea KEY_HALF) a1)" and ?eB = "fst (run_state (fill_random Eb KEY_HALF) b)"
  note p = text_sent [OF C E(1,3) ok user body(2) up run, of "ev_order Eb" ?eB ifB ?eA ifA]
  obtain ts tk raw ph where d: "PostAdd SELF_AUTHOR ts (bubble_text body MARK_PENDING) \<in> set (sh_log a0)" "r = Ok ()"
      "sh_writer a \<and> (\<forall>n. ev_hub Ea n = HubWritten) \<longrightarrow> HubWrite (frame raw) \<in> set (sh_log a1)" "in_flight raw raw"
    and rx: "\<forall>raw'. in_flight raw raw' \<longrightarrow>
      (\<exists>rcpt. handle_frame C (ev_order Eb) ?eB ifB raw' (sh_transport b) =
          (LinkData lid (packed (pack C ?i peer ?src ?ts [] body [] tk)) rcpt, sh_transport b) \<and>
        (\<forall>rcpt'. in_flight rcpt rcpt' \<longrightarrow>
          fst (handle_frame C (ev_order Ea) ?eA ifA rcpt' (sh_transport a1)) = Delivered ph))"
    and mark: "\<forall>s2 s3. sh_outbox s2 = sh_outbox a1 \<and> run_state (mark_delivered Ea ph) s2 = ((), s3) \<longrightarrow> sh_outbox s3 = [] \<and>
       PostUpdate SELF_AUTHOR ts (bubble_text body (status_mark STATUS_DELIVERED)) \<in> set (sh_log s3)"
    using p by (elim exE conjE) (rule that; assumption)
  define pm where "pm = pack C ?i peer ?src ?ts [] body [] tk"
  have i: "identity_ok C ?i" using ok(1) by (simp add: transport_ok_def)
  have "79 + length body < 2 ^ 16" using body(2) by simp
  also have "(2 :: nat) ^ 16 \<le> 2 ^ ev_width Eb" using E(4) by (intro power_increasing) simp_all
  finally have mok: "message_ok (ev_width Eb) ?ts [] body []"
    using short_text(1) [OF C(1) user(5,6) body(2)] by blast
  have id: "pm_message_id pm \<notin> set (sh_recent_msg_ids b)" using fresh by (simp add: pm_def pack_eq)
  note home = receipt_received [OF mark, of ifA _ later, unfolded E(1)]
  note there = link_message_received [OF C(1,3) i user(5,6) mok pm_def E(2) known id, of _ _ lid _ nowB,
      unfolded f64_u64_all [OF body(3)] utf8_lossy_valid [OF body(1)]]
  show ?thesis
  proof (rule exI [of _ ts], rule exI [of _ raw], intro conjI allI impI)
    fix raw' assume "in_flight raw raw'"
    with rx [folded pm_def] obtain rcpt where
      1: "handle_frame C (ev_order Eb) ?eB ifB raw' (sh_transport b) = (LinkData lid (packed pm) rcpt, sh_transport b)"
      and 2: "\<forall>rcpt'. in_flight rcpt rcpt' \<longrightarrow>
        fst (handle_frame C (ev_order Ea) ?eA ifA rcpt' (sh_transport a1)) = Delivered ph" by blast
    from there [OF 1] obtain b1 where b1: "run_state (handle_frame_app Eb nowB ifB raw') b = (Ok (), b1)"
        "PostAdd (author_of b ?src) now body \<in> set (sh_log (snd (run_state (activate_peer Eb ?src) b1)))"
        "sh_writer b \<and> (\<forall>n. ev_hub Eb n = HubWritten) \<longrightarrow> HubWrite (frame rcpt) \<in> set (sh_log b1)"
      by (elim exE conjE) (rule that; assumption)
    show "\<exists>b1 rcpt. run_state (handle_frame_app Eb nowB ifB raw') b = (Ok (), b1) \<and>
        PostAdd (author_of b ?src) now body \<in> set (sh_log (snd (run_state (activate_peer Eb ?src) b1))) \<and>
        (sh_writer b \<and> (\<forall>n. ev_hub Eb n = HubWritten) \<longrightarrow> HubWrite (frame rcpt) \<in> set (sh_log b1)) \<and>
        (\<forall>rcpt'. in_flight rcpt rcpt' \<longrightarrow>
          (\<exists>a2. run_state (handle_frame_app Ea later ifA rcpt') a1 = (Ok (), a2) \<and> sh_outbox a2 = [] \<and>
            PostUpdate SELF_AUTHOR ts (bubble_text body (status_mark STATUS_DELIVERED)) \<in> set (sh_log a2)))"
      by (rule exI [of _ b1], rule exI [of _ rcpt], intro conjI allI, rule b1, rule b1, rule b1, rule impI, rule home,
          rule 2 [rule_format])
  qed (use d in blast)+
qed

theorem chat_message_witness:
  "\<exists>a b a0 a1 raw b1 rcpt. run_state (post demo_env 0 [0x68, 0x69]) a = ((), a0) \<and>
     run_state (pump_outbox demo_env 0) a0 = (Ok (), a1) \<and> HubWrite (frame raw) \<in> set (sh_log a1) \<and>
     run_state (handle_frame_app demo_env 1 Hub raw) b = (Ok (), b1) \<and> HubWrite (frame rcpt) \<in> set (sh_log b1) \<and>
     PostAdd [0x62] 0 [0x68, 0x69] \<in> set (sh_log (snd (run_state (activate_peer demo_env (replicate 16 1)) b1)))"
proof -
  obtain lid A B where AB: "transport_ok demo A" "transport_ok demo B" "linked demo lid A B"
    "fst (outbound_link_for id (replicate 16 7) 0 A) = Some lid" using demo_link_up by blast
  let ?k = "\<lparr>kd_identity = public (tr_identity A), kd_name_hash = [], kd_ratchet = None, kd_app_data = []\<rparr>"
  define a where "a = demo_shared\<lparr>sh_transport := A, sh_writer := True, sh_current_peer := Some (replicate 16 7)\<rparr>"
  define b where "b = demo_shared\<lparr>sh_transport := remember (replicate 16 1) ?k B, sh_writer := True,
    sh_contacts := [(replicate 16 1, [0x62])]\<rparr>"
  obtain a0 where r0: "run_state (post demo_env 0 [0x68, 0x69]) a = ((), a0)"
    by (metis (full_types) prod.exhaust unit.exhaust)
  obtain r a1 where r1: "run_state (pump_outbox demo_env 0) a0 = (r, a1)" by (rule prod.exhaust)
  have a: "\<not> br_viewing (sh_browser a)" "sh_current_peer a = Some (replicate 16 7)" "sh_outbox a = []"
    "map_of (sh_stamp_costs a) (replicate 16 7) = None" "sh_our_dh a = replicate 16 1" "sh_transport a = A" "sh_writer a"
    by (simp_all add: a_def demo_shared_def Shared_new_def BrowserState_new_def)
  have b: "sh_recent_msg_ids b = []" "sh_writer b" "author_of b (replicate 16 1) = [0x62]"
    "sh_transport b = insert_known (replicate 16 1) ?k B"
    by (simp_all add: b_def demo_shared_def Shared_new_def author_of_def remember_def)
  have t: "transport_ok demo (sh_transport b)" "known (sh_transport b) (replicate 16 1) = Some ?k"
    using insert_ok(1) [OF AB(2)] known_table.get_ins [OF tables_ok(6) [OF AB(2)]] by (simp_all add: b(4) known_def)
  have l: "linked demo lid A (sh_transport b)"
    using AB(3) by (simp add: linked_def b(4) insert_known_def split_beta)
  have E: "ev_crypto demo_env = demo" "ev_order demo_env = id" "ev_width demo_env = 32" "ev_hub demo_env n = HubWritten" for n
    by (simp_all add: demo_env_def id_def)
  have v: "visits_all (ev_order demo_env)" "utf8_valid [0x68, 0x69]"
    by (simp add: visits_all_def E, rule utf8_valid_plain) auto
  note c = chat_message [OF demo_ok(1-3) E(1,1) v(1) _ _ t(1) a(1-4) _ _ v(2) _ _ _ _ t(2) [folded a(5)] _ _ r0 r1,
      of lid 1 Hub 0 Hub]
  obtain raw where raw: "r = Ok ()" "HubWrite (frame raw) \<in> set (sh_log a1)" "in_flight raw raw"
    "\<forall>raw'. in_flight raw raw' \<longrightarrow> (\<exists>b1 rcpt. run_state (handle_frame_app demo_env 1 Hub raw') b = (Ok (), b1) \<and>
      PostAdd [0x62] 0 [0x68, 0x69] \<in> set (sh_log (snd (run_state (activate_peer demo_env (replicate 16 1)) b1))) \<and>
      HubWrite (frame rcpt) \<in> set (sh_log b1))"
    using c AB(1,4) l by (simp add: a b E) blast
  then show ?thesis using r0 r1 by blast
qed

end
